(* ===== verification/Pichi_Base.thy ===== *)
theory Pichi_Base
  imports Main "HOL-Library.Word" "HOL-Library.AList" "HOL-Library.Sublist"
begin

text \<open>
  The prelude: the enumerations of \<^verbatim>\<open>include/pichi/common/enumerations.hpp\<close>, the error codes and
  exceptions of \<^verbatim>\<open>src/common/error.cpp\<close> and \<^verbatim>\<open>src/common/asserts.cpp\<close>, the result type every
  fallible operation of the model returns, and the generic lemmas on results, lists and
  association lists that the component theories share.

  A C++ function that may throw returns \<open>'a result\<close>, that is \<open>exn + 'a\<close>: \<open>Inl\<close> holds the
  exception that leaves the function. \<open>rbind\<close> is the sequencing of two statements, \<open>mapM\<close> is
  \<^verbatim>\<open>std::transform\<close> with a function that may throw.
\<close>

section \<open>Enumerations\<close>

type_synonym byte = "8 word"
type_synonym bytes = "byte list"
type_synonym u16 = "16 word"
type_synonym size_t = "64 word"

datatype EndpointType = DOMAIN_NAME | IPV4 | IPV6

datatype AdapterType = DIRECT | REJECT | SOCKS5 | HTTP | SS | TUNNEL | TROJAN | TRANSP | DUAL

datatype CryptoMethod =
    AES_128_GCM
  | AES_192_GCM
  | AES_256_GCM
  | CHACHA20_IETF_POLY1305
  | XCHACHA20_IETF_POLY1305

datatype DelayMode = RANDOM | FIXED
datatype BalanceType = RANDOM | ROUND_ROBIN | LEAST_CONN

datatype PichiError =
    OK
  | BAD_PROTO
  | CRYPTO_ERROR
  | BUFFER_OVERFLOW
  | BAD_JSON
  | SEMANTIC_ERROR
  | RES_IN_USE
  | RES_LOCKED
  | CONN_FAILURE
  | BAD_AUTH_METHOD
  | UNAUTHENTICATED
  | MISC

section \<open>Error codes and exceptions\<close>

text \<open>
  A \<^verbatim>\<open>boost::system::error_code\<close> is a value together with its category. The model has one
  constructor per category the sources distinguish; the values of the Asio and Beast
  categories are the ones the sources compare with, every other one is \<open>Other_code\<close>.
\<close>

datatype asio_error =
    asio_eof
  | asio_operation_aborted
  | asio_address_in_use
  | asio_address_family_not_supported
  | asio_connection_refused
  | asio_connection_reset
  | asio_host_not_found
  | asio_host_unreachable
  | asio_network_down
  | asio_network_unreachable
  | asio_timed_out
  | asio_invalid_argument
  | asio_bad_descriptor
  | asio_not_found

datatype http_error = http_end_of_stream | http_need_more | http_other nat

datatype error_code =
    Pichi_code PichiError
  | Asio_code asio_error
  | Http_code http_error
  | Other_code nat

text \<open>
  The exceptions that can leave a modelled function: \<^verbatim>\<open>boost::system::system_error\<close> with its
  code and message, the standard exceptions the sources can raise without naming them, Botan's
  failed authentication and its other exceptions, and
  \<open>UB\<close> for an operation the language leaves undefined (the dereference of an empty
  \<^verbatim>\<open>std::optional\<close>, a write past the end of an array). \<open>Diverges\<close> is the value of a call that never
  returns, \<open>Terminated\<close> of one that ended the process with \<^verbatim>\<open>std::terminate\<close>; none of the last three is an
  exception a handler can catch.
\<close>

datatype exn =
    SystemError error_code string
  | RegexError
  | OutOfRange
  | BadVariantAccess
  | BadAddressCast
  | InvalidTag
  | BotanError
  | UB
  | Diverges
  | Terminated

type_synonym 'a result = "exn + 'a"

definition makeErrorCode :: "PichiError \<Rightarrow> error_code" where
  "makeErrorCode e = Pichi_code e"

fun pichi_message :: "PichiError \<Rightarrow> string" where
  "pichi_message OK = ''OK''"
| "pichi_message BAD_PROTO = ''Bad protocol''"
| "pichi_message CRYPTO_ERROR = ''Crypto error''"
| "pichi_message BUFFER_OVERFLOW = ''Buffer maximum exceeded''"
| "pichi_message BAD_JSON = ''Invalid JSON''"
| "pichi_message SEMANTIC_ERROR = ''JSON semantic error''"
| "pichi_message RES_IN_USE = ''Resource in use''"
| "pichi_message RES_LOCKED = ''Resource locked''"
| "pichi_message CONN_FAILURE = ''Connection failure''"
| "pichi_message BAD_AUTH_METHOD = ''Bad authentication method''"
| "pichi_message UNAUTHENTICATED = ''Authentication failure''"
| "pichi_message MISC = ''Misc error''"

definition fail_with :: "PichiError \<Rightarrow> string \<Rightarrow> 'a result" where
  "fail_with e msg = Inl (SystemError (makeErrorCode e) msg)"

definition fail_misc :: "string \<Rightarrow> 'a result" where
  "fail_misc msg = fail_with MISC msg"

definition assertTrue :: "bool \<Rightarrow> PichiError \<Rightarrow> string \<Rightarrow> unit result" where
  "assertTrue b e msg = (if \<not> b then fail_with e msg else Inr ())"

definition assertFalse :: "bool \<Rightarrow> PichiError \<Rightarrow> string \<Rightarrow> unit result" where
  "assertFalse b e msg = assertTrue (\<not> b) e msg"

definition assertCode :: "bool \<Rightarrow> error_code \<Rightarrow> unit result" where
  "assertCode b ec = (if \<not> b then Inl (SystemError ec '''') else Inr ())"

section \<open>Sequencing\<close>

definition rbind :: "'a result \<Rightarrow> ('a \<Rightarrow> 'b result) \<Rightarrow> 'b result" where
  "rbind m f = (case m of Inl e \<Rightarrow> Inl e | Inr x \<Rightarrow> f x)"

definition rthen :: "unit result \<Rightarrow> 'b result \<Rightarrow> 'b result" where
  "rthen m k = (case m of Inl e \<Rightarrow> Inl e | Inr _ \<Rightarrow> k)"

fun mapM :: "('a \<Rightarrow> 'b result) \<Rightarrow> 'a list \<Rightarrow> 'b list result" where
  "mapM f [] = Inr []"
| "mapM f (x # xs) = rbind (f x) (\<lambda>y. rbind (mapM f xs) (\<lambda>ys. Inr (y # ys)))"

text \<open>
  A coroutine that reads or writes a stream is a function of the stream's state: it returns
  its result together with the state it leaves behind, also when it throws.
\<close>

type_synonym ('s, 'a) io = "'s \<Rightarrow> 'a result \<times> 's"

definition ioret :: "'a result \<Rightarrow> ('s, 'a) io" where
  "ioret r s = (r, s)"

definition iobind :: "('s, 'a) io \<Rightarrow> ('a \<Rightarrow> ('s, 'b) io) \<Rightarrow> ('s, 'b) io" where
  "iobind m f s = (case m s of (Inl e, s') \<Rightarrow> (Inl e, s') | (Inr x, s') \<Rightarrow> f x s')"

text \<open>
  \<open>std::optional\<close>: \<^verbatim>\<open>*opt\<close> is undefined on an empty value. \<open>std::get<T>\<close> of a variant raises
  \<^verbatim>\<open>bad_variant_access\<close>; the projections are given per variant where it is declared.
\<close>

definition deref :: "'a option \<Rightarrow> 'a result" where
  "deref p = (case p of None \<Rightarrow> Inl UB | Some x \<Rightarrow> Inr x)"

definition has_value :: "'a option \<Rightarrow> bool" where
  "has_value p = (p \<noteq> None)"

text \<open>Text and bytes: a \<^verbatim>\<open>std::string\<close> is a sequence of bytes, Isabelle's \<open>char\<close> is a byte.\<close>

definition byte_of_char :: "char \<Rightarrow> byte" where
  "byte_of_char c = of_nat (of_char c)"

definition char_of_byte :: "byte \<Rightarrow> char" where
  "char_of_byte b = char_of (unat b)"

definition bytes_of :: "string \<Rightarrow> bytes" where
  "bytes_of s = map byte_of_char s"

definition string_of :: "bytes \<Rightarrow> string" where
  "string_of bs = map char_of_byte bs"

text \<open>\<^verbatim>\<open>std::tolower\<close> in the "C" locale.\<close>

definition tolower :: "char \<Rightarrow> char" where
  "tolower c = (let n = (of_char c :: nat) in
     if 65 \<le> n \<and> n \<le> 90 then char_of (n + 32) else c)"

section \<open>Simplification rules\<close>

named_theorems result_simps \<open>how a result splits into the results of its steps\<close>

lemma rbind_simps [simp]: "rbind (Inl e) f = Inl e" "rbind (Inr x) f = f x"
  by (simp_all add: rbind_def)

lemma rthen_simps [simp]: "rthen (Inl e) k = Inl e" "rthen (Inr u) k = k"
  by (simp_all add: rthen_def)

lemma rbind_assoc: "rbind (rbind m f) g = rbind m (\<lambda>x. rbind (f x) g)"
  by (cases m) auto

lemma rbind_Inr_iff [result_simps]: "rbind m f = Inr y \<longleftrightarrow> (\<exists>x. m = Inr x \<and> f x = Inr y)"
  by (cases m) auto

lemma rbind_Inl_iff [result_simps]:
  "rbind m f = Inl e \<longleftrightarrow> m = Inl e \<or> (\<exists>x. m = Inr x \<and> f x = Inl e)"
  by (cases m) auto

lemma rthen_Inr_iff [result_simps]: "rthen m k = Inr y \<longleftrightarrow> m = Inr () \<and> k = Inr y"
  by (cases m) auto

lemma rthen_Inl_iff [result_simps]:
  "rthen m k = Inl e \<longleftrightarrow> m = Inl e \<or> m = Inr () \<and> k = Inl e"
  by (cases m) auto

lemma fail_with_iff [simp]:
  "fail_with e msg \<noteq> Inr y" "fail_with e msg = Inl x \<longleftrightarrow> x = SystemError (Pichi_code e) msg"
  by (auto simp: fail_with_def makeErrorCode_def)

lemma fail_misc_iff [simp]:
  "fail_misc msg \<noteq> Inr y" "fail_misc msg = Inl x \<longleftrightarrow> x = SystemError (Pichi_code MISC) msg"
  by (auto simp: fail_misc_def)

lemma assertTrue_Inr [simp]: "assertTrue b e msg = Inr u \<longleftrightarrow> b"
  by (simp add: assertTrue_def)

lemma assertTrue_Inl [simp]:
  "assertTrue b e msg = Inl x \<longleftrightarrow> \<not> b \<and> x = SystemError (Pichi_code e) msg"
  by (simp add: assertTrue_def)

lemma assertFalse_Inr [simp]: "assertFalse b e msg = Inr u \<longleftrightarrow> \<not> b"
  by (simp add: assertFalse_def)

lemma assertFalse_Inl [simp]:
  "assertFalse b e msg = Inl x \<longleftrightarrow> b \<and> x = SystemError (Pichi_code e) msg"
  by (simp add: assertFalse_def)

lemma assert_eval [simp]:
  "assertTrue True e msg = Inr ()" "assertTrue False e msg = fail_with e msg"
  "assertFalse False e msg = Inr ()" "assertFalse True e msg = fail_with e msg"
  by (simp_all add: assertTrue_def assertFalse_def)

lemma rthen_fail_with [simp]:
  "rthen (fail_with e msg) k = fail_with e msg" "rbind (fail_with e msg) f = fail_with e msg"
  by (simp_all add: fail_with_def)

lemma deref_simps [simp]: "deref None = Inl UB" "deref (Some x) = Inr x"
  by (simp_all add: deref_def)

lemma deref_Inr_iff [simp]: "deref p = Inr x \<longleftrightarrow> p = Some x"
  by (cases p) auto

lemma has_value_simps [simp]: "has_value None \<longleftrightarrow> False" "has_value (Some x) \<longleftrightarrow> True"
  by (simp_all add: has_value_def)

lemma ioret_simps [simp]: "ioret r s = (r, s)"
  by (simp add: ioret_def)

lemma iobind_simps [simp]:
  "m s = (Inl e, s') \<Longrightarrow> iobind m f s = (Inl e, s')"
  "m s = (Inr x, s') \<Longrightarrow> iobind m f s = f x s'"
  by (simp_all add: iobind_def)

lemma iobind_ioret [simp]: "iobind (ioret (Inr x)) f = f x" "iobind (ioret (Inl e)) f = ioret (Inl e)"
  by (simp_all add: fun_eq_iff)

lemma iobind_Inr_iff [result_simps]: "iobind m f s = (Inr y, t) \<longleftrightarrow>
  (\<exists>x s'. m s = (Inr x, s') \<and> f x s' = (Inr y, t))"
  by (cases "m s"; cases "fst (m s)") (auto simp: iobind_def)

lemma iobind_Inl_iff [result_simps]: "iobind m f s = (Inl e, t) \<longleftrightarrow>
  m s = (Inl e, t) \<or> (\<exists>x s'. m s = (Inr x, s') \<and> f x s' = (Inl e, t))"
  by (cases "m s"; cases "fst (m s)") (auto simp: iobind_def)

text \<open>A computation keeps a predicate when it holds afterwards too, whether it fails or not.\<close>

named_theorems keeping

definition keeps :: "('s \<Rightarrow> bool) \<Rightarrow> ('s, 'a) io \<Rightarrow> bool" where
  "keeps P m \<longleftrightarrow> (\<forall>s r s'. P s \<longrightarrow> m s = (r, s') \<longrightarrow> P s')"

lemma keepsD: "keeps P m \<Longrightarrow> P s \<Longrightarrow> m s = (r, s') \<Longrightarrow> P s'"
  by (simp add: keeps_def)

lemma keeps_ioret [keeping]: "keeps P (ioret r)"
  by (simp add: keeps_def)

lemma keeps_iobind [keeping]: "keeps P m \<Longrightarrow> (\<And>x. keeps P (f x)) \<Longrightarrow> keeps P (iobind m f)"
proof -
  assume m: "keeps P m" and f: "\<And>x. keeps P (f x)"
  have "P s'" if "P s" "iobind m f s = (r, s')" for s r s'
  proof (cases "m s")
    case (Pair y t)
    then have "P t" using keepsD [OF m that(1)] by blast
    then show ?thesis using that(2) Pair keepsD [OF f] by (cases y) auto
  qed
  then show ?thesis by (simp add: keeps_def)
qed

lemma keeps_if [keeping]: "keeps P m \<Longrightarrow> keeps P n \<Longrightarrow> keeps P (if b then m else n)"
  by simp

lemma mapM_Inr_iff: "mapM f xs = Inr ys \<longleftrightarrow> list_all2 (\<lambda>x y. f x = Inr y) xs ys"
proof (induction xs arbitrary: ys)
  case Nil
  then show ?case by auto
next
  case (Cons x xs)
  then show ?case by (cases ys) (auto simp: result_simps)
qed

lemma mapM_Inl: "mapM f xs = Inl e \<Longrightarrow> \<exists>x \<in> set xs. f x = Inl e"
  by (induction xs) (auto simp: result_simps)

lemma mapM_cong [fundef_cong]:
  "xs = ys \<Longrightarrow> (\<And>x. x \<in> set ys \<Longrightarrow> f x = g x) \<Longrightarrow> mapM f xs = mapM g ys"
  by (induction ys arbitrary: xs) auto

lemma mapM_map_total: "(\<And>x. x \<in> set xs \<Longrightarrow> f (g x) = Inr (h x)) \<Longrightarrow>
  mapM f (map g xs) = Inr (map h xs)"
  by (induction xs) auto

lemma mapM_total: "(\<And>x. x \<in> set xs \<Longrightarrow> f x = Inr (h x)) \<Longrightarrow> mapM f xs = Inr (map h xs)"
  using mapM_map_total [of xs f id h] by simp

lemma mapM_append: "mapM f (xs @ ys) =
  rbind (mapM f xs) (\<lambda>as. rbind (mapM f ys) (\<lambda>bs. Inr (as @ bs)))"
proof (induction xs)
  case Nil
  show ?case by (cases "mapM f ys") auto
next
  case (Cons x xs)
  then show ?case
    by (cases "f x"; cases "mapM f xs"; cases "mapM f ys") auto
qed

lemma mapM_Inr_length: "mapM f xs = Inr ys \<Longrightarrow> length ys = length xs"
  by (auto simp: mapM_Inr_iff dest: list_all2_lengthD)

lemma mapM_Inr_set: "mapM f xs = Inr ys \<Longrightarrow> y \<in> set ys \<Longrightarrow> \<exists>x \<in> set xs. f x = Inr y"
  by (induction xs arbitrary: ys) (auto simp: result_simps)

subsection \<open>Text and bytes\<close>

lemma char_of_byte_of_char [simp]: "char_of_byte (byte_of_char c) = c"
proof -
  have "unat (of_nat (of_char c) :: byte) = of_char c mod 256"
    by (simp add: unat_of_nat)
  then have "unat (of_nat (of_char c) :: byte) = of_char c"
    by (simp only: of_char_mod_256)
  then show ?thesis by (simp add: char_of_byte_def byte_of_char_def)
qed

lemma byte_of_char_of_byte [simp]: "byte_of_char (char_of_byte b) = b"
proof -
  have "unat b < 2 ^ LENGTH(8)" by (rule unsigned_less)
  then have "unat b mod 256 = unat b" by simp
  then show ?thesis by (simp add: char_of_byte_def byte_of_char_def)
qed

lemma bytes_string_inverse [simp]:
  "string_of (bytes_of s) = s" "bytes_of (string_of bs) = bs"
  by (simp_all add: bytes_of_def string_of_def comp_def)

lemma length_bytes_of [simp]: "length (bytes_of s) = length s"
  "length (string_of bs) = length bs"
  by (simp_all add: bytes_of_def string_of_def)

lemma bytes_of_empty_iff [simp]: "bytes_of s = [] \<longleftrightarrow> s = []" "string_of bs = [] \<longleftrightarrow> bs = []"
  by (simp_all add: bytes_of_def string_of_def)

subsection \<open>Association lists\<close>

text \<open>
  A \<^verbatim>\<open>std::unordered_map\<close> is an association list with distinct keys, in the order the
  container iterates. \<open>AList.update\<close> is \<^verbatim>\<open>insert_or_assign\<close>, \<open>AList.delete\<close> is \<^verbatim>\<open>erase\<close>.
\<close>

type_synonym 'v value_map = "(string \<times> 'v) list"

definition map_contains :: "'v value_map \<Rightarrow> string \<Rightarrow> bool" where
  "map_contains m k = (map_of m k \<noteq> None)"

definition map_at :: "'v value_map \<Rightarrow> string \<Rightarrow> 'v result" where
  "map_at m k = (case map_of m k of None \<Rightarrow> Inl OutOfRange | Some v \<Rightarrow> Inr v)"

lemma map_contains_update [simp]:
  "map_contains (AList.update k v m) j \<longleftrightarrow> j = k \<or> map_contains m j"
  by (auto simp: map_contains_def AList.update_conv')

lemma map_contains_delete [simp]:
  "map_contains (AList.delete k m) j \<longleftrightarrow> j \<noteq> k \<and> map_contains m j"
  by (auto simp: map_contains_def AList.delete_conv')

lemma map_at_update: "map_at (AList.update k v m) j = (if j = k then Inr v else map_at m j)"
  by (simp add: map_at_def AList.update_conv')

lemma map_at_delete: "j \<noteq> k \<Longrightarrow> map_at (AList.delete k m) j = map_at m j"
  by (simp add: map_at_def AList.delete_conv')

lemma map_at_Inr_iff: "map_at m k = Inr v \<longleftrightarrow> map_of m k = Some v"
  by (auto simp: map_at_def split: option.splits)

lemma map_contains_iff: "map_contains m k \<longleftrightarrow> (\<exists>v. map_at m k = Inr v)"
  by (auto simp: map_contains_def map_at_def split: option.splits)

subsection \<open>Dotted text\<close>

text \<open>A dotted text (a domain name, an address) as the sequence of its labels.\<close>

fun labels :: "string \<Rightarrow> string list" where
  "labels [] = [[]]"
| "labels (c # s) =
     (if c = CHR ''.'' then [] # labels s
      else case labels s of [] \<Rightarrow> [[c]] | l # ls \<Rightarrow> (c # l) # ls)"

fun join_labels :: "string list \<Rightarrow> string" where
  "join_labels [] = []"
| "join_labels [l] = l"
| "join_labels (l # ls) = l @ CHR ''.'' # join_labels ls"

lemma labels_nonempty [simp]: "labels s \<noteq> []"
  by (cases s) (auto split: list.splits)

lemma join_labels_Cons: "ls \<noteq> [] \<Longrightarrow> join_labels (l # ls) = l @ CHR ''.'' # join_labels ls"
  by (cases ls) auto

lemma join_labels_Cons_char: "join_labels ((c # l) # ls) = c # join_labels (l # ls)"
  by (cases ls) auto

lemma join_labels [simp]: "join_labels (labels s) = s"
proof (induction s)
  case (Cons c s)
  then show ?case
    by (cases "labels s") (auto simp: join_labels_Cons join_labels_Cons_char)
qed simp

lemma labels_append_dot: "labels (p @ CHR ''.'' # q) = labels p @ labels q"
  by (induction p) (auto split: list.splits)

lemma join_labels_append:
  "xs \<noteq> [] \<Longrightarrow> ys \<noteq> [] \<Longrightarrow> join_labels (xs @ ys) = join_labels xs @ CHR ''.'' # join_labels ys"
proof (induction xs)
  case (Cons x xs)
  then show ?case by (cases "xs = []") (simp_all add: join_labels_Cons)
qed simp

lemma suffix_labels_iff:
  "suffix (labels d) (labels s) \<longleftrightarrow> s = d \<or> (\<exists>p. s = p @ CHR ''.'' # d)" (is "?l \<longleftrightarrow> ?r")
proof
  assume ?l
  then obtain zs where zs: "labels s = zs @ labels d" by (auto simp: suffix_def)
  then have "s = join_labels (zs @ labels d)" using join_labels [of s] by simp
  then show ?r by (cases "zs = []") (auto simp: join_labels_append)
qed (auto simp: labels_append_dot suffix_def)

lemma set_AList_update: "distinct (map fst m) \<Longrightarrow>
  set (AList.update k v m) = insert (k, v) {x \<in> set m. fst x \<noteq> k}"
  by (induction m) (auto simp: image_iff)

lemma set_AList_delete: "set (AList.delete k m) = {x \<in> set m. fst x \<noteq> k}"
  by (auto simp: AList.delete_eq)

lemma distinct_AList: "distinct (map fst m) \<Longrightarrow> distinct (map fst (AList.update k v m))"
  "distinct (map fst m) \<Longrightarrow> distinct (map fst (AList.delete k m))"
  by (simp_all add: AList.distinct_update AList.distinct_delete)

lemma uint_u16_bound:
  "0 \<le> uint (p :: u16)" "uint p \<le> 65535" "uint p < 2147483648" "-2147483648 \<le> uint p"
proof -
  show "0 \<le> uint p" by simp
  then show "-2147483648 \<le> uint p" by (rule order_trans [rotated]) simp
  show "uint p \<le> 65535" "uint p < 2147483648" using uint_lt2p [of p] by simp_all
qed

end
