(* ===== verification/Pichi_Regex.thy ===== *)
theory Pichi_Regex
  imports Pichi_Base
begin

text \<open>
  The fixed regular expressions of the program are \<^verbatim>\<open>std::regex\<close> objects in the ECMAScript grammar.
  Here is the part of that grammar they use, with the matcher of the standard: alternatives are
  tried in order, a greedy quantifier prefers more repetitions, an iteration that consumes nothing
  is given up, and a group remembers the text of its last iteration. The matcher returns all the
  ways to match a prefix, the preferred one first; \<^verbatim>\<open>std::regex_match\<close> takes the first that consumes
  the whole text, so \<^verbatim>\<open>^\<close> and \<^verbatim>\<open>$\<close> at the ends of a pattern say nothing more.
\<close>

section \<open>Expressions\<close>

datatype rx =
    RLit string
  | RDot
  | RNot "char list"
  | ROneOf "char list"
  | RSeq rx rx
  | ROpt rx
  | RStar rx
  | RGroup nat rx
  | RAlt rx rx

definition RPlus :: "rx \<Rightarrow> rx" where
  "RPlus r = RSeq r (RStar r)"

type_synonym captures = "(nat \<times> string) list"

definition rx_char :: "(char \<Rightarrow> bool) \<Rightarrow> string \<Rightarrow> (string \<times> string \<times> captures) list" where
  "rx_char P s = (case s of [] \<Rightarrow> [] | c # t \<Rightarrow> if P c then [([c], t, [])] else [])"

text \<open>A match is the text it consumed, the rest, and the groups, the latest first.\<close>

function rx_matches :: "rx \<Rightarrow> string \<Rightarrow> (string \<times> string \<times> captures) list" where
  "rx_matches (RLit l) s = (if take (length l) s = l then [(l, drop (length l) s, [])] else [])"
| "rx_matches RDot s = rx_char (\<lambda>c. c \<noteq> CHR 0x0A \<and> c \<noteq> CHR 0x0D) s"
| "rx_matches (RNot cs) s = rx_char (\<lambda>c. c \<notin> set cs) s"
| "rx_matches (ROneOf cs) s = rx_char (\<lambda>c. c \<in> set cs) s"
| "rx_matches (RSeq a b) s =
     concat (map (\<lambda>(x, t, k). map (\<lambda>(y, u, l). (x @ y, u, l @ k)) (rx_matches b t)) (rx_matches a s))"
| "rx_matches (ROpt a) s = filter (\<lambda>(x, t, k). x \<noteq> []) (rx_matches a s) @ [([], s, [])]"
| "rx_matches (RStar a) s =
     concat (map (\<lambda>(x, t, k). if length t < length s
                              then map (\<lambda>(y, u, l). (x @ y, u, l @ k)) (rx_matches (RStar a) t)
                              else []) (rx_matches a s)) @ [([], s, [])]"
| "rx_matches (RGroup n a) s = map (\<lambda>(x, t, k). (x, t, (n, x) # k)) (rx_matches a s)"
| "rx_matches (RAlt a b) s = rx_matches a s @ rx_matches b s"
  by pat_completeness auto
termination
  by (relation "measures [\<lambda>(r, s). size r, \<lambda>(r, s). length s]") auto

declare rx_matches.simps(7) [simp del]

text \<open>\<^verbatim>\<open>std::regex_match\<close>: the groups of the preferred match of the whole text.\<close>

definition rx_match :: "rx \<Rightarrow> string \<Rightarrow> captures option" where
  "rx_match r s = map_option (\<lambda>(x, t, k). k) (find (\<lambda>(x, t, k). t = []) (rx_matches r s))"

text \<open>\<^verbatim>\<open>mr[n].str()\<close>: empty for a group that did not take part.\<close>

definition group_str :: "captures \<Rightarrow> nat \<Rightarrow> string" where
  "group_str k n = (case map_of k n of None \<Rightarrow> [] | Some x \<Rightarrow> x)"

section \<open>Soundness of the matcher\<close>

text \<open>Every result splits the text, and groups hold parts of it.\<close>

lemma rx_char_split: "(x, t, k) \<in> set (rx_char P s) \<Longrightarrow> s = x @ t \<and> k = [] \<and> (\<exists>c. x = [c] \<and> P c)"
  by (auto simp: rx_char_def split: list.splits if_splits)

lemma rx_star_mem: "(z, u, m) \<in> set (rx_matches (RStar a) s) \<longleftrightarrow>
  (\<exists>x t k y l. (x, t, k) \<in> set (rx_matches a s) \<and> length t < length s \<and>
     (y, u, l) \<in> set (rx_matches (RStar a) t) \<and> z = x @ y \<and> m = l @ k) \<or>
  z = [] \<and> u = s \<and> m = []"
  by (subst rx_matches.simps) (force split: if_splits)

lemma rx_seq_mem: "(z, u, m) \<in> set (rx_matches (RSeq a b) s) \<longleftrightarrow>
  (\<exists>x t k y l. (x, t, k) \<in> set (rx_matches a s) \<and> (y, u, l) \<in> set (rx_matches b t) \<and>
     z = x @ y \<and> m = l @ k)"
  by force

lemma rx_matches_split: "(x, t, k) \<in> set (rx_matches r s) \<Longrightarrow> s = x @ t"
proof (induction r s arbitrary: x t k rule: rx_matches.induct)
  case (1 l s)
  then show ?case by (auto split: if_splits) (metis append_take_drop_id)
next
  case (5 a b s)
  obtain x1 t1 k1 y l where "(x1, t1, k1) \<in> set (rx_matches a s)"
    "(y, t, l) \<in> set (rx_matches b t1)" "x = x1 @ y"
    using "5.prems" unfolding rx_seq_mem by blast
  then show ?case using "5.IH"(1) "5.IH"(2) [OF _ refl refl] by fastforce
next
  case (7 a s)
  consider x1 t1 k1 y l where "(x1, t1, k1) \<in> set (rx_matches a s)" "length t1 < length s"
      "(y, t, l) \<in> set (rx_matches (RStar a) t1)" "x = x1 @ y"
    | "x = []" "t = s"
    using rx_star_mem [THEN iffD1, OF "7.prems"] by blast
  then show ?case using "7.IH"(1) "7.IH"(2) [OF _ refl refl] by cases fastforce+
qed (auto dest: rx_char_split)

text \<open>The language of an expression.\<close>

inductive rx_lang :: "rx \<Rightarrow> string \<Rightarrow> bool" where
  lit: "rx_lang (RLit l) l"
| dot: "c \<noteq> CHR 0x0A \<Longrightarrow> c \<noteq> CHR 0x0D \<Longrightarrow> rx_lang RDot [c]"
| nots: "c \<notin> set cs \<Longrightarrow> rx_lang (RNot cs) [c]"
| one: "c \<in> set cs \<Longrightarrow> rx_lang (ROneOf cs) [c]"
| seq: "rx_lang a x \<Longrightarrow> rx_lang b y \<Longrightarrow> rx_lang (RSeq a b) (x @ y)"
| none: "rx_lang (ROpt a) []"
| some: "rx_lang a x \<Longrightarrow> rx_lang (ROpt a) x"
| star_nil: "rx_lang (RStar a) []"
| star_cons: "rx_lang a x \<Longrightarrow> rx_lang (RStar a) y \<Longrightarrow> rx_lang (RStar a) (x @ y)"
| group: "rx_lang a x \<Longrightarrow> rx_lang (RGroup n a) x"
| left: "rx_lang a x \<Longrightarrow> rx_lang (RAlt a b) x"
| right: "rx_lang b x \<Longrightarrow> rx_lang (RAlt a b) x"

inductive_cases rx_langE [elim!]:
  "rx_lang (RLit l) x" "rx_lang RDot x" "rx_lang (RNot cs) x" "rx_lang (ROneOf cs) x"
  "rx_lang (RSeq a b) x" "rx_lang (RGroup n a) x" "rx_lang (RAlt a b) x"

lemma rx_matches_sound: "(x, t, k) \<in> set (rx_matches r s) \<Longrightarrow> rx_lang r x"
proof (induction r s arbitrary: x t k rule: rx_matches.induct)
  case (1 l s)
  then show ?case by (auto intro: rx_lang.intros split: if_splits)
next
  case (5 a b s)
  obtain x1 t1 k1 y l where "(x1, t1, k1) \<in> set (rx_matches a s)"
    "(y, t, l) \<in> set (rx_matches b t1)" "x = x1 @ y"
    using "5.prems" unfolding rx_seq_mem by blast
  then show ?case using "5.IH"(1) "5.IH"(2) [OF _ refl refl] by (blast intro: rx_lang.seq)
next
  case (7 a s)
  consider x1 t1 k1 y l where "(x1, t1, k1) \<in> set (rx_matches a s)" "length t1 < length s"
      "(y, t, l) \<in> set (rx_matches (RStar a) t1)" "x = x1 @ y"
    | "x = []" "t = s"
    using rx_star_mem [THEN iffD1, OF "7.prems"] by blast
  then show ?case using "7.IH"(1) "7.IH"(2) [OF _ refl refl]
    by cases (blast intro: rx_lang.intros)+
qed (auto dest!: rx_char_split intro: rx_lang.intros)

lemma rx_matches_complete: "rx_lang r x \<Longrightarrow> \<exists>k. (x, t, k) \<in> set (rx_matches r (x @ t))"
proof (induction arbitrary: t rule: rx_lang.induct)
  case (seq a x b y)
  obtain k where k: "(x, y @ t, k) \<in> set (rx_matches a (x @ (y @ t)))" using seq.IH(1) by blast
  obtain l where "(y, t, l) \<in> set (rx_matches b (y @ t))" using seq.IH(2) by blast
  with k show ?case unfolding rx_seq_mem by (metis append_assoc)
next
  case (some a x)
  then show ?case by (cases "x = []") auto
next
  case (star_cons a x y)
  show ?case
  proof (cases "x = []")
    case True
    then show ?thesis using star_cons.IH(2) [of t] by simp
  next
    case False
    obtain k where k: "(x, y @ t, k) \<in> set (rx_matches a (x @ (y @ t)))"
      using star_cons.IH(1) by blast
    obtain l where "(y, t, l) \<in> set (rx_matches (RStar a) (y @ t))" using star_cons.IH(2) by blast
    moreover have "length (y @ t) < length ((x @ y) @ t)" using False by simp
    ultimately have "(x @ y, t, l @ k) \<in> set (rx_matches (RStar a) ((x @ y) @ t))"
      using k by (intro rx_star_mem [THEN iffD2] disjI1 exI [of _ x] exI [of _ "y @ t"] exI [of _ k]
        exI [of _ y] exI [of _ l]) simp
    then show ?thesis ..
  qed
next
  case (star_nil a)
  show ?case by (intro exI [of _ "[]"] rx_star_mem [THEN iffD2] disjI2) simp
next
  case (group a x n)
  then obtain k where "(x, t, k) \<in> set (rx_matches a (x @ t))" by blast
  then show ?case by (intro exI [of _ "(n, x) # k"]) force
next
  case (left a x b)
  from left.IH [of t] show ?case by auto
next
  case (right b x a)
  from right.IH [of t] show ?case by auto
qed (auto simp: rx_char_def)

lemma rx_match_SomeD: "rx_match r s = Some k \<Longrightarrow> \<exists>x. (x, [], k) \<in> set (rx_matches r s)"
  by (auto simp: rx_match_def find_Some_iff) (metis nth_mem)

lemma rx_match_iff: "(\<exists>k. rx_match r s = Some k) \<longleftrightarrow> rx_lang r s"
proof
  assume "\<exists>k. rx_match r s = Some k"
  then obtain x k where "(x, [], k) \<in> set (rx_matches r s)" using rx_match_SomeD by blast
  then show "rx_lang r s" using rx_matches_sound rx_matches_split by fastforce
next
  assume "rx_lang r s"
  then obtain k where "(s, [], k) \<in> set (rx_matches r s)"
    using rx_matches_complete [of r s "[]"] by auto
  then show "\<exists>k. rx_match r s = Some k"
    by (cases "find (\<lambda>(x, t, k). t = []) (rx_matches r s)") (auto simp: rx_match_def find_None_iff)
qed

section \<open>Greedy repetition of a class of characters\<close>

text \<open>The preferred match of a repeated class takes every character of the class that follows.\<close>

lemma rx_star_greedy:
  assumes "\<And>u. rx_matches a u = rx_char P u" and "list_all P s" and "t = [] \<or> \<not> P (hd t)"
  shows "\<exists>ms. rx_matches (RStar a) (s @ t) = (s, t, []) # ms"
  using assms(2)
proof (induction s)
  case Nil
  then show ?case using assms(1,3) by (cases t) (subst rx_matches.simps, simp add: rx_char_def)+
next
  case (Cons c s)
  then obtain ms where "rx_matches (RStar a) (s @ t) = (s, t, []) # ms" by auto
  then show ?case using Cons.prems assms(1) by (subst rx_matches.simps) (simp add: rx_char_def)
qed

lemma rx_plus_greedy:
  assumes "\<And>u. rx_matches a u = rx_char P u" and "s \<noteq> []" and "list_all P s" and "t = [] \<or> \<not> P (hd t)"
  shows "\<exists>ms. rx_matches (RPlus a) (s @ t) = (s, t, []) # ms"
proof -
  obtain c u where s: "s = c # u" using assms(2) by (cases s) auto
  then obtain ms where "rx_matches (RStar a) (u @ t) = (u, t, []) # ms"
    using rx_star_greedy [OF assms(1) _ assms(4), of u] assms(3) by auto
  then show ?thesis using s assms(1,3) by (simp add: RPlus_def rx_char_def)
qed

lemma rx_match_first: "\<exists>ms. rx_matches r s = (x, [], k) # ms \<Longrightarrow> rx_match r s = Some k"
  by (auto simp: rx_match_def)

section \<open>The preferred match\<close>

text \<open>The first way a pattern matches, composed along the pattern.\<close>

definition rx_first :: "rx \<Rightarrow> string \<Rightarrow> string \<Rightarrow> string \<Rightarrow> captures \<Rightarrow> bool" where
  "rx_first r s x t k \<longleftrightarrow> (\<exists>ms. rx_matches r s = (x, t, k) # ms)"

named_theorems rx_firsts \<open>the preferred match of a pattern from those of its parts\<close>

lemma rx_first_lit [rx_firsts]: "rx_first (RLit l) (l @ t) l t []"
  by (simp add: rx_first_def)

lemma rx_first_one [rx_firsts]: "c \<in> set cs \<Longrightarrow> rx_first (ROneOf cs) (c # t) [c] t []"
  by (simp add: rx_first_def rx_char_def)

lemma rx_first_seq [rx_firsts]:
  "rx_first a s x t k \<Longrightarrow> rx_first b t y u l \<Longrightarrow> rx_first (RSeq a b) s (x @ y) u (l @ k)"
  by (auto simp: rx_first_def)

lemma rx_first_group [rx_firsts]: "rx_first a s x t k \<Longrightarrow> rx_first (RGroup n a) s x t ((n, x) # k)"
  by (auto simp: rx_first_def)

lemma rx_first_some [rx_firsts]: "rx_first a s x t k \<Longrightarrow> x \<noteq> [] \<Longrightarrow> rx_first (ROpt a) s x t k"
  by (auto simp: rx_first_def)

lemma rx_first_none: "rx_matches a s = [] \<Longrightarrow> rx_first (ROpt a) s [] s []"
  by (simp add: rx_first_def)

lemma rx_first_left [rx_firsts]: "rx_first a s x t k \<Longrightarrow> rx_first (RAlt a b) s x t k"
  by (auto simp: rx_first_def)

lemma rx_first_right: "rx_matches a s = [] \<Longrightarrow> rx_first b s x t k \<Longrightarrow> rx_first (RAlt a b) s x t k"
  by (auto simp: rx_first_def)

lemma rx_first_star:
  assumes "\<And>u. rx_matches a u = rx_char P u" and "list_all P s" and "t = [] \<or> \<not> P (hd t)"
  shows "rx_first (RStar a) (s @ t) s t []"
  unfolding rx_first_def by (rule rx_star_greedy [OF assms])

lemma rx_first_plus:
  assumes "\<And>u. rx_matches a u = rx_char P u" and "s \<noteq> []" and "list_all P s" and "t = [] \<or> \<not> P (hd t)"
  shows "rx_first (RPlus a) (s @ t) s t []"
  unfolding rx_first_def by (rule rx_plus_greedy [OF assms])

lemma rx_first_match: "rx_first r s x [] k \<Longrightarrow> rx_match r s = Some k"
  unfolding rx_first_def by (rule rx_match_first)

lemma rx_group_nil: "rx_matches a s = [] \<Longrightarrow> rx_matches (RGroup n a) s = []"
  and rx_seq_nil: "rx_matches a s = [] \<Longrightarrow> rx_matches (RSeq a b) s = []"
  by simp_all

text \<open>A class of characters, repeated.\<close>

lemma rx_first_nots:
  assumes "s \<noteq> []" and "set s \<inter> set cs = {}" and "t = [] \<or> hd t \<in> set cs"
  shows "rx_first (RPlus (RNot cs)) (s @ t) s t []"
  using assms by (intro rx_first_plus [where P = "\<lambda>c. c \<notin> set cs"]) (auto simp: list_all_iff)

lemma rx_first_nots_star:
  assumes "set s \<inter> set cs = {}" and "t = [] \<or> hd t \<in> set cs"
  shows "rx_first (RStar (RNot cs)) (s @ t) s t []"
  using assms by (intro rx_first_star [where P = "\<lambda>c. c \<notin> set cs"]) (auto simp: list_all_iff)

lemma rx_first_ones:
  assumes "s \<noteq> []" and "set s \<subseteq> set cs" and "t = [] \<or> hd t \<notin> set cs"
  shows "rx_first (RPlus (ROneOf cs)) (s @ t) s t []"
  using assms by (intro rx_first_plus [where P = "\<lambda>c. c \<in> set cs"]) (auto simp: list_all_iff)

lemma rx_first_ones_star:
  assumes "set s \<subseteq> set cs" and "t = [] \<or> hd t \<notin> set cs"
  shows "rx_first (RStar (ROneOf cs)) (s @ t) s t []"
  using assms by (intro rx_first_star [where P = "\<lambda>c. c \<in> set cs"]) (auto simp: list_all_iff)

lemma rx_first_dots:
  assumes "CHR 0x0A \<notin> set s" and "CHR 0x0D \<notin> set s"
  shows "rx_first (RStar RDot) s s [] []"
  using rx_first_star [of RDot "\<lambda>c. c \<noteq> CHR 0x0A \<and> c \<noteq> CHR 0x0D" s "[]"] assms
  by (fastforce simp: list_all_iff)

text \<open>The number of groups of an expression; \<^verbatim>\<open>match_results::size\<close> is one more.\<close>

fun rx_groups :: "rx \<Rightarrow> nat" where
  "rx_groups (RSeq a b) = rx_groups a + rx_groups b"
| "rx_groups (RAlt a b) = rx_groups a + rx_groups b"
| "rx_groups (ROpt a) = rx_groups a"
| "rx_groups (RStar a) = rx_groups a"
| "rx_groups (RGroup n a) = Suc (rx_groups a)"
| "rx_groups r = 0"

text \<open>A literal of a pattern compiled with \<^verbatim>\<open>icase\<close>: letters match in either case.\<close>

definition case_variants :: "char \<Rightarrow> char list" where
  "case_variants c = (let n = (of_char c :: nat) in
     if 97 \<le> n \<and> n \<le> 122 then [c, char_of (n - 32)]
     else if 65 \<le> n \<and> n \<le> 90 then [c, char_of (n + 32)] else [c])"

fun RLit_icase :: "string \<Rightarrow> rx" where
  "RLit_icase [] = RLit []"
| "RLit_icase (c # cs) = RSeq (ROneOf (case_variants c)) (RLit_icase cs)"

lemma rx_first_lit_icase:
  "list_all2 (\<lambda>c d. d \<in> set (case_variants c)) l x \<Longrightarrow> rx_first (RLit_icase l) (x @ t) x t []"
proof (induction l x rule: list_all2_induct)
  case Nil
  show ?case using rx_first_lit [of "[]" t] by simp
next
  case (Cons c l d x)
  then show ?case using rx_first_seq [OF rx_first_one [of d "case_variants c"] Cons.IH] by simp
qed

end
