(* ===== verification/Pichi_Buffer.thy ===== *)
theory Pichi_Buffer
  imports Pichi_Base
begin

text \<open>
  Buffers (\<^verbatim>\<open>include/pichi/common/buffer.hpp\<close>) and the conversion of integers to and from network
  byte order (\<^verbatim>\<open>include/pichi/common/endpoint.hpp\<close>). A \<^verbatim>\<open>Buffer\<close> is a \<^verbatim>\<open>std::span\<close>: the model keeps
  the bytes the span shows. Filling a buffer returns its new content.

  \<open>hton\<close> and \<open>ntoh\<close> reverse the bytes of the integer as the host stores them; the model is the one
  of a little-endian host, as every platform the project builds for is.
\<close>

section \<open>Buffer arithmetic\<close>

definition buffer_advance :: "bytes \<Rightarrow> nat \<Rightarrow> bytes" where
  "buffer_advance b n =
     (let moved = min n (length b);
          it = drop moved b;
          d = n - moved
      in take (if d = 0 then length b - n else 0) it)"

definition overwrite :: "bytes \<Rightarrow> bytes \<Rightarrow> bytes" where
  "overwrite bs buf = bs @ drop (length bs) buf"

section \<open>Network byte order\<close>

definition native_bytes16 :: "u16 \<Rightarrow> bytes" where
  "native_bytes16 w = [ucast w, ucast (drop_bit 8 w)]"

definition of_native_bytes16 :: "byte \<Rightarrow> byte \<Rightarrow> u16" where
  "of_native_bytes16 lo hi = ucast lo + push_bit 8 (ucast hi)"

definition hton16 :: "u16 \<Rightarrow> bytes" where
  "hton16 src = rev (native_bytes16 src)"

definition ntoh16 :: "bytes \<Rightarrow> u16 result" where
  "ntoh16 src = (case rev src of [lo, hi] \<Rightarrow> Inr (of_native_bytes16 lo hi) | _ \<Rightarrow> Inl UB)"

section \<open>Laws\<close>

lemma buffer_advance_eq: "buffer_advance b n = drop n b"
  by (cases "n \<le> length b") (simp_all add: buffer_advance_def Let_def min_def)

lemma buffer_advance_add: "buffer_advance (buffer_advance b m) n = buffer_advance b (m + n)"
  by (simp add: buffer_advance_eq add.commute)

lemma length_overwrite: "length bs \<le> length buf \<Longrightarrow> length (overwrite bs buf) = length buf"
  by (simp add: overwrite_def)

lemma take_overwrite [simp]: "take (length bs) (overwrite bs buf) = bs"
  by (simp add: overwrite_def)

lemma length_hton16 [simp]: "length (hton16 w) = 2"
  by (simp add: hton16_def native_bytes16_def)

lemma native_bytes16_inverse: "of_native_bytes16 (ucast w) (ucast (drop_bit 8 w)) = w"
  unfolding of_native_bytes16_def
  by (subst disjunctive_add)
     (auto simp: bit_simps intro!: bit_word_eqI)

lemma ntoh16_hton16 [simp]: "ntoh16 (hton16 w) = Inr w"
  by (simp add: ntoh16_def hton16_def native_bytes16_def native_bytes16_inverse)

lemma hton16_big_endian: "hton16 w = [ucast (drop_bit 8 w), ucast w]"
  by (simp add: hton16_def native_bytes16_def)

lemma unat_ntoh16: "ntoh16 [hi, lo] = Inr w \<Longrightarrow> unat w = unat hi * 256 + unat lo"
proof -
  assume "ntoh16 [hi, lo] = Inr w"
  then have w: "w = ucast lo + push_bit 8 (ucast hi)"
    by (simp add: ntoh16_def of_native_bytes16_def)
  have hi: "unat hi < 256" and lo: "unat lo < 256"
    using unsigned_less [of hi, where ?'a = nat] unsigned_less [of lo, where ?'a = nat] by simp_all
  have "unat (push_bit 8 (ucast hi) :: u16) = unat hi * 256"
    using hi by (simp add: push_bit_eq_mult unat_word_ariths unsigned_ucast_eq take_bit_eq_mod)
  moreover have "unat (ucast lo :: u16) = unat lo"
    using lo by (simp add: unsigned_ucast_eq take_bit_eq_mod)
  ultimately show ?thesis
    using hi lo w by (simp add: unat_word_ariths)
qed

lemma ntoh16_total: "length bs = 2 \<Longrightarrow> \<exists>w. ntoh16 bs = Inr w"
  by (auto simp: ntoh16_def numeral_2_eq_2 length_Suc_conv)

end
