(* ===== verification/Pichi_Endpoint.thy ===== *)
theory Pichi_Endpoint
  imports Pichi_Buffer
begin

text \<open>
  Endpoints (\<^verbatim>\<open>include/pichi/common/endpoint.hpp\<close>, \<^verbatim>\<open>src/common/endpoint.cpp\<close>): the SOCKS address
  format every proxy protocol of the program uses, the classification of a host name, and the
  construction of an endpoint from text.

  The address functions of Boost.Asio are a parameter: the record \<open>ip_lib\<close> holds the functions the
  sources call, and \<open>ip_laws\<close> states what their documentation promises (an address survives
  \<^verbatim>\<open>to_string\<close> followed by \<^verbatim>\<open>make_address\<close>, an address has 4 or 16 bytes). The function that fills a
  buffer from a stream is a parameter of \<open>parse_endpoint\<close>, as it is in the source; the locale
  \<open>byte_reader\<close> states its contract, and the lemmas about the parser are proved once, inside it.
\<close>

section \<open>The address library\<close>

datatype ip_address = V4 bytes | V6 bytes

type_synonym network = "bytes \<times> nat"

record ip_lib =
  make_address :: "string \<Rightarrow> ip_address option"
  make_address_v4 :: "string \<Rightarrow> bytes option"
  make_address_v6 :: "string \<Rightarrow> bytes option"
  v4_to_string :: "bytes \<Rightarrow> string"
  v6_to_string :: "bytes \<Rightarrow> string"
  make_network_v4 :: "string \<Rightarrow> network option"
  make_network_v6 :: "string \<Rightarrow> network option"
  hosts_find_v4 :: "network \<Rightarrow> bytes \<Rightarrow> bool"
  hosts_find_v6 :: "network \<Rightarrow> bytes \<Rightarrow> bool"

definition ip_laws :: "ip_lib \<Rightarrow> bool" where
  "ip_laws ip \<longleftrightarrow>
     (\<forall>s b. make_address ip s = Some (V4 b) \<longrightarrow> make_address_v4 ip s = Some b) \<and>
     (\<forall>s b. make_address ip s = Some (V6 b) \<longrightarrow> make_address_v6 ip s = Some b) \<and>
     (\<forall>s b. make_address_v4 ip s = Some b \<longrightarrow> length b = 4) \<and>
     (\<forall>s b. make_address_v6 ip s = Some b \<longrightarrow> length b = 16) \<and>
     (\<forall>b. length b = 4 \<longrightarrow> make_address ip (v4_to_string ip b) = Some (V4 b)) \<and>
     (\<forall>b. length b = 16 \<longrightarrow> make_address ip (v6_to_string ip b) = Some (V6 b)) \<and>
     make_address ip [] = None"

section \<open>Endpoints\<close>

record Endpoint =
  ep_type :: EndpointType
  ep_host :: string
  ep_port :: u16

definition endpoint_eq :: "Endpoint \<Rightarrow> Endpoint \<Rightarrow> bool" where
  "endpoint_eq l r \<longleftrightarrow> ep_type l = ep_type r \<and> ep_host l = ep_host r \<and> ep_port l = ep_port r"

definition ip2Bytes_v4 :: "ip_lib \<Rightarrow> string \<Rightarrow> bytes result" where
  "ip2Bytes_v4 ip s = (case make_address_v4 ip s of
     None \<Rightarrow> Inl (SystemError (Asio_code asio_invalid_argument) '''') | Some b \<Rightarrow> Inr b)"

definition ip2Bytes_v6 :: "ip_lib \<Rightarrow> string \<Rightarrow> bytes result" where
  "ip2Bytes_v6 ip s = (case make_address_v6 ip s of
     None \<Rightarrow> Inl (SystemError (Asio_code asio_invalid_argument) '''') | Some b \<Rightarrow> Inr b)"

definition bytes2Ip_v4 :: "ip_lib \<Rightarrow> bytes \<Rightarrow> string" where
  "bytes2Ip_v4 ip buf = v4_to_string ip (take 4 buf)"

definition bytes2Ip_v6 :: "ip_lib \<Rightarrow> bytes \<Rightarrow> string" where
  "bytes2Ip_v6 ip buf = v6_to_string ip (take 16 buf)"

text \<open>
  The address part of the message, up to the port: the branch of the \<^verbatim>\<open>switch\<close> for each type with
  its capacity check on the target.
\<close>

fun serialize_address :: "ip_lib \<Rightarrow> EndpointType \<Rightarrow> string \<Rightarrow> nat \<Rightarrow> bytes result" where
  "serialize_address ip DOMAIN_NAME host cap =
     rthen (assertTrue (length host \<le> 0xff) MISC '''')
    (rthen (assertTrue (4 + length host \<le> cap) MISC '''')
    (Inr ([0x03, of_nat (length host)] @ bytes_of host)))"
| "serialize_address ip IPV4 host cap =
     rthen (assertTrue (7 \<le> cap) MISC '''')
    (rbind (ip2Bytes_v4 ip host) (\<lambda>b. Inr ([0x01] @ b)))"
| "serialize_address ip IPV6 host cap =
     rthen (assertTrue (19 \<le> cap) MISC '''')
    (rbind (ip2Bytes_v6 ip host) (\<lambda>b. Inr ([0x04] @ b)))"

text \<open>\<open>serializeEndpoint\<close> returns the number of bytes written and the target with them in place.\<close>

definition serializeEndpoint :: "ip_lib \<Rightarrow> Endpoint \<Rightarrow> bytes \<Rightarrow> (nat \<times> bytes) result" where
  "serializeEndpoint ip ep target =
     rthen (assertFalse (ep_host ep = []) MISC '''')
    (rbind (serialize_address ip (ep_type ep) (ep_host ep) (length target)) (\<lambda>addr.
       let out = addr @ hton16 (ep_port ep)
       in Inr (length out, overwrite out target)))"

text \<open>
  The parser reads through \<open>read\<close>, which fills the first \<open>n\<close> bytes of the local 512-byte array.
\<close>

type_synonym 's reader = "nat \<Rightarrow> ('s, bytes) io"

definition parseEndpoint :: "ip_lib \<Rightarrow> 's reader \<Rightarrow> ('s, Endpoint) io" where
  "parseEndpoint ip read =
     iobind (read 1) (\<lambda>b1.
       let buf = overwrite b1 (replicate 512 0) in
       if buf ! 0 = 0x01 then
         iobind (read (4 + 2)) (\<lambda>b2.
           let buf = overwrite b2 buf in
           ioret (rbind (ntoh16 (take 2 (drop 4 buf))) (\<lambda>port.
             Inr \<lparr>ep_type = IPV4, ep_host = bytes2Ip_v4 ip buf, ep_port = port\<rparr>)))
       else if buf ! 0 = 0x03 then
         iobind (read 1) (\<lambda>b2.
           let buf = overwrite b2 buf; len = unat (buf ! 0) in
           iobind (ioret (assertTrue (0 < len) BAD_PROTO '''')) (\<lambda>_.
             iobind (read (len + 2)) (\<lambda>b3.
               let buf = overwrite b3 buf in
               ioret (rbind (ntoh16 (take 2 (drop len buf))) (\<lambda>port.
                 Inr \<lparr>ep_type = DOMAIN_NAME, ep_host = string_of (take len buf),
                      ep_port = port\<rparr>)))))
       else if buf ! 0 = 0x04 then
         iobind (read (16 + 2)) (\<lambda>b2.
           let buf = overwrite b2 buf in
           ioret (rbind (ntoh16 (take 2 (drop 16 buf))) (\<lambda>port.
             Inr \<lparr>ep_type = IPV6, ep_host = bytes2Ip_v6 ip buf, ep_port = port\<rparr>)))
       else ioret (fail_with BAD_PROTO ''''))"

text \<open>\<open>parse_endpoint\<close> is the coroutine with the same statements over an awaitable \<open>read\<close>.\<close>

definition parse_endpoint :: "ip_lib \<Rightarrow> 's reader \<Rightarrow> ('s, Endpoint) io" where
  "parse_endpoint ip read = parseEndpoint ip read"

lemma parse_endpoint_keeps [keeping]: "(\<And>n. keeps P (read n)) \<Longrightarrow> keeps P (parse_endpoint ip read)"
  unfolding parse_endpoint_def parseEndpoint_def Let_def by (intro keeping)

definition detectHostType :: "ip_lib \<Rightarrow> string \<Rightarrow> EndpointType result" where
  "detectHostType ip host =
     rthen (assertFalse (host = []) MISC '''')
    (Inr (case make_address ip host of
            None \<Rightarrow> DOMAIN_NAME
          | Some (V4 _) \<Rightarrow> IPV4
          | Some (V6 _) \<Rightarrow> IPV6))"

definition makeEndpoint :: "ip_lib \<Rightarrow> string \<Rightarrow> u16 \<Rightarrow> Endpoint result" where
  "makeEndpoint ip host port =
     rbind (detectHostType ip host) (\<lambda>t. Inr \<lparr>ep_type = t, ep_host = host, ep_port = port\<rparr>)"

text \<open>
  \<^verbatim>\<open>std::from_chars\<close> for \<^verbatim>\<open>int\<close>: an optional minus sign and at least one decimal digit; the value and
  what follows the number, or nothing when there is no number or it does not fit 32 bits.
\<close>

definition is_digit :: "char \<Rightarrow> bool" where
  "is_digit c \<longleftrightarrow> 48 \<le> (of_char c :: nat) \<and> (of_char c :: nat) \<le> 57"

definition digits_value :: "string \<Rightarrow> nat" where
  "digits_value ds = foldl (\<lambda>v c. 10 * v + (of_char c - 48)) 0 ds"

definition from_chars :: "string \<Rightarrow> (int \<times> string) option" where
  "from_chars s =
     (let neg = (case s of [] \<Rightarrow> False | c # _ \<Rightarrow> c = CHR ''-'');
          t = (if neg then tl s else s);
          ds = takeWhile is_digit t;
          v = (if neg then - int (digits_value ds) else int (digits_value ds))
      in if ds = [] \<or> v < - (2 ^ 31) \<or> 2 ^ 31 \<le> v then None
         else Some (v, dropWhile is_digit t))"

definition makeEndpoint_str :: "ip_lib \<Rightarrow> string \<Rightarrow> string \<Rightarrow> Endpoint result" where
  "makeEndpoint_str ip host port =
     (case from_chars port of
        None \<Rightarrow> fail_misc ''''
      | Some (p, rest) \<Rightarrow>
          rthen (assertTrue (rest = []) MISC '''')
         (rthen (assertTrue (0 \<le> p) MISC '''')
         (rthen (assertTrue (p \<le> 65535) MISC '''')
         (rbind (detectHostType ip host) (\<lambda>t.
            Inr \<lparr>ep_type = t, ep_host = host, ep_port = of_int p\<rparr>)))))"

text \<open>\<^verbatim>\<open>std::to_string\<close> of an unsigned number.\<close>

fun to_string_nat :: "nat \<Rightarrow> string" where
  "to_string_nat n = (if n < 10 then [char_of (48 + n)]
     else to_string_nat (n div 10) @ [char_of (48 + n mod 10)])"

declare to_string_nat.simps [simp del]

section \<open>Serialisation\<close>

text \<open>What a peer reads back: numeric hosts in the library's canonical spelling.\<close>

definition canonical_host :: "ip_lib \<Rightarrow> Endpoint \<Rightarrow> string" where
  "canonical_host ip ep =
     (case ep_type ep of
        DOMAIN_NAME \<Rightarrow> ep_host ep
      | IPV4 \<Rightarrow> (case make_address_v4 ip (ep_host ep) of
                   None \<Rightarrow> ep_host ep | Some b \<Rightarrow> v4_to_string ip b)
      | IPV6 \<Rightarrow> (case make_address_v6 ip (ep_host ep) of
                   None \<Rightarrow> ep_host ep | Some b \<Rightarrow> v6_to_string ip b))"

definition canonical :: "ip_lib \<Rightarrow> Endpoint \<Rightarrow> Endpoint" where
  "canonical ip ep = ep\<lparr>ep_host := canonical_host ip ep\<rparr>"

lemma endpoint_eq_iff: "endpoint_eq l r \<longleftrightarrow> l = r"
  by (cases l; cases r) (simp add: endpoint_eq_def)

lemma ip_laws_length:
  assumes "ip_laws ip"
  shows "ip2Bytes_v4 ip h = Inr b \<Longrightarrow> length b = 4"
    and "ip2Bytes_v6 ip h = Inr b \<Longrightarrow> length b = 16"
  using assms by (auto simp: ip_laws_def ip2Bytes_v4_def ip2Bytes_v6_def split: option.splits)

lemma serializeEndpoint_bytes:
  "serializeEndpoint ip ep target = Inr (n, buf) \<longleftrightarrow>
     ep_host ep \<noteq> [] \<and>
     (\<exists>addr. serialize_address ip (ep_type ep) (ep_host ep) (length target) = Inr addr \<and>
        n = length addr + 2 \<and> buf = overwrite (addr @ hton16 (ep_port ep)) target)"
  by (auto simp: serializeEndpoint_def result_simps Let_def)

lemma serialize_address_length:
  assumes "ip_laws ip" and "serialize_address ip t h cap = Inr addr" and "h \<noteq> []"
  shows "length addr + 2 \<le> cap" and "length addr \<le> 257" and "3 \<le> length addr"
  using assms by (cases t; auto simp: result_simps dest: ip_laws_length; cases h; auto)+

text \<open>The bytes of an endpoint as a message, independent of the target buffer.\<close>

definition endpoint_bytes :: "ip_lib \<Rightarrow> Endpoint \<Rightarrow> bytes result" where
  "endpoint_bytes ip ep =
     rthen (assertFalse (ep_host ep = []) MISC '''')
    (rbind (serialize_address ip (ep_type ep) (ep_host ep) 259) (\<lambda>addr.
       Inr (addr @ hton16 (ep_port ep))))"

lemma serialize_address_cap:
  assumes "259 \<le> cap" shows "serialize_address ip t h cap = serialize_address ip t h 259"
  using assms by (cases t) (auto simp: assertTrue_def fail_with_def)

text \<open>A target of 259 bytes is enough for every endpoint.\<close>

lemma serializeEndpoint_eq_bytes:
  assumes "259 \<le> length target"
  shows "serializeEndpoint ip ep target =
    rbind (endpoint_bytes ip ep) (\<lambda>bs. Inr (length bs, overwrite bs target))"
  by (simp add: serializeEndpoint_def endpoint_bytes_def rbind_assoc serialize_address_cap [OF assms]
      Let_def assertFalse_def assertTrue_def)

section \<open>The reader's contract\<close>

text \<open>
  \<open>content s\<close> is what is still to come on the stream, \<open>frame s\<close> is the part of the state a read
  never touches (what has been written so far). A read of \<open>n\<close> bytes delivers the next \<open>n\<close> bytes
  when they come; a \<open>byte_reader\<close> also throws when the stream ends before.
\<close>

locale byte_source =
  fixes read :: "'s reader"
    and content :: "'s \<Rightarrow> bytes"
    and frame :: "'s \<Rightarrow> 'f"
    and inv :: "'s \<Rightarrow> bool"
  assumes read_enough: "inv s \<Longrightarrow> n \<le> length (content s) \<Longrightarrow>
      \<exists>s'. read n s = (Inr (take n (content s)), s') \<and> content s' = drop n (content s) \<and>
           frame s' = frame s \<and> inv s'"
begin

lemma read_append:
  assumes "inv s" and "content s = bs @ rest" and "n = length bs"
  shows "\<exists>s'. read n s = (Inr bs, s') \<and> content s' = rest \<and> frame s' = frame s \<and> inv s'"
  using read_enough [of s n] assms by auto

text \<open>A step of the parser: after the bytes it asks for, the continuation runs on the rest.\<close>

lemma bind_read:
  assumes "inv s" and "content s = bs @ rest" and "n = length bs"
    and "\<And>s'. content s' = rest \<Longrightarrow> frame s' = frame s \<Longrightarrow> inv s' \<Longrightarrow> P (f bs s')"
  shows "P (iobind (read n) f s)"
proof -
  obtain s' where "read n s = (Inr bs, s')" "content s' = rest" "frame s' = frame s" "inv s'"
    using read_append [OF assms(1-3)] by blast
  with assms(4) show ?thesis by simp
qed

lemma parse_ipv4:
  assumes "inv s" and "content s = [0x01] @ b @ hton16 p @ rest" and "length b = 4"
  shows "\<exists>s'. parseEndpoint ip read s =
      (Inr \<lparr>ep_type = IPV4, ep_host = v4_to_string ip b, ep_port = p\<rparr>, s') \<and>
    content s' = rest \<and> frame s' = frame s \<and> inv s'"
  unfolding parseEndpoint_def
  by (rule bind_read [OF assms(1,2)], simp, simp add: overwrite_def Let_def,
      rule bind_read [where bs = "b @ hton16 p" and rest = rest])
     (auto simp: assms(3) overwrite_def bytes2Ip_v4_def)

lemma parse_ipv6:
  assumes "inv s" and "content s = [0x04] @ b @ hton16 p @ rest" and "length b = 16"
  shows "\<exists>s'. parseEndpoint ip read s =
      (Inr \<lparr>ep_type = IPV6, ep_host = v6_to_string ip b, ep_port = p\<rparr>, s') \<and>
    content s' = rest \<and> frame s' = frame s \<and> inv s'"
  unfolding parseEndpoint_def
  by (rule bind_read [OF assms(1,2)], simp, simp add: overwrite_def Let_def,
      rule bind_read [where bs = "b @ hton16 p" and rest = rest])
     (auto simp: assms(3) overwrite_def bytes2Ip_v6_def)

lemma parse_domain:
  assumes "inv s" and "content s = [0x03, of_nat (length h)] @ bytes_of h @ hton16 p @ rest"
    and "h \<noteq> []" and "length h \<le> 255"
  shows "\<exists>s'. parseEndpoint ip read s =
      (Inr \<lparr>ep_type = DOMAIN_NAME, ep_host = h, ep_port = p\<rparr>, s') \<and>
    content s' = rest \<and> frame s' = frame s \<and> inv s'"
proof -
  have len: "unat (of_nat (length h) :: byte) = length h"
    using assms(4) by (simp add: unat_of_nat)
  have pos: "0 < length h" using assms(3) by simp
  obtain s1 where r1: "read 1 s = (Inr [0x03], s1)" and
      c1: "content s1 = [of_nat (length h)] @ bytes_of h @ hton16 p @ rest"
      and i1: "frame s1 = frame s" "inv s1"
    using read_append [OF assms(1), of "[0x03]" _ 1] assms(2) by auto
  obtain s2 where r2: "read 1 s1 = (Inr [of_nat (length h)], s2)" and
      c2: "content s2 = (bytes_of h @ hton16 p) @ rest" and i2: "frame s2 = frame s" "inv s2"
    using read_append [OF i1(2) c1] i1(1) by auto
  obtain s3 where r3: "read (length h + 2) s2 = (Inr (bytes_of h @ hton16 p), s3)" and
      c3: "content s3 = rest" and i3: "frame s3 = frame s" "inv s3"
    using read_append [OF i2(2) c2, of "length h + 2"] i2(1) by auto
  have "parseEndpoint ip read s =
      (Inr \<lparr>ep_type = DOMAIN_NAME, ep_host = h, ep_port = p\<rparr>, s3)"
    using r1 r2 r3 len pos by (simp add: parseEndpoint_def overwrite_def Let_def)
  with c3 i3 show ?thesis by blast
qed

lemma parse_bad_type:
  assumes "inv s" and "content s = t # rest" and "t \<notin> {0x01, 0x03, 0x04}"
  shows "\<exists>s'. parseEndpoint ip read s = (fail_with BAD_PROTO '''', s') \<and> content s' = rest"
  unfolding parseEndpoint_def
  by (rule bind_read [OF assms(1), where bs = "[t]" and rest = rest])
     (use assms in \<open>auto simp: overwrite_def\<close>)

text \<open>What the other side serialised is read back, and nothing behind it is consumed.\<close>

lemma parse_serialized:
  assumes "inv s" and "ip_laws ip" and "endpoint_bytes ip ep = Inr bs" and "content s = bs @ rest"
  shows "\<exists>s'. parseEndpoint ip read s = (Inr (canonical ip ep), s') \<and>
    content s' = rest \<and> frame s' = frame s \<and> inv s'"
proof -
  obtain addr where h: "ep_host ep \<noteq> []" and bs: "bs = addr @ hton16 (ep_port ep)"
    and addr: "serialize_address ip (ep_type ep) (ep_host ep) 259 = Inr addr"
    using assms(3) by (auto simp: endpoint_bytes_def result_simps)
  show ?thesis
  proof (cases "ep_type ep")
    case DOMAIN_NAME
    then have a: "addr = [0x03, of_nat (length (ep_host ep))] @ bytes_of (ep_host ep)"
      and l: "length (ep_host ep) \<le> 255"
      using addr by (auto simp: result_simps)
    have "canonical ip ep =
        \<lparr>ep_type = DOMAIN_NAME, ep_host = ep_host ep, ep_port = ep_port ep\<rparr>"
      using DOMAIN_NAME by (simp add: canonical_def canonical_host_def)
    then show ?thesis using parse_domain [OF assms(1) _ h l] assms(4) bs a by simp
  next
    case IPV4
    then obtain b where b: "make_address_v4 ip (ep_host ep) = Some b" and a: "addr = [0x01] @ b"
      using addr by (auto simp: result_simps ip2Bytes_v4_def split: option.splits)
    have "length b = 4" using assms(2) b by (auto simp: ip_laws_def)
    moreover have "canonical ip ep =
        \<lparr>ep_type = IPV4, ep_host = v4_to_string ip b, ep_port = ep_port ep\<rparr>"
      using IPV4 b by (simp add: canonical_def canonical_host_def)
    ultimately show ?thesis using parse_ipv4 [OF assms(1), of b] assms(4) bs a by simp
  next
    case IPV6
    then obtain b where b: "make_address_v6 ip (ep_host ep) = Some b" and a: "addr = [0x04] @ b"
      using addr by (auto simp: result_simps ip2Bytes_v6_def split: option.splits)
    have "length b = 16" using assms(2) b by (auto simp: ip_laws_def)
    moreover have "canonical ip ep =
        \<lparr>ep_type = IPV6, ep_host = v6_to_string ip b, ep_port = ep_port ep\<rparr>"
      using IPV6 b by (simp add: canonical_def canonical_host_def)
    ultimately show ?thesis using parse_ipv6 [OF assms(1), of b] assms(4) bs a by simp
  qed
qed

end

text \<open>A source that also says when it ends.\<close>

locale byte_reader = byte_source +
  assumes read_short: "inv s \<Longrightarrow> length (content s) < n \<Longrightarrow>
      \<exists>ec msg s'. read n s = (Inl (SystemError ec msg), s') \<and> frame s' = frame s"
begin

lemma read_Inr:
  assumes "inv s" and "read n s = (Inr bs, s')"
  shows "n \<le> length (content s)" and "bs = take n (content s)"
    and "content s' = drop n (content s)" and "frame s' = frame s" and "inv s'"
proof -
  show n: "n \<le> length (content s)"
  proof (rule ccontr)
    assume "\<not> n \<le> length (content s)"
    then show False using read_short [of s n] assms by auto
  qed
  show "bs = take n (content s)" "content s' = drop n (content s)" "frame s' = frame s" "inv s'"
    using read_enough [OF assms(1) n] assms(2) by auto
qed

end

end
