(* ===== verification/Pichi_Samples.thy ===== *)
theory Pichi_Samples
  imports Pichi_Endpoint
begin

text \<open>
  A concrete address library, for the statements that are evaluated: IPv4 addresses in dotted
  decimal notation, IPv6 addresses as eight groups of four hexadecimal digits. It satisfies
  \<open>ip_laws\<close>, so that what is proved under those laws applies to it. A network is a list of leading
  bytes with its length in bits.
\<close>

section \<open>IPv4\<close>

definition sample_v4_to_string :: "bytes \<Rightarrow> string" where
  "sample_v4_to_string b = join_labels (map (\<lambda>x. to_string_nat (unat x)) b)"

definition sample_v4_decode :: "string \<Rightarrow> bytes" where
  "sample_v4_decode s = map (\<lambda>l. of_nat (digits_value l)) (labels s)"

definition sample_make_v4 :: "string \<Rightarrow> bytes option" where
  "sample_make_v4 s =
     (let b = sample_v4_decode s
      in if length b = 4 \<and> sample_v4_to_string b = s then Some b else None)"

section \<open>IPv6\<close>

definition hex_digit :: "nat \<Rightarrow> char" where
  "hex_digit n = ''0123456789abcdef'' ! (n mod 16)"

definition hex_value :: "char \<Rightarrow> nat" where
  "hex_value c = length (takeWhile (\<lambda>d. d \<noteq> c) ''0123456789abcdef'')"

definition hex_byte :: "byte \<Rightarrow> string" where
  "hex_byte b = [hex_digit (unat b div 16), hex_digit (unat b mod 16)]"

fun hex_groups :: "bytes \<Rightarrow> string" where
  "hex_groups (x # y # b) = hex_byte x @ hex_byte y @ (if b = [] then [] else CHR '':'' # hex_groups b)"
| "hex_groups b = concat (map hex_byte b)"

fun hex_bytes :: "string \<Rightarrow> bytes" where
  "hex_bytes (c # d # s) = of_nat (16 * hex_value c + hex_value d) # hex_bytes s"
| "hex_bytes _ = []"

definition sample_v6_decode :: "string \<Rightarrow> bytes" where
  "sample_v6_decode s = hex_bytes (filter (\<lambda>c. c \<noteq> CHR '':'') s)"

definition sample_make_v6 :: "string \<Rightarrow> bytes option" where
  "sample_make_v6 s =
     (let b = sample_v6_decode s
      in if length b = 16 \<and> hex_groups b = s then Some b else None)"

section \<open>The library\<close>

definition sample_make_address :: "string \<Rightarrow> ip_address option" where
  "sample_make_address s =
     (case sample_make_v6 s of
        Some b \<Rightarrow> Some (V6 b)
      | None \<Rightarrow> map_option V4 (sample_make_v4 s))"

definition prefix_bytes :: "string \<Rightarrow> bytes" where
  "prefix_bytes s = map (\<lambda>l. of_nat (digits_value l)) (labels s)"

definition sample_network_v4 :: "string \<Rightarrow> network option" where
  "sample_network_v4 s =
     (if list_all (\<lambda>c. is_digit c \<or> c = CHR ''.'') s then Some (prefix_bytes s, 8 * length (prefix_bytes s))
      else None)"

definition sample_hosts_find :: "network \<Rightarrow> bytes \<Rightarrow> bool" where
  "sample_hosts_find net b = (take (snd net div 8) b = fst net)"

definition sample_ip :: ip_lib where
  "sample_ip = \<lparr>make_address = sample_make_address, make_address_v4 = sample_make_v4,
     make_address_v6 = sample_make_v6, v4_to_string = sample_v4_to_string,
     v6_to_string = hex_groups, make_network_v4 = sample_network_v4,
     make_network_v6 = (\<lambda>_. None), hosts_find_v4 = sample_hosts_find,
     hosts_find_v6 = sample_hosts_find\<rparr>"

lemma sample_ip_simps [simp]:
  "make_address sample_ip = sample_make_address" "make_address_v4 sample_ip = sample_make_v4"
  "make_address_v6 sample_ip = sample_make_v6" "v4_to_string sample_ip = sample_v4_to_string"
  "v6_to_string sample_ip = hex_groups" "make_network_v4 sample_ip = sample_network_v4"
  "make_network_v6 sample_ip s = None" "hosts_find_v4 sample_ip = sample_hosts_find"
  "hosts_find_v6 sample_ip = sample_hosts_find"
  by (simp_all add: sample_ip_def)

section \<open>It satisfies the laws\<close>

lemma digits_value_snoc: "digits_value (ds @ [c]) = 10 * digits_value ds + (of_char c - 48)"
  by (simp add: digits_value_def)

lemma digit_char: "n < 10 \<Longrightarrow> (of_char (char_of (48 + n) :: char) :: nat) = 48 + n"
  by (simp add: of_char_of)

lemma to_string_nat_value: "digits_value (to_string_nat n) = n"
proof (induction n rule: to_string_nat.induct)
  case (1 n)
  then show ?case
    by (subst to_string_nat.simps)
       (auto simp: digits_value_snoc digit_char, simp add: digits_value_def digit_char)
qed

lemma to_string_nat_digits: "c \<in> set (to_string_nat n) \<Longrightarrow> is_digit c"
proof (induction n rule: to_string_nat.induct)
  case (1 n)
  then show ?case
    by (subst (asm) to_string_nat.simps)
       (auto simp: is_digit_def digit_char split: if_splits)
qed

lemma to_string_nat_nonempty [simp]: "to_string_nat n \<noteq> []"
  by (subst to_string_nat.simps) simp

lemma labels_single: "CHR ''.'' \<notin> set l \<Longrightarrow> labels l = [l]"
  by (induction l) auto

lemma labels_join: "ls \<noteq> [] \<Longrightarrow> \<forall>l \<in> set ls. CHR ''.'' \<notin> set l \<Longrightarrow> labels (join_labels ls) = ls"
  by (induction ls rule: join_labels.induct) (auto simp: labels_single labels_append_dot)

lemma dot_not_digit: "\<not> is_digit CHR ''.''" "\<not> is_digit CHR '':''"
  by (simp_all add: is_digit_def)

lemma sample_v4_decode_inverse: "b \<noteq> [] \<Longrightarrow> sample_v4_decode (sample_v4_to_string b) = b"
proof -
  assume "b \<noteq> []"
  then have "labels (sample_v4_to_string b) = map (\<lambda>x. to_string_nat (unat x)) b"
    unfolding sample_v4_to_string_def
    by (intro labels_join) (auto dest!: to_string_nat_digits simp: dot_not_digit)
  then show ?thesis
    by (simp add: sample_v4_decode_def to_string_nat_value comp_def)
qed

lemma join_labels_set: "set (join_labels ls) \<subseteq> insert CHR ''.'' (\<Union> (set ` set ls))"
  by (induction ls rule: join_labels.induct) auto

lemma v4_no_colon: "CHR '':'' \<notin> set (sample_v4_to_string b)"
  using join_labels_set [of "map (\<lambda>x. to_string_nat (unat x)) b"]
  by (auto simp: sample_v4_to_string_def dest!: to_string_nat_digits simp: dot_not_digit)

lemma hex_value_digit: "n < 16 \<Longrightarrow> hex_value (hex_digit n) = n"
proof -
  have "list_all (\<lambda>n. hex_value (hex_digit n) = n) [0..<16]" by code_simp
  then show "n < 16 \<Longrightarrow> ?thesis" by (auto simp: list_all_iff)
qed

lemma hex_digit_colon: "hex_digit n \<noteq> CHR '':''"
proof -
  have "n mod 16 < length ''0123456789abcdef''" by simp
  then have "hex_digit n \<in> set ''0123456789abcdef''" unfolding hex_digit_def by (rule nth_mem)
  then show ?thesis by auto
qed

lemma hex_byte_decode: "hex_bytes (hex_byte b @ s) = b # hex_bytes s"
proof -
  have "unat b < 2 ^ LENGTH(8)" by (rule unsigned_less)
  then have "unat b div 16 < 16" by simp
  then have "hex_value (hex_digit (unat b div 16)) = unat b div 16"
    "hex_value (hex_digit (unat b mod 16)) = unat b mod 16"
    by (simp_all add: hex_value_digit)
  moreover have "of_nat (16 * (unat b div 16) + unat b mod 16) = b"
    by (simp only: mult_div_mod_eq) simp
  ultimately show ?thesis by (simp add: hex_byte_def del: of_nat_add of_nat_mult)
qed

lemma filter_hex_byte: "filter (\<lambda>c. c \<noteq> CHR '':'') (hex_byte b) = hex_byte b"
  by (simp add: hex_byte_def hex_digit_colon)

lemma v6_decode_inverse: "sample_v6_decode (hex_groups b) = b"
proof (induction b rule: hex_groups.induct)
  case (1 x y b)
  then show ?case
    using hex_byte_decode [of y "[]"]
    by (cases "b = []") (auto simp: sample_v6_decode_def filter_hex_byte hex_byte_decode)
qed (simp_all add: sample_v6_decode_def filter_hex_byte hex_byte_decode [of _ "[]", simplified])

lemma v6_has_colon: "length b = 16 \<Longrightarrow> CHR '':'' \<in> set (hex_groups b)"
  by (cases b rule: hex_groups.cases) auto

lemma sample_make_v6_print: "length b = 16 \<Longrightarrow> sample_make_v6 (hex_groups b) = Some b"
  by (simp add: sample_make_v6_def v6_decode_inverse)

lemma sample_make_v4_print: "length b = 4 \<Longrightarrow> sample_make_v4 (sample_v4_to_string b) = Some b"
  by (cases b) (simp_all add: sample_make_v4_def sample_v4_decode_inverse)

lemma sample_v4_not_v6: "sample_make_v6 (sample_v4_to_string b) = None"
  using v4_no_colon [of b] v6_has_colon by (force simp: sample_make_v6_def Let_def)

lemma sample_ip_laws: "ip_laws sample_ip"
  unfolding ip_laws_def sample_ip_simps
proof (intro conjI allI impI)
  fix s b
  show "sample_make_address s = Some (V4 b) \<Longrightarrow> sample_make_v4 s = Some b"
    "sample_make_address s = Some (V6 b) \<Longrightarrow> sample_make_v6 s = Some b"
    by (auto simp: sample_make_address_def split: option.splits)
  show "sample_make_v4 s = Some b \<Longrightarrow> length b = 4" "sample_make_v6 s = Some b \<Longrightarrow> length b = 16"
    by (auto simp: sample_make_v4_def sample_make_v6_def Let_def split: if_splits)
next
  fix b :: bytes
  show "length b = 4 \<Longrightarrow> sample_make_address (sample_v4_to_string b) = Some (V4 b)"
    by (simp add: sample_make_address_def sample_v4_not_v6 sample_make_v4_print)
  show "length b = 16 \<Longrightarrow> sample_make_address (hex_groups b) = Some (V6 b)"
    by (simp add: sample_make_address_def sample_make_v6_print)
next
  show "sample_make_address [] = None" by code_simp
qed

text \<open>A destination the witnesses connect to.\<close>

definition sample_remote :: Endpoint where
  "sample_remote = \<lparr>ep_type = DOMAIN_NAME, ep_host = ''example.com'', ep_port = 443\<rparr>"

lemma sample_remote_made: "makeEndpoint sample_ip (ep_host sample_remote) (ep_port sample_remote) = Inr sample_remote"
proof -
  have "sample_make_address ''example.com'' = None"
    by (simp add: sample_make_address_def sample_make_v6_def sample_make_v4_def sample_v4_decode_def
        sample_v6_decode_def Let_def)
  then show ?thesis by (simp add: makeEndpoint_def detectHostType_def sample_remote_def)
qed

end
