(* ===== verification/Pichi_Uri.thy ===== *)
theory Pichi_Uri
  imports Pichi_Regex Pichi_Samples
begin

text \<open>
  URIs and host/port pairs (\<^verbatim>\<open>include/pichi/common/uri.hpp\<close>, \<^verbatim>\<open>src/common/uri.cpp\<close>): the two fixed patterns
  and the constructors that pick the groups of a match. What the constructors make of the texts a
  proxy meets, an authority with and without a port and an absolute URI, is proved for every host.
\<close>

section \<open>Patterns\<close>

abbreviation digit_class :: "char list" where "digit_class \<equiv> ''0123456789''"
abbreviation v6_class :: "char list" where "v6_class \<equiv> ''abcdef0123456789:.''"
abbreviation v6_class_icase :: "char list" where "v6_class_icase \<equiv> ''abcdefABCDEF0123456789:.''"

definition URI_REGEX :: rx where
  "URI_REGEX =
     RSeq (RGroup 1 (RSeq (RLit_icase ''http'') (ROpt (RLit_icase ''s''))))
    (RSeq (RLit ''://'')
    (RSeq (RGroup 2 (RAlt (RGroup 3 (RPlus (RNot '':/?#[]'')))
                          (RSeq (RLit ''['') (RSeq (RGroup 4 (RPlus (ROneOf v6_class_icase))) (RLit '']'')))))
    (RSeq (ROpt (RGroup 5 (RSeq (RLit '':'') (RGroup 6 (RPlus (ROneOf digit_class))))))
          (ROpt (RGroup 7 (RSeq (RLit ''/'')
                          (RSeq (RStar (RNot ''#?'')) (ROpt (RGroup 8 (RSeq (ROneOf ''#?'') (RStar RDot)))))))))))"

abbreviation URI_REGEX_SIZE :: nat where "URI_REGEX_SIZE \<equiv> 9"

definition HOST_REGEX :: rx where
  "HOST_REGEX =
     RSeq (RGroup 1 (RAlt (RGroup 2 (RPlus (RNot '':/[]'')))
                          (RSeq (RLit ''['') (RSeq (RGroup 3 (RPlus (ROneOf v6_class))) (RLit '']'')))))
          (ROpt (RGroup 4 (RSeq (RLit '':'') (RGroup 5 (RPlus (ROneOf digit_class))))))"

abbreviation HOST_REGEX_SIZE :: nat where "HOST_REGEX_SIZE \<equiv> 6"

section \<open>Constructors\<close>

definition matching :: "string \<Rightarrow> rx \<Rightarrow> nat \<Rightarrow> captures result" where
  "matching s re n =
     (case rx_match re s of
        None \<Rightarrow> fail_with BAD_PROTO ''''
      | Some r \<Rightarrow> rthen (assertTrue (rx_groups re + 1 = n) BAD_PROTO '''') (Inr r))"

definition iequals :: "string \<Rightarrow> string \<Rightarrow> bool" where
  "iequals a b \<longleftrightarrow> map tolower a = map tolower b"

definition scheme2port :: "string \<Rightarrow> string result" where
  "scheme2port scheme =
     (if iequals ''http'' scheme then Inr ''80''
      else if iequals ''https'' scheme then Inr ''443''
      else fail_with BAD_PROTO '''')"

record Uri =
  uri_all :: string
  uri_scheme :: string
  uri_host :: string
  uri_port :: string
  uri_suffix :: string
  uri_path :: string
  uri_query :: string

definition group_matched :: "captures \<Rightarrow> nat \<Rightarrow> bool" where
  "group_matched k n \<longleftrightarrow> map_of k n \<noteq> None"

text \<open>
  Group 8 ends where group 7 ends, and a group that did not take part starts at the end of the text,
  so the distance of their starts is the difference of their lengths.
\<close>

definition make_Uri :: "string \<Rightarrow> Uri result" where
  "make_Uri s =
     rbind (matching s URI_REGEX URI_REGEX_SIZE) (\<lambda>r.
     rbind (if group_matched r 5 then Inr (group_str r 6) else scheme2port (group_str r 1)) (\<lambda>port.
     Inr \<lparr>uri_all = s,
          uri_scheme = group_str r 1,
          uri_host = (if group_matched r 3 then group_str r 3 else group_str r 4),
          uri_port = port,
          uri_suffix = (if group_matched r 7 then group_str r 7 else ''/''),
          uri_path = (if group_matched r 7
                      then take (length (group_str r 7) - length (group_str r 8)) (group_str r 7)
                      else ''/''),
          uri_query = group_str r 8\<rparr>))"

record HostAndPort =
  hp_host :: string
  hp_port :: string

definition make_HostAndPort :: "string \<Rightarrow> HostAndPort result" where
  "make_HostAndPort s =
     rbind (matching s HOST_REGEX HOST_REGEX_SIZE) (\<lambda>r.
     Inr \<lparr>hp_host = (if group_matched r 2 then group_str r 2 else group_str r 3),
          hp_port = (if group_matched r 4 then group_str r 5 else ''80'')\<rparr>)"

section \<open>Host and port\<close>

text \<open>A host as the patterns know it: a name or an IPv4 address.\<close>

definition plain_host :: "string \<Rightarrow> bool" where
  "plain_host h \<longleftrightarrow> h \<noteq> [] \<and> set h \<inter> set '':/[]'' = {}"

definition port_text :: "string \<Rightarrow> bool" where
  "port_text p \<longleftrightarrow> p \<noteq> [] \<and> set p \<subseteq> set digit_class"

lemma host_groups: "rx_groups HOST_REGEX + 1 = HOST_REGEX_SIZE"
  by (simp add: HOST_REGEX_def RPlus_def)

lemma port_first:
  assumes "port_text p" and "t = [] \<or> hd t \<notin> set digit_class"
  shows "rx_first (ROpt (RGroup n (RSeq (RLit '':'') (RGroup m (RPlus (ROneOf digit_class))))))
    (CHR '':'' # p @ t) (CHR '':'' # p) t [(n, CHR '':'' # p), (m, p)]"
proof -
  have "rx_first (RPlus (ROneOf digit_class)) (p @ t) p t []"
    using assms unfolding port_text_def by (intro rx_first_ones) auto
  then show ?thesis
    using rx_first_some [OF rx_first_group [OF rx_first_seq [OF rx_first_lit [of "'':''" "p @ t"]
      rx_first_group]], of "RPlus (ROneOf digit_class)" p t "[]" n m] by simp
qed

lemma no_port_first:
  assumes "s = [] \<or> hd s \<noteq> CHR '':''"
  shows "rx_first (ROpt (RGroup n (RSeq (RLit '':'') a))) s [] s []"
  using assms by (intro rx_first_none rx_group_nil rx_seq_nil) (cases s; auto)

lemma matching_first: "rx_first re s x [] k \<Longrightarrow> rx_groups re + 1 = n \<Longrightarrow> matching s re n = Inr k"
  using rx_first_match [of re s x k] by (simp add: matching_def)

lemma host_and_port:
  assumes "plain_host h" and "port_text p"
  shows "make_HostAndPort (h @ '':'' @ p) = Inr \<lparr>hp_host = h, hp_port = p\<rparr>"
proof -
  have "rx_first (RPlus (RNot '':/[]'')) (h @ CHR '':'' # p) h (CHR '':'' # p) []"
    using assms(1) unfolding plain_host_def by (intro rx_first_nots) auto
  then have "rx_first HOST_REGEX (h @ CHR '':'' # p) (h @ CHR '':'' # p) []
      ([(4, CHR '':'' # p), (5, p)] @ [(1, h), (2, h)])"
    unfolding HOST_REGEX_def using port_first [OF assms(2), of "[]" 4 5]
    by (intro rx_first_seq rx_first_group rx_first_left) simp_all
  then show ?thesis using matching_first [OF _ host_groups]
    by (simp add: make_HostAndPort_def group_matched_def group_str_def)
qed

lemma host_alone:
  assumes "plain_host h"
  shows "make_HostAndPort h = Inr \<lparr>hp_host = h, hp_port = ''80''\<rparr>"
proof -
  have "rx_first (RPlus (RNot '':/[]'')) (h @ []) h [] []"
    using assms(1) unfolding plain_host_def by (intro rx_first_nots) auto
  then have "rx_first HOST_REGEX h (h @ []) [] ([] @ [(1, h), (2, h)])"
    unfolding HOST_REGEX_def using no_port_first [of "[]" 4]
    by (intro rx_first_seq rx_first_group rx_first_left) simp_all
  then show ?thesis using matching_first [OF _ host_groups]
    by (simp add: make_HostAndPort_def group_matched_def group_str_def)
qed

text \<open>An address in brackets.\<close>

lemma bracketed_first:
  assumes "h \<noteq> []" and "set h \<subseteq> set cs" and "CHR '']'' \<notin> set cs" and "CHR ''['' \<in> set ns"
  shows "rx_first (RAlt (RGroup m (RPlus (RNot ns)))
      (RSeq (RLit ''['') (RSeq (RGroup n (RPlus (ROneOf cs))) (RLit '']''))))
    (CHR ''['' # h @ CHR '']'' # t) (CHR ''['' # h @ '']'') t [(n, h)]"
proof (rule rx_first_right)
  show "rx_matches (RGroup m (RPlus (RNot ns))) (CHR ''['' # h @ CHR '']'' # t) = []"
    using assms(4) by (simp add: RPlus_def rx_char_def)
  have "rx_first (RGroup n (RPlus (ROneOf cs))) (h @ CHR '']'' # t) h (CHR '']'' # t) [(n, h)]"
    using assms(1-3) by (intro rx_first_group rx_first_ones) auto
  then show "rx_first (RSeq (RLit ''['') (RSeq (RGroup n (RPlus (ROneOf cs))) (RLit '']'')))
      (CHR ''['' # h @ CHR '']'' # t) (CHR ''['' # h @ '']'') t [(n, h)]"
    using rx_first_seq [OF rx_first_lit [of "''[''"] rx_first_seq [OF _ rx_first_lit [of "'']''" t]]]
    by fastforce
qed

lemma bracketed_host:
  assumes "h \<noteq> []" and "set h \<subseteq> set v6_class"
  shows "make_HostAndPort (''['' @ h @ '']'') = Inr \<lparr>hp_host = h, hp_port = ''80''\<rparr>"
proof -
  note b = bracketed_first [OF assms, where ns = "'':/[]''" and t = "[]" and m = 2 and n = 3]
  have "rx_first HOST_REGEX (CHR ''['' # h @ '']'') ((CHR ''['' # h @ '']'') @ []) []
      ([] @ [(1, CHR ''['' # h @ '']''), (3, h)])"
    unfolding HOST_REGEX_def using b no_port_first [of "[]" 4]
    by (intro rx_first_seq rx_first_group) simp_all
  then show ?thesis using matching_first [OF _ host_groups]
    by (simp add: make_HostAndPort_def group_matched_def group_str_def)
qed

lemma bracketed_host_and_port:
  assumes "h \<noteq> []" and "set h \<subseteq> set v6_class" and "port_text p"
  shows "make_HostAndPort (''['' @ h @ '']:'' @ p) = Inr \<lparr>hp_host = h, hp_port = p\<rparr>"
proof -
  note b = bracketed_first [OF assms(1,2), where ns = "'':/[]''" and t = "CHR '':'' # p" and m = 2 and n = 3]
  have "rx_first HOST_REGEX (CHR ''['' # h @ CHR '']'' # CHR '':'' # p)
      ((CHR ''['' # h @ '']'') @ CHR '':'' # p) []
      ([(4, CHR '':'' # p), (5, p)] @ [(1, CHR ''['' # h @ '']''), (3, h)])"
    unfolding HOST_REGEX_def using b port_first [OF assms(3), of "[]" 4 5]
    by (intro rx_first_seq rx_first_group) simp_all
  then show ?thesis using matching_first [OF _ host_groups]
    by (simp add: make_HostAndPort_def group_matched_def group_str_def)
qed

section \<open>Absolute URIs\<close>

definition scheme_text :: "string \<Rightarrow> bool \<Rightarrow> bool" where
  "scheme_text sch tls \<longleftrightarrow>
     list_all2 (\<lambda>c d. d \<in> set (case_variants c)) (if tls then ''https'' else ''http'') sch"

text \<open>How a host is written in a URI: plain, or an IPv6 address in brackets.\<close>

definition uri_authority :: "string \<Rightarrow> string \<Rightarrow> bool" where
  "uri_authority hs h \<longleftrightarrow>
     (hs = h \<and> h \<noteq> [] \<and> set h \<inter> set '':/?#[]'' = {}) \<or>
     (hs = ''['' @ h @ '']'' \<and> h \<noteq> [] \<and> set h \<subseteq> set v6_class_icase)"

definition port_part :: "string option \<Rightarrow> string" where
  "port_part po = (case po of None \<Rightarrow> [] | Some p \<Rightarrow> CHR '':'' # p)"

definition uri_query_text :: "string \<Rightarrow> bool" where
  "uri_query_text q \<longleftrightarrow> q = [] \<or> (hd q \<in> set ''#?'' \<and> CHR 0x0A \<notin> set q \<and> CHR 0x0D \<notin> set q)"

definition suffix_part :: "(string \<times> string) option \<Rightarrow> string" where
  "suffix_part po = (case po of None \<Rightarrow> [] | Some (p, q) \<Rightarrow> CHR ''/'' # p @ q)"

lemma uri_groups: "rx_groups URI_REGEX + 1 = URI_REGEX_SIZE"
  by (simp add: URI_REGEX_def RPlus_def)

lemma case_variants_tolower: "d \<in> set (case_variants c) \<Longrightarrow> tolower d = tolower c"
  by (auto simp: case_variants_def Let_def tolower_def of_char_of split: if_splits)

lemma icase_lower: "rx_lang (RLit_icase l) x \<Longrightarrow> map tolower x = map tolower l"
proof (induction l arbitrary: x)
  case (Cons c l)
  then obtain d y where "x = d # y" "d \<in> set (case_variants c)" "rx_lang (RLit_icase l) y" by auto
  then show ?case using Cons.IH case_variants_tolower by simp
qed auto

lemma scheme_lower: "scheme_text sch tls \<Longrightarrow> map tolower sch = (if tls then ''https'' else ''http'')"
proof -
  assume "scheme_text sch tls"
  then have "list_all2 (\<lambda>c d. tolower d = tolower c) (if tls then ''https'' else ''http'') sch"
    unfolding scheme_text_def by (rule list_all2_mono) (rule case_variants_tolower)
  then have "map tolower sch = map tolower (if tls then ''https'' else ''http'')"
    by (induction rule: list_all2_induct) auto
  also have "\<dots> = (if tls then ''https'' else ''http'')" by (cases tls) (simp_all; code_simp)+
  finally show ?thesis .
qed

lemma scheme_port: "scheme_text sch tls \<Longrightarrow> scheme2port sch = Inr (if tls then ''443'' else ''80'')"
proof -
  have "map tolower ''http'' = ''http''" "map tolower ''https'' = ''https''" by code_simp+
  moreover assume "scheme_text sch tls"
  ultimately show ?thesis using scheme_lower [of sch tls] by (simp add: scheme2port_def iequals_def)
qed

lemma s_variants: "case_variants CHR ''s'' = ''sS''"
  by code_simp

lemma scheme_first:
  assumes "scheme_text sch tls"
  shows "rx_first (RGroup 1 (RSeq (RLit_icase ''http'') (ROpt (RLit_icase ''s''))))
    (sch @ CHR '':'' # t) sch (CHR '':'' # t) [(1, sch)]"
proof (cases tls)
  case True
  then have "list_all2 (\<lambda>c d. d \<in> set (case_variants c)) (''http'' @ ''s'') sch"
    using assms by (simp add: scheme_text_def)
  then obtain x y where xy: "sch = x @ y" "list_all2 (\<lambda>c d. d \<in> set (case_variants c)) ''http'' x"
    "list_all2 (\<lambda>c d. d \<in> set (case_variants c)) ''s'' y"
    unfolding list_all2_append1 by blast
  then have "y \<noteq> []" by auto
  then have "rx_first (RSeq (RLit_icase ''http'') (ROpt (RLit_icase ''s''))) (x @ y @ CHR '':'' # t)
      (x @ y) (CHR '':'' # t) ([] @ [])"
    using rx_first_lit_icase [OF xy(2)] rx_first_lit_icase [OF xy(3)]
    by (intro rx_first_seq rx_first_some)
  then show ?thesis using xy(1) rx_first_group by fastforce
next
  case False
  then have h: "list_all2 (\<lambda>c d. d \<in> set (case_variants c)) ''http'' sch"
    using assms by (simp add: scheme_text_def)
  have "rx_matches (RLit_icase ''s'') (CHR '':'' # t) = []"
    by (simp add: rx_char_def s_variants)
  then have "rx_first (ROpt (RLit_icase ''s'')) (CHR '':'' # t) [] (CHR '':'' # t) []"
    by (rule rx_first_none)
  from rx_first_group [OF rx_first_seq [OF rx_first_lit_icase [OF h] this], of 1]
  show ?thesis by simp
qed

lemma scheme_not_slash: "scheme_text sch tls \<Longrightarrow> sch \<noteq> [] \<and> sch ! 0 \<noteq> CHR ''/''"
proof -
  assume "scheme_text sch tls"
  then have "map tolower sch = (if tls then ''https'' else ''http'')" by (rule scheme_lower)
  then obtain c cs where "sch = c # cs" "tolower c = CHR ''h''" by (cases sch; cases tls) auto
  moreover have "tolower CHR ''/'' \<noteq> CHR ''h''" by code_simp
  ultimately show ?thesis by auto
qed

lemma authority_first:
  assumes "uri_authority hs h" and "t = [] \<or> hd t \<in> set '':/''"
  shows "\<exists>k. rx_first (RGroup 2 (RAlt (RGroup 3 (RPlus (RNot '':/?#[]'')))
      (RSeq (RLit ''['') (RSeq (RGroup 4 (RPlus (ROneOf v6_class_icase))) (RLit '']'')))))
      (hs @ t) hs t ((2, hs) # k) \<and> (k = [(3, h)] \<or> k = [(4, h)])"
proof -
  consider "hs = h" "h \<noteq> []" "set h \<inter> set '':/?#[]'' = {}"
    | "hs = ''['' @ h @ '']''" "h \<noteq> []" "set h \<subseteq> set v6_class_icase"
    using assms(1) unfolding uri_authority_def by blast
  then show ?thesis
  proof cases
    case 1
    have "rx_first (RPlus (RNot '':/?#[]'')) (h @ t) h t []"
      using 1(2,3) assms(2) by (intro rx_first_nots) auto
    then show ?thesis
      using 1(1) rx_first_group [OF rx_first_left [OF rx_first_group], of _ "h @ t" h t "[]"] by blast
  next
    case 2
    have b: "rx_first (RAlt (RGroup 3 (RPlus (RNot '':/?#[]'')))
        (RSeq (RLit ''['') (RSeq (RGroup 4 (RPlus (ROneOf v6_class_icase))) (RLit '']''))))
        (hs @ t) hs t [(4, h)]"
      using bracketed_first [OF 2(2,3), where ns = "'':/?#[]''" and t = t and m = 3 and n = 4] 2(1) by simp
    show ?thesis using rx_first_group [OF b, of 2] by blast
  qed
qed

lemma suffix_first:
  assumes "case sp of None \<Rightarrow> True | Some (p, q) \<Rightarrow> set p \<inter> set ''#?'' = {} \<and> uri_query_text q"
  shows "rx_first (ROpt (RGroup 7 (RSeq (RLit ''/'')
      (RSeq (RStar (RNot ''#?'')) (ROpt (RGroup 8 (RSeq (ROneOf ''#?'') (RStar RDot))))))))
      (suffix_part sp) (suffix_part sp) []
      (case sp of None \<Rightarrow> [] | Some (p, q) \<Rightarrow> (7, suffix_part sp) # (if q = [] then [] else [(8, q)]))"
proof (cases sp)
  case None
  show ?thesis unfolding None suffix_part_def option.case
    by (intro rx_first_none rx_group_nil rx_seq_nil) simp
next
  case (Some pq)
  obtain p q where pq: "pq = (p, q)" by force
  then have pq': "set p \<inter> set ''#?'' = {}" "uri_query_text q" using assms Some by auto
  have q: "rx_first (ROpt (RGroup 8 (RSeq (ROneOf ''#?'') (RStar RDot)))) q q [] (if q = [] then [] else [(8, q)])"
  proof (cases q)
    case Nil
    show ?thesis unfolding Nil by (simp add: rx_first_def rx_char_def)
  next
    case (Cons c r)
    then have "rx_first (RStar RDot) r r [] []" and "c \<in> set ''#?''"
      using pq'(2) by (auto simp: uri_query_text_def intro: rx_first_dots)
    from rx_first_some [OF rx_first_group [OF rx_first_seq [OF rx_first_one [OF this(2)] this(1)]], of 8]
    show ?thesis unfolding Cons by simp
  qed
  have "q = [] \<or> hd q \<in> set ''#?''" using pq'(2) by (auto simp: uri_query_text_def)
  from rx_first_nots_star [OF pq'(1) this]
  have "rx_first (RSeq (RStar (RNot ''#?'')) (ROpt (RGroup 8 (RSeq (ROneOf ''#?'') (RStar RDot)))))
      (p @ q) (p @ q) [] ((if q = [] then [] else [(8, q)]) @ [])"
    using q by (rule rx_first_seq)
  from rx_first_some [OF rx_first_group [OF rx_first_seq [OF rx_first_lit [of "''/''"] this], of 7]]
  show ?thesis by (simp add: Some pq suffix_part_def)
qed

lemma uri_parts:
  assumes "scheme_text sch tls" and "uri_authority hs h"
    and "case po of None \<Rightarrow> True | Some p \<Rightarrow> port_text p"
    and "case sp of None \<Rightarrow> True | Some (p, q) \<Rightarrow> set p \<inter> set ''#?'' = {} \<and> uri_query_text q"
  shows "make_Uri (sch @ ''://'' @ hs @ port_part po @ suffix_part sp) =
    Inr \<lparr>uri_all = sch @ ''://'' @ hs @ port_part po @ suffix_part sp,
         uri_scheme = sch, uri_host = h,
         uri_port = (case po of None \<Rightarrow> if tls then ''443'' else ''80'' | Some p \<Rightarrow> p),
         uri_suffix = (case sp of None \<Rightarrow> ''/'' | Some _ \<Rightarrow> suffix_part sp),
         uri_path = (case sp of None \<Rightarrow> ''/'' | Some (p, q) \<Rightarrow> CHR ''/'' # p),
         uri_query = (case sp of None \<Rightarrow> [] | Some (p, q) \<Rightarrow> q)\<rparr>"
proof -
  let ?t = "suffix_part sp"
  let ?sk = "case sp of None \<Rightarrow> [] | Some (p, q) \<Rightarrow> (7, ?t) # (if q = [] then [] else [(8, q)])"
  let ?pk = "case po of None \<Rightarrow> [] | Some p \<Rightarrow> [(5, port_part po), (6, p)]"
  have t: "?t = [] \<or> hd ?t = CHR ''/''" by (cases sp) (auto simp: suffix_part_def split: prod.splits)
  have p: "rx_first (ROpt (RGroup 5 (RSeq (RLit '':'') (RGroup 6 (RPlus (ROneOf digit_class))))))
      (port_part po @ ?t) (port_part po) ?t ?pk"
    using port_first [of _ ?t 5 6] no_port_first [of ?t 5] t assms(3)
    by (cases po) (auto simp: port_part_def)
  have "port_part po @ ?t = [] \<or> hd (port_part po @ ?t) \<in> set '':/''"
    using t by (cases po) (auto simp: port_part_def)
  from authority_first [OF assms(2) this] obtain hk where
    hk: "rx_first (RGroup 2 (RAlt (RGroup 3 (RPlus (RNot '':/?#[]'')))
      (RSeq (RLit ''['') (RSeq (RGroup 4 (RPlus (ROneOf v6_class_icase))) (RLit '']'')))))
      (hs @ port_part po @ ?t) hs (port_part po @ ?t) ((2, hs) # hk)" "hk = [(3, h)] \<or> hk = [(4, h)]"
    by blast
  have "rx_first (RLit ''://'') (CHR '':'' # ''//'' @ hs @ port_part po @ ?t) ''://''
      (hs @ port_part po @ ?t) []"
    using rx_first_lit [of "''://''"] by simp
  from rx_first_seq [OF scheme_first [OF assms(1)] rx_first_seq [OF this
      rx_first_seq [OF hk(1) rx_first_seq [OF p suffix_first [OF assms(4)]]]]]
  have "rx_first URI_REGEX (sch @ ''://'' @ hs @ port_part po @ ?t) (sch @ ''://'' @ hs @ port_part po @ ?t) []
      (((?sk @ ?pk) @ (2, hs) # hk) @ [(1, sch)])"
    unfolding URI_REGEX_def by simp
  then have m: "matching (sch @ ''://'' @ hs @ port_part po @ ?t) URI_REGEX URI_REGEX_SIZE =
      Inr (((?sk @ ?pk) @ (2, hs) # hk) @ [(1, sch)])"
    using matching_first [OF _ uri_groups] by blast
  let ?k = "((?sk @ ?pk) @ (2, hs) # hk) @ [(1, sch)]"
  have g: "map_of ?k 1 = Some sch" "map_of ?k 3 = map_of hk 3" "map_of ?k 4 = map_of hk 4"
    "map_of ?k 5 = map_option (\<lambda>p. port_part po) po" "map_of ?k 6 = po"
    "map_of ?k 7 = map_option (\<lambda>_. ?t) sp"
    "map_of ?k 8 = (case sp of None \<Rightarrow> None | Some (p, q) \<Rightarrow> if q = [] then None else Some q)"
    using hk(2) by (cases po; cases sp; force simp: map_add_def)+
  have h: "(if map_of hk 3 \<noteq> None then group_str hk 3 else group_str hk 4) = h"
    using hk(2) by (auto simp: group_str_def)
  show ?thesis
    unfolding make_Uri_def m rbind_simps group_matched_def group_str_def g
    using scheme_port [OF assms(1)] h [unfolded group_str_def]
    by (cases po; cases sp) (auto simp: suffix_part_def Suc_diff_le split: prod.split)
qed

end
