(* ===== verification/Pichi_Stream.thy ===== *)
theory Pichi_Stream
  imports Pichi_Samples
begin

text \<open>
  Byte streams (\<^verbatim>\<open>include/pichi/stream/test.hpp\<close>, \<^verbatim>\<open>include/pichi/stream/helpers.hpp\<close>). A socket is the
  in-memory socket of the sources, \<^verbatim>\<open>stream::TestSocket\<close>: a queue of the chunks that arrive and a
  buffer of what has been sent. One \<^verbatim>\<open>read_some\<close> delivers at most one chunk, so the way the peer's
  bytes are cut into chunks is part of the state, and a statement about every state is a
  statement about every fragmentation. After the last chunk a read reports \<open>sk_end\<close>: \<^verbatim>\<open>TestSocket\<close> is the instance
  where that is \<^verbatim>\<open>MISC\<close>, for a real socket it is the code that says how the peer has gone. As in \<^verbatim>\<open>TestSocket\<close> a write on an open
  socket takes all it is given: a peer that stops reading is not part of the model, what a theorem says of bytes sent is said of
  connections that take them.

  \<open>stream_read\<close> is \<^verbatim>\<open>stream::read\<close>: the composed operation of Boost.Asio that repeats \<^verbatim>\<open>read_some\<close>
  until the buffer is full; \<open>stream_write\<close> is \<^verbatim>\<open>stream::write\<close>.
\<close>

section \<open>Sockets\<close>

record socket =
  sk_rBufs :: "bytes list"
  sk_wBuf :: bytes
  sk_end :: error_code
  sk_open :: bool

definition sk_fill :: "bytes \<Rightarrow> socket \<Rightarrow> socket" where
  "sk_fill bs s = s\<lparr>sk_rBufs := sk_rBufs s @ [bs]\<rparr>"

definition read_some :: "nat \<Rightarrow> (socket, bytes) io" where
  "read_some n s =
     (if \<not> sk_open s then (Inl (SystemError (Asio_code asio_bad_descriptor) ''''), s)
      else case sk_rBufs s of
        [] \<Rightarrow> (Inl (SystemError (sk_end s) ''''), s)
      | c # cs \<Rightarrow>
          if c = [] then (fail_misc '''', s)
          else (let copied = min (length c) n; c' = drop copied c
                in (Inr (take copied c), s\<lparr>sk_rBufs := (if c' = [] then cs else c' # cs)\<rparr>)))"

definition stream_write :: "bytes \<Rightarrow> (socket, unit) io" where
  "stream_write bs s =
     (if sk_open s then (Inr (), s\<lparr>sk_wBuf := sk_wBuf s @ bs\<rparr>)
      else (Inl (SystemError (Asio_code asio_bad_descriptor) ''''), s))"

lemma read_some_progress: "read_some n s = (Inr bs, s') \<Longrightarrow> 0 < n \<Longrightarrow> bs \<noteq> []"
  by (auto simp: read_some_def Let_def split: list.splits if_splits)

lemma read_some_bound: "read_some n s = (Inr bs, s') \<Longrightarrow> length bs \<le> n"
  by (auto simp: read_some_def Let_def split: list.splits if_splits)

lemma read_some_less: "read_some n s = (Inr bs, s') \<Longrightarrow> 0 < n \<Longrightarrow> n - length bs < n"
  using read_some_progress [of n s bs s'] by (cases bs) auto

function stream_read :: "nat \<Rightarrow> (socket, bytes) io" where
  "stream_read n s =
     (if n = 0 then (Inr [], s)
      else case read_some n s of
             (Inl e, s') \<Rightarrow> (Inl e, s')
           | (Inr bs, s') \<Rightarrow>
               (case stream_read (n - length bs) s' of
                  (Inl e, s'') \<Rightarrow> (Inl e, s'')
                | (Inr cs, s'') \<Rightarrow> (Inr (bs @ cs), s'')))"
  by pat_completeness auto
termination
  by (relation "measure fst") (auto dest: read_some_less [OF sym])

declare stream_read.simps [simp del]

section \<open>What a socket still delivers\<close>

definition sk_content :: "socket \<Rightarrow> bytes" where
  "sk_content s = concat (sk_rBufs s)"

definition sk_ok :: "socket \<Rightarrow> bool" where
  "sk_ok s \<longleftrightarrow> sk_open s \<and> [] \<notin> set (sk_rBufs s)"

definition sk_frame :: "socket \<Rightarrow> bytes \<times> error_code" where
  "sk_frame s = (sk_wBuf s, sk_end s)"

lemma read_some_ok:
  assumes "sk_ok s" and "sk_content s \<noteq> []" and "0 < n"
  shows "\<exists>bs s'. read_some n s = (Inr bs, s') \<and> bs \<noteq> [] \<and> length bs \<le> n \<and>
    sk_content s = bs @ sk_content s' \<and> sk_frame s' = sk_frame s \<and> sk_ok s'"
proof -
  obtain c cs where c: "sk_open s" "sk_rBufs s = c # cs" "c \<noteq> []" "[] \<notin> set cs"
    using assms(1,2) by (cases "sk_rBufs s") (auto simp: sk_content_def sk_ok_def)
  then show ?thesis
    using assms(3) by (auto simp: read_some_def Let_def sk_content_def sk_frame_def sk_ok_def min_def)
qed

lemma read_some_end:
  assumes "sk_ok s" and "sk_content s = []"
  shows "read_some n s = (Inl (SystemError (sk_end s) ''''), s)"
  using assms by (cases "sk_rBufs s") (auto simp: read_some_def sk_content_def sk_ok_def)

lemma stream_read_enough:
  assumes "sk_ok s" and "n \<le> length (sk_content s)"
  shows "\<exists>s'. stream_read n s = (Inr (take n (sk_content s)), s') \<and>
    sk_content s' = drop n (sk_content s) \<and> sk_frame s' = sk_frame s \<and> sk_ok s'"
  using assms
proof (induction n arbitrary: s rule: less_induct)
  case (less n)
  show ?case
  proof (cases "n = 0")
    case True
    with less.prems show ?thesis by (subst stream_read.simps) auto
  next
    case False
    then have "sk_content s \<noteq> []" using less.prems(2) by auto
    with False obtain bs s1 where bs: "read_some n s = (Inr bs, s1)" "bs \<noteq> []" "length bs \<le> n"
      and c: "sk_content s = bs @ sk_content s1" "sk_frame s1 = sk_frame s" "sk_ok s1"
      using read_some_ok [OF less.prems(1)] by blast
    then have "n - length bs < n" and "n - length bs \<le> length (sk_content s1)"
      using less.prems(2) False by (cases bs; auto)+
    from less.IH [OF this(1) c(3) this(2)] obtain s2 where
      r: "stream_read (n - length bs) s1 = (Inr (take (n - length bs) (sk_content s1)), s2)"
      and s2: "sk_content s2 = drop (n - length bs) (sk_content s1)"
        "sk_frame s2 = sk_frame s1" "sk_ok s2" by blast
    have "stream_read n s = (Inr (bs @ take (n - length bs) (sk_content s1)), s2)"
      using False bs(1) r by (subst stream_read.simps) simp
    with s2 c bs(3) show ?thesis by simp
  qed
qed

lemma stream_read_short:
  assumes "sk_ok s" and "length (sk_content s) < n"
  shows "\<exists>s'. stream_read n s = (Inl (SystemError (sk_end s) ''''), s') \<and> sk_frame s' = sk_frame s"
  using assms
proof (induction n arbitrary: s rule: less_induct)
  case (less n)
  then have n: "n \<noteq> 0" by auto
  show ?case
  proof (cases "sk_content s = []")
    case True
    then show ?thesis using n read_some_end [OF less.prems(1)] by (subst stream_read.simps) simp
  next
    case False
    with n obtain bs s1 where bs: "read_some n s = (Inr bs, s1)" "bs \<noteq> []" "length bs \<le> n"
      and c: "sk_content s = bs @ sk_content s1" "sk_frame s1 = sk_frame s" "sk_ok s1"
      using read_some_ok [OF less.prems(1)] by blast
    then have "n - length bs < n" and "length (sk_content s1) < n - length bs"
      using less.prems(2) n by (cases bs; auto)+
    from less.IH [OF this(1) c(3) this(2)] obtain s2 where
      "stream_read (n - length bs) s1 = (Inl (SystemError (sk_end s1) ''''), s2)"
      "sk_frame s2 = sk_frame s1" by blast
    then show ?thesis using n bs(1) c(2) by (subst stream_read.simps) (simp add: sk_frame_def)
  qed
qed

text \<open>Sockets satisfy the contract the endpoint parser relies on.\<close>

interpretation sock: byte_reader stream_read sk_content sk_frame sk_ok
  by unfold_locales (use stream_read_enough stream_read_short in blast)+

definition sample_socket :: "bytes list \<Rightarrow> socket" where
  "sample_socket cs = \<lparr>sk_rBufs = cs, sk_wBuf = [], sk_end = Asio_code asio_eof, sk_open = True\<rparr>"

section \<open>Layers\<close>

text \<open>
  The adapters are templates over the layer below them (a socket, TLS over a socket, a WebSocket
  over TLS). A layer is what they call: \<^verbatim>\<open>stream::read\<close>, \<^verbatim>\<open>read_some\<close>, \<^verbatim>\<open>write\<close>, \<^verbatim>\<open>accept\<close>, \<^verbatim>\<open>connect\<close> and
  \<^verbatim>\<open>close\<close>. A socket accepts without doing anything, and the socket of the tests connects so.
\<close>

record 's layer =
  ly_read :: "nat \<Rightarrow> ('s, bytes) io"
  ly_read_some :: "nat \<Rightarrow> ('s, bytes) io"
  ly_write :: "bytes \<Rightarrow> ('s, unit) io"
  ly_accept :: "('s, unit) io"
  ly_connect :: "Endpoint \<Rightarrow> ('s, unit) io"
  ly_close :: "('s, unit) io"

definition socket_close :: "(socket, unit) io" where
  "socket_close s = (Inr (), s\<lparr>sk_open := False\<rparr>)"

definition socket_layer :: "socket layer" where
  "socket_layer = \<lparr>ly_read = stream_read, ly_read_some = read_some, ly_write = stream_write,
     ly_accept = ioret (Inr ()), ly_connect = (\<lambda>_. ioret (Inr ())), ly_close = socket_close\<rparr>"

text \<open>\<^verbatim>\<open>redirect\<close> of a void coroutine: a system error is a value, every other exception goes on.\<close>

definition redirect_void :: "('s, unit) io \<Rightarrow> ('s, error_code option) io" where
  "redirect_void a s =
     (case a s of
        (Inr _, s') \<Rightarrow> (Inr None, s')
      | (Inl (SystemError ec msg), s') \<Rightarrow> (Inr (Some ec), s')
      | (Inl e, s') \<Rightarrow> (Inl e, s'))"

locale byte_stream = byte_reader "ly_read ly" content written inv
  for ly :: "'s layer" and content :: "'s \<Rightarrow> bytes" and written :: "'s \<Rightarrow> bytes" and inv :: "'s \<Rightarrow> bool" +
  assumes write_ok: "inv s \<Longrightarrow> \<exists>s'. ly_write ly bs s = (Inr (), s') \<and> content s' = content s \<and>
      written s' = written s @ bs \<and> inv s'"
    and accept_ok: "inv s \<Longrightarrow> \<exists>s'. ly_accept ly s = (Inr (), s') \<and> content s' = content s \<and>
      written s' = written s \<and> inv s'"
    and connect_ok: "inv s \<Longrightarrow> \<exists>s'. ly_connect ly ep s = (Inr (), s') \<and> content s' = content s \<and>
      written s' = written s \<and> inv s'"
begin

text \<open>Steps forward: what a step does, the continuation runs on.\<close>

lemma step_read:
  assumes "inv s" and "content s = bs @ rest" and "n = length bs"
    and "\<And>s'. content s' = rest \<Longrightarrow> written s' = written s \<Longrightarrow> inv s' \<Longrightarrow> P (f bs s')"
  shows "P (iobind (ly_read ly n) f s)"
  by (rule bind_read [OF assms(1-3)]) (rule assms(4))

lemma step_write:
  assumes "inv s"
    and "\<And>s'. content s' = content s \<Longrightarrow> written s' = written s @ bs \<Longrightarrow> inv s' \<Longrightarrow> P (f () s')"
  shows "P (iobind (ly_write ly bs) f s)"
proof -
  obtain s' where "ly_write ly bs s = (Inr (), s')" "content s' = content s"
    "written s' = written s @ bs" "inv s'" using write_ok [OF assms(1)] by blast
  with assms(2) show ?thesis by simp
qed

lemma step_accept:
  assumes "inv s"
    and "\<And>s'. content s' = content s \<Longrightarrow> written s' = written s \<Longrightarrow> inv s' \<Longrightarrow> P (f () s')"
  shows "P (iobind (ly_accept ly) f s)"
proof -
  obtain s' where "ly_accept ly s = (Inr (), s')" "content s' = content s" "written s' = written s" "inv s'"
    using accept_ok [OF assms(1)] by blast
  with assms(2) show ?thesis by simp
qed

lemma step_connect:
  assumes "inv s"
    and "\<And>s'. content s' = content s \<Longrightarrow> written s' = written s \<Longrightarrow> inv s' \<Longrightarrow> P (f () s')"
  shows "P (iobind (ly_connect ly ep) f s)"
proof -
  obtain s' where "ly_connect ly ep s = (Inr (), s')" "content s' = content s" "written s' = written s" "inv s'"
    using connect_ok [OF assms(1)] by blast
  with assms(2) show ?thesis by simp
qed

text \<open>Steps backward: what must have been there when a step succeeded.\<close>

lemma read_back:
  assumes "inv s" and "ly_read ly n s = (Inr bs, s')"
  shows "content s = bs @ content s' \<and> length bs = n \<and> written s' = written s \<and> inv s'"
  using read_Inr [OF assms] by simp

lemma write_back:
  assumes "inv s" and "ly_write ly bs s = (Inr u, s')"
  shows "content s' = content s \<and> written s' = written s @ bs \<and> inv s'"
  using write_ok [OF assms(1), of bs] assms(2) by auto

lemma accept_back:
  assumes "inv s" and "ly_accept ly s = (Inr u, s')"
  shows "content s' = content s \<and> written s' = written s \<and> inv s'"
  using accept_ok [OF assms(1)] assms(2) by auto

end

interpretation sk: byte_stream socket_layer sk_content sk_wBuf sk_ok
proof unfold_locales
  fix s :: socket and n
  assume s: "sk_ok s"
  show "n \<le> length (sk_content s) \<Longrightarrow> \<exists>s'. ly_read socket_layer n s = (Inr (take n (sk_content s)), s') \<and>
      sk_content s' = drop n (sk_content s) \<and> sk_wBuf s' = sk_wBuf s \<and> sk_ok s'"
    using stream_read_enough [OF s] by (auto simp: socket_layer_def sk_frame_def)
  show "length (sk_content s) < n \<Longrightarrow>
      \<exists>ec msg s'. ly_read socket_layer n s = (Inl (SystemError ec msg), s') \<and> sk_wBuf s' = sk_wBuf s"
    using stream_read_short [OF s] by (fastforce simp: socket_layer_def sk_frame_def)
qed (auto simp: socket_layer_def stream_write_def sk_content_def sk_ok_def)

text \<open>A channel also delivers, to one read of a layer, at least one byte of what is still to come.\<close>

locale byte_channel = byte_stream +
  assumes some_ok: "inv s \<Longrightarrow> content s \<noteq> [] \<Longrightarrow> 0 < n \<Longrightarrow>
      \<exists>bs s'. ly_read_some ly n s = (Inr bs, s') \<and> bs \<noteq> [] \<and> length bs \<le> n \<and>
        content s = bs @ content s' \<and> written s' = written s \<and> inv s'"
    and some_conserves: "inv s \<Longrightarrow> ly_read_some ly n s = (r, s') \<Longrightarrow>
      content s = (case r of Inl e \<Rightarrow> [] | Inr bs \<Rightarrow> bs) @ content s' \<and> written s' = written s \<and> inv s'"

interpretation sc: byte_channel socket_layer sk_content sk_wBuf sk_ok
proof unfold_locales
  fix s s' :: socket and n and r :: "bytes result"
  assume s: "sk_ok s"
  show "sk_content s \<noteq> [] \<Longrightarrow> 0 < n \<Longrightarrow>
      \<exists>bs s'. ly_read_some socket_layer n s = (Inr bs, s') \<and> bs \<noteq> [] \<and> length bs \<le> n \<and>
        sk_content s = bs @ sk_content s' \<and> sk_wBuf s' = sk_wBuf s \<and> sk_ok s'"
    using read_some_ok [OF s, of n] by (auto simp: socket_layer_def sk_frame_def)
  assume "ly_read_some socket_layer n s = (r, s')"
  with s show "sk_content s = (case r of Inl e \<Rightarrow> [] | Inr bs \<Rightarrow> bs) @ sk_content s' \<and>
      sk_wBuf s' = sk_wBuf s \<and> sk_ok s'"
    by (auto simp: socket_layer_def read_some_def Let_def sk_ok_def sk_content_def
        split: if_splits list.splits sum.splits)
qed

section \<open>Composed operations\<close>

text \<open>
  \<^verbatim>\<open>Completer\<close>: how the exceptions of a coroutine reach the one who started it: a system error as its code, a
  wrong tag as \<^verbatim>\<open>CRYPTO_ERROR\<close>, everything else ends the process.
\<close>

definition complete_exn :: "exn \<Rightarrow> exn" where
  "complete_exn e =
     (case e of
        SystemError ec msg \<Rightarrow> SystemError ec ''''
      | InvalidTag \<Rightarrow> SystemError (makeErrorCode CRYPTO_ERROR) ''''
      | UB \<Rightarrow> UB
      | Diverges \<Rightarrow> Diverges
      | _ \<Rightarrow> Terminated)"

definition completer :: "('s, 'a) io \<Rightarrow> ('s, 'a) io" where
  "completer f s = (case f s of (Inl e, s') \<Rightarrow> (Inl (complete_exn e), s') | (Inr x, s') \<Rightarrow> (Inr x, s'))"

text \<open>
  \<^verbatim>\<open>stream::read\<close> of \<^verbatim>\<open>helpers.hpp\<close> over a stream of another layer. \<^verbatim>\<open>asio::async_read\<close> is documented as zero or more calls of the
  stream's \<^verbatim>\<open>async_read_some\<close>, until the buffer is full or an error occurs: the operation of the stream is the argument \<open>some\<close>, and the model
  is that loop. It also stops, without an error, at a read of no bytes. (No caller reads into a buffer of no bytes, for
  which the model does nothing.)
\<close>

function layered_read :: "(nat \<Rightarrow> ('s, bytes) io) \<Rightarrow> nat \<Rightarrow> ('s, bytes) io" where
  "layered_read some n s =
     (if n = 0 then (Inr [], s)
      else case some n s of
             (Inl e, s') \<Rightarrow> (Inl e, s')
           | (Inr bs, s') \<Rightarrow>
               if bs = [] then (Inr [], s')
               else (case layered_read some (n - length bs) s' of
                       (Inl e, s'') \<Rightarrow> (Inl e, s'')
                     | (Inr cs, s'') \<Rightarrow> (Inr (bs @ cs), s'')))"
  by pat_completeness auto
termination
  by (relation "measure (\<lambda>(some, n, s). n)") auto

declare layered_read.simps [simp del]

text \<open>
  \<^verbatim>\<open>stream::write\<close> of \<^verbatim>\<open>helpers.hpp\<close> over a stream of another layer: \<^verbatim>\<open>asio::async_write\<close> calls the stream's \<^verbatim>\<open>async_write_some\<close> (the argument
  \<open>some\<close>) with at most 65536 bytes, its \<^verbatim>\<open>default_max_transfer_size\<close>, advancing by what the stream reports, until nothing is left, nothing is
  reported or an error occurs.
\<close>

function layered_write :: "(bytes \<Rightarrow> ('s, nat) io) \<Rightarrow> bytes \<Rightarrow> ('s, unit) io" where
  "layered_write some bs s =
     (case some (take 65536 bs) s of
        (Inl e, s') \<Rightarrow> (Inl e, s')
      | (Inr n, s') \<Rightarrow>
          if n = 0 \<or> length bs \<le> n then (Inr (), s') else layered_write some (drop n bs) s')"
  by pat_completeness auto
termination
  by (relation "measure (\<lambda>(some, bs, s). length bs)") auto

declare layered_write.simps [simp del]

lemma completer_Inr [simp]: "f s = (Inr x, s') \<Longrightarrow> completer f s = (Inr x, s')"
  by (simp add: completer_def)

lemma layered_read_keeps [keeping]:
  assumes "\<And>n. keeps P (some n)"
  shows "keeps P (layered_read some n)"
  unfolding keeps_def
proof (intro allI impI)
  show "P s'" if "P s" "layered_read some n s = (r, s')" for s r s'
    using that
  proof (induction n arbitrary: s r s' rule: less_induct)
    case (less n)
    show ?case
    proof (cases "n = 0 \<or> (\<exists>e u. some n s = (Inl e, u)) \<or> (\<exists>u. some n s = (Inr [], u))")
      case True
      then show ?thesis using less.prems keepsD [OF assms less.prems(1), of n]
        by (auto simp: layered_read.simps [of some n] split: if_splits)
    next
      case False
      then obtain b bs u where u: "some n s = (Inr (b # bs), u)" "0 < n"
        by (metis (no_types, opaque_lifting) gr0I neq_Nil_conv old.sum.exhaust surj_pair)
      have "P u" using keepsD [OF assms less.prems(1) u(1)] .
      moreover obtain r' where "layered_read some (n - length (b # bs)) u = (r', s')"
        using less.prems(2) u by (auto simp: layered_read.simps [of some n] split: sum.splits prod.splits)
      ultimately show ?thesis using less.IH [of "n - length (b # bs)"] u(2) by simp
    qed
  qed
qed

section \<open>Repeated calls\<close>

text \<open>A session calls \<^verbatim>\<open>recv\<close> of one side and \<^verbatim>\<open>send\<close> of the other again and again.\<close>

fun recvs :: "(nat \<Rightarrow> ('s, bytes) io) \<Rightarrow> nat list \<Rightarrow> ('s, bytes) io" where
  "recvs recv [] = ioret (Inr [])"
| "recvs recv (n # ns) = iobind (recv n) (\<lambda>b. iobind (recvs recv ns) (\<lambda>bs. ioret (Inr (b @ bs))))"

fun sends :: "(bytes \<Rightarrow> ('s, unit) io) \<Rightarrow> bytes list \<Rightarrow> ('s, unit) io" where
  "sends send [] = ioret (Inr ())"
| "sends send (b # bs) = iobind (send b) (\<lambda>_. sends send bs)"

lemma recvs_conserve:
  assumes step: "\<And>n s bs s'. I s \<Longrightarrow> recv n s = (Inr bs, s') \<Longrightarrow> pending s = bs @ pending s' \<and> I s'"
  shows "I s \<Longrightarrow> recvs recv ns s = (Inr bs, s') \<Longrightarrow> pending s = bs @ pending s'"
proof (induction ns arbitrary: s bs)
  case (Cons n ns)
  then obtain b s1 cs where "recv n s = (Inr b, s1)" "recvs recv ns s1 = (Inr cs, s')" "bs = b @ cs"
    by (auto simp: result_simps)
  then show ?case using Cons.IH step [OF Cons.prems(1)] by fastforce
qed simp

text \<open>
  An endpoint made from the decimal text of a port is the endpoint made from the port: the
  text of every 16-bit number is accepted and gives that number.
\<close>

lemma makeEndpoint_port:
  "makeEndpoint_str ip host (to_string_nat (unat p)) = makeEndpoint ip host p"
proof -
  let ?t = "to_string_nat (unat p)"
  have dg: "takeWhile is_digit ?t = ?t" "dropWhile is_digit ?t = []"
    using to_string_nat_digits by (simp_all add: takeWhile_eq_all_conv dropWhile_eq_Nil_conv)
  have "\<not> is_digit CHR ''-''" by (simp add: is_digit_def)
  then have neg: "\<not> (case ?t of [] \<Rightarrow> False | c # _ \<Rightarrow> c = CHR ''-'')"
    using to_string_nat_digits [of _ "unat p"] by (cases ?t) auto
  show ?thesis using neg uint_u16_bound [of p]
    by (simp add: makeEndpoint_str_def from_chars_def Let_def dg to_string_nat_value
        makeEndpoint_def)
qed

section \<open>Properties\<close>

lemma serialize_address_mono:
  "serialize_address ip t h cap = Inr addr \<Longrightarrow> serialize_address ip t h 259 = Inr addr"
  by (cases t) (auto simp: result_simps)

lemma serialized_prefix:
  assumes "ip_laws ip" and "serializeEndpoint ip ep target = Inr (n, buf)"
  shows "endpoint_bytes ip ep = Inr (take n buf)" and "n \<le> length target" and "n \<le> 259"
    and "buf = take n buf @ drop n target" and "length (take n buf) = n"
proof -
  obtain addr where addr: "ep_host ep \<noteq> []"
      "serialize_address ip (ep_type ep) (ep_host ep) (length target) = Inr addr"
      "n = length addr + 2" "buf = overwrite (addr @ hton16 (ep_port ep)) target"
    using assms(2) unfolding serializeEndpoint_bytes by blast
  then show n: "n \<le> length target" "n \<le> 259"
    using serialize_address_length [OF assms(1) addr(2,1)] by simp_all
  have buf: "buf = (addr @ hton16 (ep_port ep)) @ drop n target"
    using addr n by (simp add: overwrite_def)
  then have tk: "take n buf = addr @ hton16 (ep_port ep)" using addr(3) by simp
  then show "endpoint_bytes ip ep = Inr (take n buf)"
    using addr(1) serialize_address_mono [OF addr(2)] by (simp add: endpoint_bytes_def)
  show "buf = take n buf @ drop n target" using buf tk by simp
  show "length (take n buf) = n" using tk addr(3) by simp
qed

text \<open>
  C3: Whatever \<^verbatim>\<open>serializeEndpoint\<close> writes, the coroutine \<^verbatim>\<open>parse_endpoint\<close> reads back as the same endpoint
  (with a numeric host in the library's canonical spelling), however the bytes are cut into
  chunks, without consuming anything behind the message and without writing to the stream.
\<close>

theorem endpoint_roundtrip:
  assumes "ip_laws ip" and "serializeEndpoint ip ep target = Inr (n, buf)"
    and "sk_ok s" and "sk_content s = take n buf @ rest"
  shows "\<exists>s'. parse_endpoint ip stream_read s = (Inr (canonical ip ep), s') \<and>
    sk_content s' = rest \<and> sk_wBuf s' = sk_wBuf s"
  using sock.parse_serialized [OF assms(3,1) serialized_prefix(1) [OF assms(1,2)] assms(4)]
  unfolding parse_endpoint_def sk_frame_def by auto

theorem endpoint_roundtrip_witness:
  "\<exists>s'. parse_endpoint sample_ip stream_read
      \<lparr>sk_rBufs = [[0x01, 127, 0], [0], [1, 0x1F, 0x90, 42]], sk_wBuf = [], sk_end = Asio_code asio_eof, sk_open = True\<rparr> =
      (Inr (canonical sample_ip \<lparr>ep_type = IPV4, ep_host = ''127.0.0.1'', ep_port = 8080\<rparr>), s') \<and>
    sk_content s' = [42] \<and> sk_wBuf s' = []"
proof -
  have "serializeEndpoint sample_ip \<lparr>ep_type = IPV4, ep_host = ''127.0.0.1'', ep_port = 8080\<rparr>
      (replicate 10 0) = Inr (7, [0x01, 127, 0, 0, 1, 0x1F, 0x90, 0, 0, 0])"
    by code_simp
  from endpoint_roundtrip [OF sample_ip_laws this, of
      "\<lparr>sk_rBufs = [[0x01, 127, 0], [0], [1, 0x1F, 0x90, 42]], sk_wBuf = [], sk_end = Asio_code asio_eof, sk_open = True\<rparr>"
      "[42]"]
  show ?thesis by (simp add: sk_ok_def sk_content_def)
qed

text \<open>
  \<^verbatim>\<open>serializeEndpoint\<close> never writes past its target: the message is at most 259 bytes and at most
  as long as the target, and every byte behind it is left as it was.
\<close>

theorem serialize_bounds:
  assumes "ip_laws ip" and "serializeEndpoint ip ep target = Inr (n, buf)"
  shows "n \<le> length target \<and> n \<le> 259 \<and> length buf = length target \<and> drop n buf = drop n target"
proof -
  note p = serialized_prefix [OF assms]
  have "drop n buf = drop n target" using p(4,5) by (metis append_eq_conv_conj)
  moreover have "length (take n buf @ drop n target) = length target"
    using p(2,5) by (simp del: length_take)
  then have "length buf = length target" using p(4) by simp
  ultimately show ?thesis using p by simp
qed

theorem serialize_bounds_witness:
  "(7 :: nat) \<le> length (replicate 10 (0 :: byte)) \<and> (7 :: nat) \<le> 259 \<and>
   length [0x01, 127, 0, 0, 1, 0x1F, 0x90, 0, 0, 0 :: byte] = length (replicate 10 (0 :: byte)) \<and>
   drop 7 [0x01, 127, 0, 0, 1, 0x1F, 0x90, 0, 0, 0 :: byte] = drop 7 (replicate 10 0)"
proof -
  have "serializeEndpoint sample_ip \<lparr>ep_type = IPV4, ep_host = ''127.0.0.1'', ep_port = 8080\<rparr>
      (replicate 10 0) = Inr (7, [0x01, 127, 0, 0, 1, 0x1F, 0x90, 0, 0, 0])"
    by code_simp
  from serialize_bounds [OF sample_ip_laws this] show ?thesis .
qed

end
