(* ===== verification/Pichi_Json.thy ===== *)
theory Pichi_Json
  imports Pichi_Samples
begin

text \<open>
  The JSON layer of the value objects: \<^verbatim>\<open>include/pichi/vo/keys.hpp\<close>, \<^verbatim>\<open>messages.hpp\<close>, \<^verbatim>\<open>parse.hpp\<close>,
  \<^verbatim>\<open>to_json.hpp\<close>, \<^verbatim>\<open>src/vo/parse.cpp\<close> and \<^verbatim>\<open>src/vo/to_json.cpp\<close>.

  A JSON document is the data a \<^verbatim>\<open>rapidjson::Value\<close> holds: an object is the sequence of its members,
  in which \<open>AddMember\<close> appends without looking for a duplicate and a lookup finds the first
  match. The text parser and writer of RapidJSON are a parameter (\<open>json_text\<close>).

  \<^verbatim>\<open>GetString\<close> hands out a C string, so a value ends at its first NUL byte; the model keeps that.

  The locale \<open>vo_codec\<close> is the contract of one kind of value object: whatever \<open>parse\<close> accepts is well
  formed, and \<open>toJson\<close> prints every well-formed value so that \<open>parse\<close> gives it back.
\<close>

section \<open>JSON values\<close>

datatype json =
    JNull
  | JBool bool
  | JInt int
  | JDouble string
  | JString string
  | JArray "json list"
  | JObject "(string \<times> json) list"

record json_text =
  jt_parse :: "string \<Rightarrow> json option"
  jt_write :: "json \<Rightarrow> string"

fun IsObject :: "json \<Rightarrow> bool" where
  "IsObject (JObject _) = True" | "IsObject _ = False"

fun IsArray :: "json \<Rightarrow> bool" where
  "IsArray (JArray _) = True" | "IsArray _ = False"

fun IsString :: "json \<Rightarrow> bool" where
  "IsString (JString _) = True" | "IsString _ = False"

fun IsBool :: "json \<Rightarrow> bool" where
  "IsBool (JBool _) = True" | "IsBool _ = False"

fun IsInt :: "json \<Rightarrow> bool" where
  "IsInt (JInt i) = (- (2 ^ 31) \<le> i \<and> i < 2 ^ 31)" | "IsInt _ = False"

fun GetArray :: "json \<Rightarrow> json list" where
  "GetArray (JArray vs) = vs" | "GetArray _ = []"

fun GetObj :: "json \<Rightarrow> (string \<times> json) list" where
  "GetObj (JObject ms) = ms" | "GetObj _ = []"

fun GetBool :: "json \<Rightarrow> bool" where
  "GetBool (JBool b) = b" | "GetBool _ = False"

fun GetInt :: "json \<Rightarrow> int" where
  "GetInt (JInt i) = i" | "GetInt _ = 0"

definition c_str :: "string \<Rightarrow> string" where
  "c_str s = takeWhile (\<lambda>c. c \<noteq> CHR 0x00) s"

fun GetString :: "json \<Rightarrow> string" where
  "GetString (JString s) = c_str s" | "GetString _ = []"

definition HasMember :: "json \<Rightarrow> string \<Rightarrow> bool" where
  "HasMember v k = (map_of (GetObj v) k \<noteq> None)"

text \<open>\<^verbatim>\<open>v[key]\<close>: the first member of that name, the null value when there is none.\<close>

definition member_of :: "json \<Rightarrow> string \<Rightarrow> json" where
  "member_of v k = (case map_of (GetObj v) k of None \<Rightarrow> JNull | Some x \<Rightarrow> x)"

section \<open>Keys\<close>

fun type_key :: "AdapterType \<Rightarrow> string" where
  "type_key DIRECT = ''direct''"
| "type_key REJECT = ''reject''"
| "type_key SOCKS5 = ''socks5''"
| "type_key HTTP = ''http''"
| "type_key SS = ''ss''"
| "type_key TUNNEL = ''tunnel''"
| "type_key TROJAN = ''trojan''"
| "type_key TRANSP = ''transparent''"
| "type_key DUAL = ''dual''"

fun method_key :: "CryptoMethod \<Rightarrow> string" where
  "method_key AES_128_GCM = ''aes-128-gcm''"
| "method_key AES_192_GCM = ''aes-192-gcm''"
| "method_key AES_256_GCM = ''aes-256-gcm''"
| "method_key CHACHA20_IETF_POLY1305 = ''chacha20-ietf-poly1305''"
| "method_key XCHACHA20_IETF_POLY1305 = ''xchacha20-ietf-poly1305''"

fun delay_key :: "DelayMode \<Rightarrow> string" where
  "delay_key DelayMode.RANDOM = ''random''"
| "delay_key FIXED = ''fixed''"

fun balance_key :: "BalanceType \<Rightarrow> string" where
  "balance_key BalanceType.RANDOM = ''random''"
| "balance_key ROUND_ROBIN = ''round_robin''"
| "balance_key LEAST_CONN = ''least_conn''"

abbreviation endpoint_HOST :: string where "endpoint_HOST \<equiv> ''host''"
abbreviation endpoint_PORT :: string where "endpoint_PORT \<equiv> ''port''"
abbreviation credential_USERNAME :: string where "credential_USERNAME \<equiv> ''username''"
abbreviation credential_PASSWORD :: string where "credential_PASSWORD \<equiv> ''password''"
abbreviation option_PASSWORD :: string where "option_PASSWORD \<equiv> ''password''"
abbreviation option_METHOD :: string where "option_METHOD \<equiv> ''method''"
abbreviation option_DESTINATIONS :: string where "option_DESTINATIONS \<equiv> ''destinations''"
abbreviation option_BALANCE :: string where "option_BALANCE \<equiv> ''balance''"
abbreviation option_MODE :: string where "option_MODE \<equiv> ''mode''"
abbreviation option_DELAY :: string where "option_DELAY \<equiv> ''delay''"
abbreviation option_REMOTE :: string where "option_REMOTE \<equiv> ''remote''"
abbreviation tls_CERT_FILE :: string where "tls_CERT_FILE \<equiv> ''cert_file''"
abbreviation tls_KEY_FILE :: string where "tls_KEY_FILE \<equiv> ''key_file''"
abbreviation tls_INSECURE :: string where "tls_INSECURE \<equiv> ''insecure''"
abbreviation tls_CA_FILE :: string where "tls_CA_FILE \<equiv> ''ca_file''"
abbreviation tls_SERVER_NAME :: string where "tls_SERVER_NAME \<equiv> ''server_name''"
abbreviation tls_SNI :: string where "tls_SNI \<equiv> ''sni''"
abbreviation websocket_PATH :: string where "websocket_PATH \<equiv> ''path''"
abbreviation websocket_HOST :: string where "websocket_HOST \<equiv> ''host''"
abbreviation ingress_TYPE :: string where "ingress_TYPE \<equiv> ''type''"
abbreviation ingress_BIND :: string where "ingress_BIND \<equiv> ''bind''"
abbreviation ingress_OPTION :: string where "ingress_OPTION \<equiv> ''option''"
abbreviation ingress_TLS :: string where "ingress_TLS \<equiv> ''tls''"
abbreviation ingress_CREDENTIALS :: string where "ingress_CREDENTIALS \<equiv> ''credentials''"
abbreviation ingress_WEBSOCKET :: string where "ingress_WEBSOCKET \<equiv> ''websocket''"
abbreviation egress_TYPE :: string where "egress_TYPE \<equiv> ''type''"
abbreviation egress_SERVER :: string where "egress_SERVER \<equiv> ''server''"
abbreviation egress_CREDENTIAL :: string where "egress_CREDENTIAL \<equiv> ''credential''"
abbreviation egress_OPTION :: string where "egress_OPTION \<equiv> ''option''"
abbreviation egress_TLS :: string where "egress_TLS \<equiv> ''tls''"
abbreviation egress_WEBSOCKET :: string where "egress_WEBSOCKET \<equiv> ''websocket''"
abbreviation rule_RANGE :: string where "rule_RANGE \<equiv> ''range''"
abbreviation rule_INGRESS :: string where "rule_INGRESS \<equiv> ''ingress_name''"
abbreviation rule_TYPE :: string where "rule_TYPE \<equiv> ''ingress_type''"
abbreviation rule_PATTERN :: string where "rule_PATTERN \<equiv> ''pattern''"
abbreviation rule_DOMAIN_NAME :: string where "rule_DOMAIN_NAME \<equiv> ''domain''"
abbreviation rule_COUNTRY :: string where "rule_COUNTRY \<equiv> ''country''"
abbreviation rule_RANGE_NR :: string where "rule_RANGE_NR \<equiv> ''range_nr''"
abbreviation rule_COUNTRY_NR :: string where "rule_COUNTRY_NR \<equiv> ''country_nr''"
abbreviation route_DEFAULT :: string where "route_DEFAULT \<equiv> ''default''"
abbreviation route_RULES :: string where "route_RULES \<equiv> ''rules''"
abbreviation error_MESSAGE :: string where "error_MESSAGE \<equiv> ''message''"

section \<open>Messages\<close>

abbreviation OBJ_TYPE_ERROR :: string where "OBJ_TYPE_ERROR \<equiv> ''JSON object required''"
abbreviation ARY_TYPE_ERROR :: string where "ARY_TYPE_ERROR \<equiv> ''JSON array required''"
abbreviation INT_TYPE_ERROR :: string where "INT_TYPE_ERROR \<equiv> ''Integer required''"
abbreviation STR_TYPE_ERROR :: string where "STR_TYPE_ERROR \<equiv> ''String required''"
abbreviation BOOL_TYPE_ERROR :: string where "BOOL_TYPE_ERROR \<equiv> ''Boolean required''"
abbreviation PAIR_TYPE_ERROR :: string where "PAIR_TYPE_ERROR \<equiv> ''Pair type required''"
abbreviation ARY_SIZE_ERROR :: string where "ARY_SIZE_ERROR \<equiv> ''Array size error''"
abbreviation AT_INVALID :: string where "AT_INVALID \<equiv> ''Invalid adapter type string''"
abbreviation CM_INVALID :: string where "CM_INVALID \<equiv> ''Invalid crypto method string''"
abbreviation UINT16_INVALID :: string where "UINT16_INVALID \<equiv> ''Exceed the range of uint16_t [0, 65536)''"
abbreviation DM_INVALID :: string where "DM_INVALID \<equiv> ''Invalid delay mode type string''"
abbreviation DL_INVALID :: string where "DL_INVALID \<equiv> ''Delay time must be in range [0, 300]''"
abbreviation BA_INVALID :: string where "BA_INVALID \<equiv> ''Invalid balance string''"
abbreviation STR_EMPTY :: string where "STR_EMPTY \<equiv> ''Empty string''"
abbreviation MISSING_TYPE_FIELD :: string where "MISSING_TYPE_FIELD \<equiv> ''Missing type field''"
abbreviation MISSING_HOST_FIELD :: string where "MISSING_HOST_FIELD \<equiv> ''Missing host field''"
abbreviation MISSING_BIND_FIELD :: string where "MISSING_BIND_FIELD \<equiv> ''Missing bind field''"
abbreviation MISSING_PORT_FIELD :: string where "MISSING_PORT_FIELD \<equiv> ''Missing port field''"
abbreviation MISSING_METHOD_FIELD :: string where "MISSING_METHOD_FIELD \<equiv> ''Missing method field''"
abbreviation MISSING_UN_FIELD :: string where "MISSING_UN_FIELD \<equiv> ''Missing username field''"
abbreviation MISSING_PW_FIELD :: string where "MISSING_PW_FIELD \<equiv> ''Missing password field''"
abbreviation MISSING_MODE_FIELD :: string where "MISSING_MODE_FIELD \<equiv> ''Missing mode field''"
abbreviation MISSING_CERT_FILE_FIELD :: string where "MISSING_CERT_FILE_FIELD \<equiv> ''Missing cert_file field''"
abbreviation MISSING_KEY_FILE_FIELD :: string where "MISSING_KEY_FILE_FIELD \<equiv> ''Missing key_file field''"
abbreviation MISSING_REMOTE_FIELD :: string where "MISSING_REMOTE_FIELD \<equiv> ''Missing remote field''"
abbreviation MISSING_PATH_FIELD :: string where "MISSING_PATH_FIELD \<equiv> ''Missing remote field''"
abbreviation MISSING_DESTINATIONS_FIELD :: string where "MISSING_DESTINATIONS_FIELD \<equiv> ''Missiong destinations field''"
abbreviation MISSING_BALANCE_FIELD :: string where "MISSING_BALANCE_FIELD \<equiv> ''Missiong balance field''"
abbreviation MISSING_OPTION_FIELD :: string where "MISSING_OPTION_FIELD \<equiv> ''Missing option field''"
abbreviation MISSING_TLS_FIELD :: string where "MISSING_TLS_FIELD \<equiv> ''Missing tls field''"
abbreviation MISSING_CRED_FIELD :: string where "MISSING_CRED_FIELD \<equiv> ''Missing credential field''"
abbreviation MISSING_SERVER_FIELD :: string where "MISSING_SERVER_FIELD \<equiv> ''Missing server field''"
abbreviation TOO_LONG_NAME_PASSWORD :: string where "TOO_LONG_NAME_PASSWORD \<equiv> ''Name or password is too long''"
abbreviation DUPLICATED_ITEMS :: string where "DUPLICATED_ITEMS \<equiv> ''Duplicated items''"

section \<open>Parsing\<close>

definition parse_string :: "json \<Rightarrow> string result" where
  "parse_string v =
     rthen (assertTrue (IsString v) BAD_JSON STR_TYPE_ERROR)
    (let ret = GetString v in
     rthen (assertFalse (ret = []) BAD_JSON STR_EMPTY) (Inr ret))"

definition parse_bool :: "json \<Rightarrow> bool result" where
  "parse_bool v = rthen (assertTrue (IsBool v) BAD_JSON BOOL_TYPE_ERROR) (Inr (GetBool v))"

definition parse_DelayMode :: "json \<Rightarrow> DelayMode result" where
  "parse_DelayMode v =
     rthen (assertTrue (IsString v) BAD_JSON STR_TYPE_ERROR)
    (let str = GetString v in
     if str = delay_key DelayMode.RANDOM then Inr DelayMode.RANDOM
     else if str = delay_key FIXED then Inr FIXED
     else fail_with BAD_JSON DM_INVALID)"

definition parse_AdapterType :: "json \<Rightarrow> AdapterType result" where
  "parse_AdapterType v =
     rthen (assertTrue (IsString v) BAD_JSON STR_TYPE_ERROR)
    (let str = GetString v in
     if str = type_key DIRECT then Inr DIRECT
     else if str = type_key REJECT then Inr REJECT
     else if str = type_key SOCKS5 then Inr SOCKS5
     else if str = type_key HTTP then Inr HTTP
     else if str = type_key SS then Inr SS
     else if str = type_key TUNNEL then Inr TUNNEL
     else if str = type_key TROJAN then Inr TROJAN
     else if str = type_key TRANSP then Inr TRANSP
     else if str = type_key DUAL then Inr DUAL
     else fail_with BAD_JSON AT_INVALID)"

definition parse_CryptoMethod :: "json \<Rightarrow> CryptoMethod result" where
  "parse_CryptoMethod v =
     rthen (assertTrue (IsString v) BAD_JSON STR_TYPE_ERROR)
    (let str = GetString v in
     if str = method_key AES_128_GCM then Inr AES_128_GCM
     else if str = method_key AES_192_GCM then Inr AES_192_GCM
     else if str = method_key AES_256_GCM then Inr AES_256_GCM
     else if str = method_key CHACHA20_IETF_POLY1305 then Inr CHACHA20_IETF_POLY1305
     else if str = method_key XCHACHA20_IETF_POLY1305 then Inr XCHACHA20_IETF_POLY1305
     else fail_with BAD_JSON CM_INVALID)"

definition parse_BalanceType :: "json \<Rightarrow> BalanceType result" where
  "parse_BalanceType v =
     rthen (assertTrue (IsString v) BAD_JSON STR_TYPE_ERROR)
    (let str = GetString v in
     if str = balance_key BalanceType.RANDOM then Inr BalanceType.RANDOM
     else if str = balance_key ROUND_ROBIN then Inr ROUND_ROBIN
     else if str = balance_key LEAST_CONN then Inr LEAST_CONN
     else fail_with BAD_JSON BA_INVALID)"

definition parse_uint16 :: "json \<Rightarrow> u16 result" where
  "parse_uint16 v =
     rthen (assertTrue (IsInt v) BAD_JSON INT_TYPE_ERROR)
    (let uint16 = GetInt v in
     rthen (assertTrue (0 \<le> uint16) BAD_JSON UINT16_INVALID)
    (rthen (assertTrue (uint16 \<le> 65535) BAD_JSON UINT16_INVALID)
    (Inr (of_int uint16))))"

text \<open>
  The two arguments of \<^verbatim>\<open>makeEndpoint\<close> are evaluated from left to right; the language leaves the
  order open, and both orders give the same value and the same error code.
\<close>

definition parse_Endpoint :: "ip_lib \<Rightarrow> json \<Rightarrow> Endpoint result" where
  "parse_Endpoint ip v =
     rthen (assertTrue (IsObject v) BAD_JSON OBJ_TYPE_ERROR)
    (rthen (assertTrue (HasMember v endpoint_HOST) BAD_JSON MISSING_HOST_FIELD)
    (rthen (assertTrue (HasMember v endpoint_PORT) BAD_JSON MISSING_PORT_FIELD)
    (rbind (parse_string (member_of v endpoint_HOST)) (\<lambda>host.
     rbind (parse_uint16 (member_of v endpoint_PORT)) (\<lambda>port.
     makeEndpoint ip host port)))))"

definition parseNameOrPassword :: "json \<Rightarrow> string result" where
  "parseNameOrPassword v =
     rbind (parse_string v) (\<lambda>ret.
     rthen (assertTrue (length ret < 256) BAD_JSON TOO_LONG_NAME_PASSWORD) (Inr ret))"

definition parseDestinantions :: "ip_lib \<Rightarrow> json \<Rightarrow> Endpoint list result" where
  "parseDestinantions ip v =
     rthen (assertTrue (IsObject v) BAD_JSON OBJ_TYPE_ERROR)
    (rthen (assertFalse (length (GetObj v) = 0) BAD_JSON '''')
    (mapM (\<lambda>(name, value).
       rbind (parse_string (JString name)) (\<lambda>host.
       rbind (parse_uint16 value) (\<lambda>port. makeEndpoint ip host port))) (GetObj v)))"

text \<open>The templates \<open>parseArray\<close> (a member that may be missing) and \<open>parse(string_view)\<close>.\<close>

definition parseArray :: "json \<Rightarrow> string \<Rightarrow> (json \<Rightarrow> 'a result) \<Rightarrow> 'a list result" where
  "parseArray root key convert =
     (if \<not> HasMember root key then Inr []
      else rthen (assertTrue (IsArray (member_of root key)) BAD_JSON ARY_TYPE_ERROR)
          (mapM convert (GetArray (member_of root key))))"

definition parse_text :: "json_text \<Rightarrow> (json \<Rightarrow> 'a result) \<Rightarrow> string \<Rightarrow> 'a result" where
  "parse_text jt parse src =
     (case jt_parse jt src of
        None \<Rightarrow> fail_with BAD_JSON ''JSON syntax error''
      | Some doc \<Rightarrow> parse doc)"

section \<open>Printing\<close>

definition toJson_string :: "string \<Rightarrow> json" where
  "toJson_string s = JString s"

definition toJson_DelayMode :: "DelayMode \<Rightarrow> json" where
  "toJson_DelayMode m = toJson_string (delay_key m)"

definition toJson_AdapterType :: "AdapterType \<Rightarrow> json" where
  "toJson_AdapterType t = toJson_string (type_key t)"

definition toJson_CryptoMethod :: "CryptoMethod \<Rightarrow> json" where
  "toJson_CryptoMethod m = toJson_string (method_key m)"

definition toJson_BalanceType :: "BalanceType \<Rightarrow> json" where
  "toJson_BalanceType b = toJson_string (balance_key b)"

definition toJson_uint16 :: "u16 \<Rightarrow> json" where
  "toJson_uint16 p = JInt (uint p)"

definition toJson_Endpoint :: "Endpoint \<Rightarrow> json" where
  "toJson_Endpoint ep = JObject
     [(endpoint_HOST, toJson_string (ep_host ep)), (endpoint_PORT, toJson_uint16 (ep_port ep))]"

text \<open>\<^verbatim>\<open>toJson(first, last, alloc)\<close> over plain values, and \<^verbatim>\<open>vo::toString\<close> (the text ends at a NUL).\<close>

definition toJson_array :: "('a \<Rightarrow> json) \<Rightarrow> 'a list \<Rightarrow> json" where
  "toJson_array f xs = JArray (map f xs)"

definition json_toString :: "json_text \<Rightarrow> json \<Rightarrow> string" where
  "json_toString jt v = c_str (jt_write jt v)"

text \<open>The error object of the API.\<close>

definition toJson_Error :: "string \<Rightarrow> json" where
  "toJson_Error message = JObject [(error_MESSAGE, JString message)]"

section \<open>Well-formed values\<close>

definition wf_string :: "string \<Rightarrow> bool" where
  "wf_string s \<longleftrightarrow> s \<noteq> [] \<and> CHR 0x00 \<notin> set s"

definition wf_endpoint :: "ip_lib \<Rightarrow> Endpoint \<Rightarrow> bool" where
  "wf_endpoint ip ep \<longleftrightarrow> wf_string (ep_host ep) \<and>
     detectHostType ip (ep_host ep) = Inr (ep_type ep)"

text \<open>A failure that the API reports as a client error: 400 for syntax, 422 for semantics.\<close>

definition client_error :: "exn \<Rightarrow> bool" where
  "client_error e \<longleftrightarrow> (\<exists>msg. e = SystemError (Pichi_code BAD_JSON) msg \<or>
     e = SystemError (Pichi_code SEMANTIC_ERROR) msg)"

section \<open>The contract of a value object\<close>

locale vo_codec =
  fixes parse :: "json \<Rightarrow> 'a result"
    and toJson :: "'a \<Rightarrow> json result"
    and wf :: "'a \<Rightarrow> bool"
  assumes parse_wf: "parse v = Inr x \<Longrightarrow> wf x"
    and toJson_parse: "wf x \<Longrightarrow> \<exists>j. toJson x = Inr j \<and> parse j = Inr x"
    and parse_error: "parse v = Inl e \<Longrightarrow> client_error e"
begin

lemma reparse: "parse v = Inr x \<Longrightarrow> \<exists>j. toJson x = Inr j \<and> parse j = Inr x"
  using parse_wf toJson_parse by blast

lemma wf_iff: "wf x \<longleftrightarrow> (\<exists>v. parse v = Inr x)"
  using parse_wf toJson_parse by blast

lemma toJson_inject: "wf x \<Longrightarrow> wf y \<Longrightarrow> toJson x = toJson y \<Longrightarrow> x = y"
  using toJson_parse [of x] toJson_parse [of y] by auto

lemma toJson_total: "wf x \<Longrightarrow> toJson x = Inr j \<Longrightarrow> parse j = Inr x"
  using toJson_parse [of x] by auto

lemma mapM_wf: "mapM parse vs = Inr xs \<Longrightarrow> \<forall>x \<in> set xs. wf x"
  using mapM_Inr_set [of parse vs xs] parse_wf by blast

lemma mapM_error: "mapM parse vs = Inl e \<Longrightarrow> client_error e"
  using mapM_Inl [of parse vs e] parse_error by blast

lemma mapM_roundtrip:
  "\<forall>x \<in> set xs. wf x \<Longrightarrow> \<exists>js. mapM toJson xs = Inr js \<and> mapM parse js = Inr xs"
proof (induction xs)
  case Nil
  show ?case by simp
next
  case (Cons x xs)
  then obtain js where "mapM toJson xs = Inr js" "mapM parse js = Inr xs" by auto
  moreover obtain j where "toJson x = Inr j" "parse j = Inr x"
    using toJson_parse [of x] Cons.prems by auto
  ultimately show ?case by (auto intro!: exI [of _ "j # js"])
qed

lemma parseArray_wf: "parseArray v k parse = Inr xs \<Longrightarrow> \<forall>x \<in> set xs. wf x"
  using mapM_wf by (auto simp: parseArray_def result_simps split: if_splits)

lemma parseArray_error: "parseArray v k parse = Inl e \<Longrightarrow> client_error e"
  using mapM_error by (auto simp: parseArray_def result_simps client_error_def split: if_splits)

end

lemma client_error_simps [simp]:
  "client_error (SystemError (Pichi_code BAD_JSON) msg)"
  "client_error (SystemError (Pichi_code SEMANTIC_ERROR) msg)"
  by (simp_all add: client_error_def)

subsection \<open>Basic codecs\<close>

lemma c_str_wf: "wf_string s \<Longrightarrow> c_str s = s"
  by (auto simp: wf_string_def c_str_def takeWhile_eq_all_conv)

lemma wf_c_str: "c_str s \<noteq> [] \<Longrightarrow> wf_string (c_str s)"
  by (auto simp: wf_string_def c_str_def dest: set_takeWhileD)

lemma member_simps [simp]:
  "HasMember (JObject ms) k \<longleftrightarrow> map_of ms k \<noteq> None"
  "member_of (JObject ms) k = (case map_of ms k of None \<Rightarrow> JNull | Some x \<Rightarrow> x)"
  by (simp_all add: HasMember_def member_of_def)

lemma parse_string_Inr: "parse_string v = Inr s \<longleftrightarrow>
  (\<exists>t. v = JString t \<and> s = c_str t \<and> s \<noteq> [])"
  by (cases v) (auto simp: parse_string_def result_simps Let_def)

lemma parse_string_JString [simp]: "wf_string s \<Longrightarrow> parse_string (JString s) = Inr s"
  by (auto simp: parse_string_Inr c_str_wf) (simp add: wf_string_def)

interpretation str: vo_codec parse_string "\<lambda>s. Inr (toJson_string s)" wf_string
proof
  show "parse_string v = Inr s \<Longrightarrow> wf_string s" for v s
    using wf_c_str by (auto simp: parse_string_Inr)
  show "parse_string v = Inl e \<Longrightarrow> client_error e" for v e
    by (auto simp: parse_string_def result_simps Let_def client_error_def)
qed (simp add: toJson_string_def)

interpretation adapter: vo_codec parse_AdapterType "\<lambda>t. Inr (toJson_AdapterType t)" "\<lambda>_. True"
proof
  show "\<exists>j. Inr (toJson_AdapterType t) = Inr j \<and> parse_AdapterType j = Inr t" for t
    by (cases t) (simp_all add: parse_AdapterType_def toJson_AdapterType_def toJson_string_def c_str_def)
  show "parse_AdapterType v = Inl e \<Longrightarrow> client_error e" for v e
    by (auto simp: parse_AdapterType_def result_simps Let_def split: if_splits)
qed simp

interpretation crypto: vo_codec parse_CryptoMethod "\<lambda>m. Inr (toJson_CryptoMethod m)" "\<lambda>_. True"
proof
  show "\<exists>j. Inr (toJson_CryptoMethod m) = Inr j \<and> parse_CryptoMethod j = Inr m" for m
    by (cases m) (simp_all add: parse_CryptoMethod_def toJson_CryptoMethod_def toJson_string_def c_str_def)
  show "parse_CryptoMethod v = Inl e \<Longrightarrow> client_error e" for v e
    by (auto simp: parse_CryptoMethod_def result_simps Let_def split: if_splits)
qed simp

interpretation delay: vo_codec parse_DelayMode "\<lambda>m. Inr (toJson_DelayMode m)" "\<lambda>_. True"
proof
  show "\<exists>j. Inr (toJson_DelayMode m) = Inr j \<and> parse_DelayMode j = Inr m" for m
    by (cases m) (simp_all add: parse_DelayMode_def toJson_DelayMode_def toJson_string_def c_str_def)
  show "parse_DelayMode v = Inl e \<Longrightarrow> client_error e" for v e
    by (auto simp: parse_DelayMode_def result_simps Let_def split: if_splits)
qed simp

interpretation balance: vo_codec parse_BalanceType "\<lambda>b. Inr (toJson_BalanceType b)" "\<lambda>_. True"
proof
  show "\<exists>j. Inr (toJson_BalanceType b) = Inr j \<and> parse_BalanceType j = Inr b" for b
    by (cases b) (simp_all add: parse_BalanceType_def toJson_BalanceType_def toJson_string_def c_str_def)
  show "parse_BalanceType v = Inl e \<Longrightarrow> client_error e" for v e
    by (auto simp: parse_BalanceType_def result_simps Let_def split: if_splits)
qed simp

interpretation uint16: vo_codec parse_uint16 "\<lambda>p. Inr (toJson_uint16 p)" "\<lambda>_. True"
proof
  show "\<exists>j. Inr (toJson_uint16 p) = Inr j \<and> parse_uint16 j = Inr p" for p
    using uint_u16_bound [of p] by (simp add: toJson_uint16_def parse_uint16_def)
  show "parse_uint16 v = Inl e \<Longrightarrow> client_error e" for v e
    by (auto simp: parse_uint16_def result_simps Let_def)
qed simp

interpretation boolean: vo_codec parse_bool "\<lambda>b. Inr (JBool b)" "\<lambda>_. True"
  by unfold_locales (auto simp: parse_bool_def result_simps)

lemma makeEndpoint_Inr: "makeEndpoint ip host port = Inr ep \<longleftrightarrow>
  ep_host ep = host \<and> ep_port ep = port \<and> detectHostType ip host = Inr (ep_type ep)"
  by (cases ep) (auto simp: makeEndpoint_def result_simps)

lemma detectHostType_Inl: "detectHostType ip host = Inl e \<Longrightarrow> host = []"
  by (auto simp: detectHostType_def result_simps)

lemma makeEndpoint_Inl: "makeEndpoint ip host port = Inl e \<Longrightarrow> host = []"
  using detectHostType_Inl by (auto simp: makeEndpoint_def result_simps)

lemmas basic_codecs =
  str.toJson_total adapter.toJson_total crypto.toJson_total delay.toJson_total
  balance.toJson_total uint16.toJson_total boolean.toJson_total

lemma parse_print_basic [simp]:
  "parse_AdapterType (toJson_AdapterType t) = Inr t"
  "parse_CryptoMethod (toJson_CryptoMethod m) = Inr m"
  "parse_DelayMode (toJson_DelayMode d) = Inr d"
  "parse_BalanceType (toJson_BalanceType b) = Inr b"
  "parse_uint16 (toJson_uint16 p) = Inr p"
  "parse_bool (JBool x) = Inr x"
  "wf_string s \<Longrightarrow> parse_string (toJson_string s) = Inr s"
  by (simp_all add: basic_codecs)

interpretation endpoint: vo_codec "parse_Endpoint ip" "\<lambda>ep. Inr (toJson_Endpoint ep)" "wf_endpoint ip"
  for ip
proof
  show "parse_Endpoint ip v = Inr ep \<Longrightarrow> wf_endpoint ip ep" for v ep
    using str.parse_wf
    by (auto simp: parse_Endpoint_def result_simps makeEndpoint_Inr wf_endpoint_def)
  show "wf_endpoint ip ep \<Longrightarrow>
      \<exists>j. Inr (toJson_Endpoint ep) = Inr j \<and> parse_Endpoint ip j = Inr ep" for ep
    by (simp add: parse_Endpoint_def toJson_Endpoint_def wf_endpoint_def makeEndpoint_Inr)
  show "parse_Endpoint ip v = Inl e \<Longrightarrow> client_error e" for v e
    using str.parse_wf str.parse_error uint16.parse_error makeEndpoint_Inl [of ip]
    by (fastforce simp: parse_Endpoint_def result_simps wf_string_def)
qed

lemma parse_print_endpoint [simp]:
  "wf_endpoint ip ep \<Longrightarrow> parse_Endpoint ip (toJson_Endpoint ep) = Inr ep"
  by (rule endpoint.toJson_total) auto

end
