(* ===== verification/Pichi_Options.thy ===== *)
theory Pichi_Options
  imports Pichi_Json
begin

text \<open>
  The option objects of ingresses and egresses (\<^verbatim>\<open>include/pichi/vo/options.hpp\<close>,
  \<^verbatim>\<open>src/vo/options.cpp\<close>): one record per structure, with its parser, its printer, its equality and
  its well-formedness (what the parser establishes), and the interpretation of \<open>vo_codec\<close> that
  discharges the round trip.
\<close>

section \<open>Optional members\<close>

definition parse_optional :: "json \<Rightarrow> string \<Rightarrow> (json \<Rightarrow> 'a result) \<Rightarrow> 'a option result" where
  "parse_optional v k p =
     (if HasMember v k then rbind (p (member_of v k)) (\<lambda>x. Inr (Some x)) else Inr None)"

definition optional_member :: "string \<Rightarrow> ('a \<Rightarrow> json) \<Rightarrow> 'a option \<Rightarrow> (string \<times> json) list" where
  "optional_member k f o' = (case o' of None \<Rightarrow> [] | Some x \<Rightarrow> [(k, f x)])"

section \<open>Shadowsocks\<close>

record ShadowsocksOption =
  ss_password :: string
  ss_method :: CryptoMethod

definition parse_ShadowsocksOption :: "json \<Rightarrow> ShadowsocksOption result" where
  "parse_ShadowsocksOption v =
     rthen (assertTrue (IsObject v) BAD_JSON OBJ_TYPE_ERROR)
    (rthen (assertTrue (HasMember v option_PASSWORD) BAD_JSON MISSING_PW_FIELD)
    (rthen (assertTrue (HasMember v option_METHOD) BAD_JSON MISSING_METHOD_FIELD)
    (rbind (parse_string (member_of v option_PASSWORD)) (\<lambda>pw.
     rbind (parse_CryptoMethod (member_of v option_METHOD)) (\<lambda>m.
     Inr \<lparr>ss_password = pw, ss_method = m\<rparr>)))))"

definition toJson_ShadowsocksOption :: "ShadowsocksOption \<Rightarrow> json" where
  "toJson_ShadowsocksOption opt = JObject
     [(option_PASSWORD, toJson_string (ss_password opt)),
      (option_METHOD, toJson_CryptoMethod (ss_method opt))]"

definition ShadowsocksOption_eq :: "ShadowsocksOption \<Rightarrow> ShadowsocksOption \<Rightarrow> bool" where
  "ShadowsocksOption_eq l r \<longleftrightarrow> ss_password l = ss_password r \<and> ss_method l = ss_method r"

section \<open>Tunnel\<close>

record TunnelOption =
  tn_destinations :: "Endpoint list"
  tn_balance :: BalanceType

definition parse_TunnelOption :: "ip_lib \<Rightarrow> json \<Rightarrow> TunnelOption result" where
  "parse_TunnelOption ip v =
     rthen (assertTrue (IsObject v) BAD_JSON OBJ_TYPE_ERROR)
    (rthen (assertTrue (HasMember v option_DESTINATIONS) BAD_JSON MISSING_DESTINATIONS_FIELD)
    (rthen (assertTrue (IsArray (member_of v option_DESTINATIONS)) BAD_JSON ARY_TYPE_ERROR)
    (rthen (assertFalse (GetArray (member_of v option_DESTINATIONS) = []) BAD_JSON ARY_SIZE_ERROR)
    (rthen (assertTrue (HasMember v option_BALANCE) BAD_JSON MISSING_BALANCE_FIELD)
    (rbind (mapM (parse_Endpoint ip) (GetArray (member_of v option_DESTINATIONS))) (\<lambda>ds.
     rbind (parse_BalanceType (member_of v option_BALANCE)) (\<lambda>b.
     Inr \<lparr>tn_destinations = ds, tn_balance = b\<rparr>)))))))"

definition toJson_TunnelOption :: "TunnelOption \<Rightarrow> json result" where
  "toJson_TunnelOption opt =
     rthen (assertFalse (tn_destinations opt = []) MISC '''')
    (Inr (JObject
       [(option_DESTINATIONS, JArray (map toJson_Endpoint (tn_destinations opt))),
        (option_BALANCE, toJson_BalanceType (tn_balance opt))]))"

definition TunnelOption_eq :: "TunnelOption \<Rightarrow> TunnelOption \<Rightarrow> bool" where
  "TunnelOption_eq l r \<longleftrightarrow>
     list_all2 endpoint_eq (tn_destinations l) (tn_destinations r) \<and> tn_balance l = tn_balance r"

section \<open>Reject\<close>

record RejectOption =
  rj_mode :: DelayMode
  rj_delay :: "u16 option"

definition parse_RejectOption :: "json \<Rightarrow> RejectOption result" where
  "parse_RejectOption v =
     rthen (assertTrue (IsObject v) BAD_JSON OBJ_TYPE_ERROR)
    (rthen (assertTrue (HasMember v option_MODE) BAD_JSON MISSING_MODE_FIELD)
    (rbind (parse_DelayMode (member_of v option_MODE)) (\<lambda>m.
     if m = FIXED then
       rbind (if HasMember v option_DELAY then parse_uint16 (member_of v option_DELAY) else Inr 0)
         (\<lambda>d. rthen (assertTrue (d \<le> 300) BAD_JSON DL_INVALID)
                (Inr \<lparr>rj_mode = m, rj_delay = Some d\<rparr>))
     else Inr \<lparr>rj_mode = m, rj_delay = None\<rparr>)))"

text \<open>An empty optional is less than every value, so only a present delay can exceed the bound.\<close>

definition toJson_RejectOption :: "RejectOption \<Rightarrow> json result" where
  "toJson_RejectOption opt =
     (if rj_mode opt = FIXED then
        rthen (assertTrue (has_value (rj_delay opt)) MISC '''')
       (rthen (assertTrue (case rj_delay opt of None \<Rightarrow> True | Some d \<Rightarrow> d \<le> 300) MISC '''')
       (rbind (deref (rj_delay opt)) (\<lambda>d.
        Inr (JObject [(option_MODE, toJson_DelayMode (rj_mode opt)),
                      (option_DELAY, toJson_uint16 d)]))))
      else Inr (JObject [(option_MODE, toJson_DelayMode (rj_mode opt))]))"

definition RejectOption_eq :: "RejectOption \<Rightarrow> RejectOption \<Rightarrow> bool" where
  "RejectOption_eq l r \<longleftrightarrow> rj_mode l = rj_mode r \<and> (rj_mode l \<noteq> FIXED \<or> rj_delay l = rj_delay r)"

section \<open>Trojan\<close>

record TrojanOption =
  tj_remote :: Endpoint

definition parse_TrojanOption :: "ip_lib \<Rightarrow> json \<Rightarrow> TrojanOption result" where
  "parse_TrojanOption ip v =
     rthen (assertTrue (IsObject v) BAD_JSON OBJ_TYPE_ERROR)
    (rthen (assertTrue (HasMember v option_REMOTE) BAD_JSON MISSING_REMOTE_FIELD)
    (rbind (parse_Endpoint ip (member_of v option_REMOTE)) (\<lambda>r. Inr \<lparr>tj_remote = r\<rparr>)))"

definition toJson_TrojanOption :: "TrojanOption \<Rightarrow> json" where
  "toJson_TrojanOption opt = JObject [(option_REMOTE, toJson_Endpoint (tj_remote opt))]"

definition TrojanOption_eq :: "TrojanOption \<Rightarrow> TrojanOption \<Rightarrow> bool" where
  "TrojanOption_eq l r \<longleftrightarrow> endpoint_eq (tj_remote l) (tj_remote r)"

section \<open>TLS\<close>

record TlsIngressOption =
  ti_certFile :: string
  ti_keyFile :: string

definition parse_TlsIngressOption :: "json \<Rightarrow> TlsIngressOption result" where
  "parse_TlsIngressOption v =
     rthen (assertTrue (IsObject v) BAD_JSON OBJ_TYPE_ERROR)
    (rthen (assertTrue (HasMember v tls_CERT_FILE) BAD_JSON MISSING_CERT_FILE_FIELD)
    (rthen (assertTrue (HasMember v tls_KEY_FILE) BAD_JSON MISSING_KEY_FILE_FIELD)
    (rbind (parse_string (member_of v tls_CERT_FILE)) (\<lambda>c.
     rbind (parse_string (member_of v tls_KEY_FILE)) (\<lambda>k.
     Inr \<lparr>ti_certFile = c, ti_keyFile = k\<rparr>)))))"

definition toJson_TlsIngressOption :: "TlsIngressOption \<Rightarrow> json" where
  "toJson_TlsIngressOption opt = JObject
     [(tls_CERT_FILE, toJson_string (ti_certFile opt)),
      (tls_KEY_FILE, toJson_string (ti_keyFile opt))]"

definition TlsIngressOption_eq :: "TlsIngressOption \<Rightarrow> TlsIngressOption \<Rightarrow> bool" where
  "TlsIngressOption_eq l r \<longleftrightarrow> ti_keyFile l = ti_keyFile r \<and> ti_certFile l = ti_certFile r"

record TlsEgressOption =
  te_insecure :: bool
  te_caFile :: "string option"
  te_serverName :: "string option"
  te_sni :: "string option"

definition parse_TlsEgressOption :: "json \<Rightarrow> TlsEgressOption result" where
  "parse_TlsEgressOption v =
     rthen (assertTrue (IsObject v) BAD_JSON OBJ_TYPE_ERROR)
    (rbind (if HasMember v tls_INSECURE then parse_bool (member_of v tls_INSECURE) else Inr False)
      (\<lambda>insecure.
     rbind (parse_optional v tls_SNI parse_string) (\<lambda>sni.
     if \<not> insecure then
       rbind (parse_optional v tls_CA_FILE parse_string) (\<lambda>ca.
       rbind (parse_optional v tls_SERVER_NAME parse_string) (\<lambda>sn.
       Inr \<lparr>te_insecure = insecure, te_caFile = ca, te_serverName = sn, te_sni = sni\<rparr>))
     else Inr \<lparr>te_insecure = insecure, te_caFile = None, te_serverName = None, te_sni = sni\<rparr>)))"

definition toJson_TlsEgressOption :: "TlsEgressOption \<Rightarrow> json" where
  "toJson_TlsEgressOption opt = JObject
     ([(tls_INSECURE, JBool (te_insecure opt))] @
      optional_member tls_SNI toJson_string (te_sni opt) @
      (if \<not> te_insecure opt then
         optional_member tls_CA_FILE toJson_string (te_caFile opt) @
         optional_member tls_SERVER_NAME toJson_string (te_serverName opt)
       else []))"

definition TlsEgressOption_eq :: "TlsEgressOption \<Rightarrow> TlsEgressOption \<Rightarrow> bool" where
  "TlsEgressOption_eq l r \<longleftrightarrow>
     (if te_sni l \<noteq> te_sni r then False
      else te_insecure l = te_insecure r \<and>
           (te_insecure l \<or> te_caFile l = te_caFile r \<and> te_serverName l = te_serverName r))"

section \<open>Websocket\<close>

record WebsocketOption =
  ws_path :: string
  ws_host :: "string option"

definition parse_WebsocketOption :: "json \<Rightarrow> WebsocketOption result" where
  "parse_WebsocketOption v =
     rthen (assertTrue (IsObject v) BAD_JSON OBJ_TYPE_ERROR)
    (rthen (assertTrue (HasMember v websocket_PATH) BAD_JSON MISSING_PATH_FIELD)
    (rbind (parse_string (member_of v websocket_PATH)) (\<lambda>p.
     rbind (parse_optional v websocket_HOST parse_string) (\<lambda>h.
     Inr \<lparr>ws_path = p, ws_host = h\<rparr>))))"

definition toJson_WebsocketOption :: "WebsocketOption \<Rightarrow> json" where
  "toJson_WebsocketOption opt = JObject
     ([(websocket_PATH, toJson_string (ws_path opt))] @
      optional_member websocket_HOST toJson_string (ws_host opt))"

definition WebsocketOption_eq :: "WebsocketOption \<Rightarrow> WebsocketOption \<Rightarrow> bool" where
  "WebsocketOption_eq l r \<longleftrightarrow> ws_path l = ws_path r \<and> ws_host l = ws_host r"

section \<open>Well-formed options\<close>

definition wf_optional :: "('a \<Rightarrow> bool) \<Rightarrow> 'a option \<Rightarrow> bool" where
  "wf_optional P o' = (case o' of None \<Rightarrow> True | Some x \<Rightarrow> P x)"

definition wf_ShadowsocksOption :: "ShadowsocksOption \<Rightarrow> bool" where
  "wf_ShadowsocksOption opt \<longleftrightarrow> wf_string (ss_password opt)"

definition wf_TunnelOption :: "ip_lib \<Rightarrow> TunnelOption \<Rightarrow> bool" where
  "wf_TunnelOption ip opt \<longleftrightarrow> tn_destinations opt \<noteq> [] \<and> list_all (wf_endpoint ip) (tn_destinations opt)"

definition wf_RejectOption :: "RejectOption \<Rightarrow> bool" where
  "wf_RejectOption opt \<longleftrightarrow>
     (case rj_delay opt of None \<Rightarrow> rj_mode opt = DelayMode.RANDOM
                         | Some d \<Rightarrow> rj_mode opt = FIXED \<and> d \<le> 300)"

definition wf_TrojanOption :: "ip_lib \<Rightarrow> TrojanOption \<Rightarrow> bool" where
  "wf_TrojanOption ip opt \<longleftrightarrow> wf_endpoint ip (tj_remote opt)"

definition wf_TlsIngressOption :: "TlsIngressOption \<Rightarrow> bool" where
  "wf_TlsIngressOption opt \<longleftrightarrow> wf_string (ti_certFile opt) \<and> wf_string (ti_keyFile opt)"

definition wf_TlsEgressOption :: "TlsEgressOption \<Rightarrow> bool" where
  "wf_TlsEgressOption opt \<longleftrightarrow>
     wf_optional wf_string (te_caFile opt) \<and> wf_optional wf_string (te_serverName opt) \<and>
     wf_optional wf_string (te_sni opt) \<and>
     (te_insecure opt \<longrightarrow> te_caFile opt = None \<and> te_serverName opt = None)"

definition wf_WebsocketOption :: "WebsocketOption \<Rightarrow> bool" where
  "wf_WebsocketOption opt \<longleftrightarrow> wf_string (ws_path opt) \<and> wf_optional wf_string (ws_host opt)"

named_theorems option_defs \<open>the parsers, printers and well-formedness of the option objects\<close>

lemmas [option_defs] =
  parse_optional_def optional_member_def wf_optional_def
  parse_ShadowsocksOption_def toJson_ShadowsocksOption_def wf_ShadowsocksOption_def
  parse_TunnelOption_def toJson_TunnelOption_def wf_TunnelOption_def
  parse_RejectOption_def toJson_RejectOption_def wf_RejectOption_def
  parse_TrojanOption_def toJson_TrojanOption_def wf_TrojanOption_def
  parse_TlsIngressOption_def toJson_TlsIngressOption_def wf_TlsIngressOption_def
  parse_TlsEgressOption_def toJson_TlsEgressOption_def wf_TlsEgressOption_def
  parse_WebsocketOption_def toJson_WebsocketOption_def wf_WebsocketOption_def

lemmas basic_wf = str.parse_wf endpoint.parse_wf

lemmas basic_errors = str.parse_error adapter.parse_error crypto.parse_error delay.parse_error
  balance.parse_error uint16.parse_error boolean.parse_error endpoint.parse_error
  endpoint.mapM_error

lemma parse_optional_wf: "parse_optional v k parse_string = Inr x \<Longrightarrow> wf_optional wf_string x"
  using str.parse_wf by (auto simp: parse_optional_def wf_optional_def result_simps split: if_splits)

lemma parse_optional_Inl: "parse_optional v k p = Inl e \<Longrightarrow> p (member_of v k) = Inl e"
  by (auto simp: parse_optional_def result_simps split: if_splits)

lemma mapM_parse_endpoints [simp]: "list_all (wf_endpoint ip) eps \<Longrightarrow>
  mapM (parse_Endpoint ip) (map toJson_Endpoint eps) = Inr eps"
  using mapM_map_total [of eps "parse_Endpoint ip" toJson_Endpoint id] by (simp add: list_all_iff)

lemma mapM_endpoints_wf:
  "mapM (parse_Endpoint ip) vs = Inr eps \<Longrightarrow> list_all (wf_endpoint ip) eps"
  using endpoint.mapM_wf by (auto simp: list_all_iff)

section \<open>Every option satisfies the contract\<close>

interpretation ss_opt: vo_codec parse_ShadowsocksOption "\<lambda>x. Inr (toJson_ShadowsocksOption x)"
  wf_ShadowsocksOption
  by unfold_locales (auto simp: option_defs result_simps intro: basic_wf basic_errors)

interpretation tunnel_opt: vo_codec "parse_TunnelOption ip" toJson_TunnelOption "wf_TunnelOption ip"
  for ip
proof
  show "parse_TunnelOption ip v = Inr x \<Longrightarrow> wf_TunnelOption ip x" for v x
    using mapM_Inr_length [of "parse_Endpoint ip"] mapM_endpoints_wf
    by (fastforce simp: option_defs result_simps)
  show "wf_TunnelOption ip x \<Longrightarrow>
      \<exists>j. toJson_TunnelOption x = Inr j \<and> parse_TunnelOption ip j = Inr x" for x
    by (auto simp: option_defs)
  show "parse_TunnelOption ip v = Inl e \<Longrightarrow> client_error e" for v e
    by (auto simp: option_defs result_simps intro: basic_errors)
qed

interpretation reject_opt: vo_codec parse_RejectOption toJson_RejectOption wf_RejectOption
proof
  show "parse_RejectOption v = Inr x \<Longrightarrow> wf_RejectOption x" for v x
    by (auto simp: option_defs result_simps split: if_splits; metis DelayMode.exhaust)
  show "wf_RejectOption x \<Longrightarrow> \<exists>j. toJson_RejectOption x = Inr j \<and> parse_RejectOption j = Inr x" for x
    by (cases x; cases "rj_delay x") (auto simp: option_defs)
  show "parse_RejectOption v = Inl e \<Longrightarrow> client_error e" for v e
    by (auto simp: option_defs result_simps intro: basic_errors split: if_splits)
qed

interpretation trojan_opt: vo_codec "parse_TrojanOption ip" "\<lambda>x. Inr (toJson_TrojanOption x)"
  "wf_TrojanOption ip" for ip
  by unfold_locales (auto simp: option_defs result_simps intro: basic_wf basic_errors)

interpretation tls_in_opt: vo_codec parse_TlsIngressOption "\<lambda>x. Inr (toJson_TlsIngressOption x)"
  wf_TlsIngressOption
  by unfold_locales (auto simp: option_defs result_simps intro: basic_wf basic_errors)

interpretation tls_out_opt: vo_codec parse_TlsEgressOption "\<lambda>x. Inr (toJson_TlsEgressOption x)"
  wf_TlsEgressOption
proof
  show "parse_TlsEgressOption v = Inr x \<Longrightarrow> wf_TlsEgressOption x" for v x
    using parse_optional_wf
    by (auto simp: parse_TlsEgressOption_def wf_TlsEgressOption_def result_simps wf_optional_def
        split: if_splits)
  show "wf_TlsEgressOption x \<Longrightarrow>
      \<exists>j. Inr (toJson_TlsEgressOption x) = Inr j \<and> parse_TlsEgressOption j = Inr x" for x
    by (cases x) (auto simp: option_defs split: option.splits)
  show "parse_TlsEgressOption v = Inl e \<Longrightarrow> client_error e" for v e
    by (auto simp: parse_TlsEgressOption_def result_simps
        dest!: parse_optional_Inl intro: basic_errors split: if_splits)
qed

interpretation ws_opt: vo_codec parse_WebsocketOption "\<lambda>x. Inr (toJson_WebsocketOption x)"
  wf_WebsocketOption
proof
  show "parse_WebsocketOption v = Inr x \<Longrightarrow> wf_WebsocketOption x" for v x
    using parse_optional_wf str.parse_wf
    by (auto simp: parse_WebsocketOption_def wf_WebsocketOption_def result_simps)
  show "wf_WebsocketOption x \<Longrightarrow>
      \<exists>j. Inr (toJson_WebsocketOption x) = Inr j \<and> parse_WebsocketOption j = Inr x" for x
    by (cases x) (auto simp: option_defs split: option.splits)
  show "parse_WebsocketOption v = Inl e \<Longrightarrow> client_error e" for v e
    by (auto simp: parse_WebsocketOption_def result_simps
        dest!: parse_optional_Inl intro: basic_errors)
qed

lemmas option_errors = ss_opt.parse_error tunnel_opt.parse_error reject_opt.parse_error
  trojan_opt.parse_error tls_in_opt.parse_error tls_out_opt.parse_error ws_opt.parse_error

lemmas option_wfs = ss_opt.parse_wf tunnel_opt.parse_wf reject_opt.parse_wf
  trojan_opt.parse_wf tls_in_opt.parse_wf tls_out_opt.parse_wf ws_opt.parse_wf

lemma parse_print_options [simp]:
  "wf_ShadowsocksOption a \<Longrightarrow> parse_ShadowsocksOption (toJson_ShadowsocksOption a) = Inr a"
  "wf_TrojanOption ip b \<Longrightarrow> parse_TrojanOption ip (toJson_TrojanOption b) = Inr b"
  "wf_TlsIngressOption c \<Longrightarrow> parse_TlsIngressOption (toJson_TlsIngressOption c) = Inr c"
  "wf_TlsEgressOption d \<Longrightarrow> parse_TlsEgressOption (toJson_TlsEgressOption d) = Inr d"
  "wf_WebsocketOption e \<Longrightarrow> parse_WebsocketOption (toJson_WebsocketOption e) = Inr e"
  by (simp_all add: ss_opt.toJson_total trojan_opt.toJson_total tls_in_opt.toJson_total
      tls_out_opt.toJson_total ws_opt.toJson_total)

section \<open>The equality operators\<close>

text \<open>
  On well-formed values the hand-written equality of each option is equality; the fields it
  leaves out (the delay of a random rejection, the certificates of an insecure connection) are
  empty there.
\<close>

lemma option_eq_iff:
  "ShadowsocksOption_eq a a' \<longleftrightarrow> a = a'"
  "TunnelOption_eq b b' \<longleftrightarrow> b = b'"
  "TrojanOption_eq c c' \<longleftrightarrow> c = c'"
  "TlsIngressOption_eq d d' \<longleftrightarrow> d = d'"
  "WebsocketOption_eq e e' \<longleftrightarrow> e = e'"
proof -
  have "endpoint_eq = (=)" by (simp add: fun_eq_iff endpoint_eq_iff)
  then show "TunnelOption_eq b b' \<longleftrightarrow> b = b'"
    by (cases b; cases b') (simp add: TunnelOption_eq_def list.rel_eq)
  show "ShadowsocksOption_eq a a' \<longleftrightarrow> a = a'"
    by (cases a; cases a') (simp add: ShadowsocksOption_eq_def)
  show "TrojanOption_eq c c' \<longleftrightarrow> c = c'"
    by (cases c; cases c') (simp add: TrojanOption_eq_def endpoint_eq_iff)
  show "TlsIngressOption_eq d d' \<longleftrightarrow> d = d'"
    by (cases d; cases d') (auto simp: TlsIngressOption_eq_def)
  show "WebsocketOption_eq e e' \<longleftrightarrow> e = e'"
    by (cases e; cases e') (simp add: WebsocketOption_eq_def)
qed

lemma RejectOption_eq_iff:
  assumes "wf_RejectOption l" and "wf_RejectOption r"
  shows "RejectOption_eq l r \<longleftrightarrow> l = r"
  using assms by (cases l; cases r) (auto simp: RejectOption_eq_def wf_RejectOption_def split: option.splits)

lemma TlsEgressOption_eq_iff:
  assumes "wf_TlsEgressOption l" and "wf_TlsEgressOption r"
  shows "TlsEgressOption_eq l r \<longleftrightarrow> l = r"
  using assms by (cases l; cases r) (auto simp: TlsEgressOption_eq_def wf_TlsEgressOption_def)

end
