(* ===== verification/Pichi_Credential.thy ===== *)
theory Pichi_Credential
  imports Pichi_Options
begin

text \<open>
  Credentials (\<^verbatim>\<open>include/pichi/vo/credential.hpp\<close>, \<^verbatim>\<open>src/vo/credential.cpp\<close>). The user table of an
  ingress is the association list of a \<^verbatim>\<open>std::unordered_map\<close>, the password table the list of a
  \<^verbatim>\<open>std::unordered_set\<close>; both in the order the container iterates, so a statement for every
  well-formed table covers every iteration order.
\<close>

section \<open>Tables\<close>

text \<open>
  \<^verbatim>\<open>std::accumulate\<close> with a function that may throw, and the template \<open>parseArray\<close> of this file
  around it.
\<close>

fun foldM :: "('b \<Rightarrow> 'a \<Rightarrow> 'b result) \<Rightarrow> 'b \<Rightarrow> 'a list \<Rightarrow> 'b result" where
  "foldM f acc [] = Inr acc"
| "foldM f acc (x # xs) = rbind (f acc x) (\<lambda>acc'. foldM f acc' xs)"

definition parseArray_fold :: "('b \<Rightarrow> json \<Rightarrow> 'b result) \<Rightarrow> 'b \<Rightarrow> json \<Rightarrow> 'b result" where
  "parseArray_fold f init v =
     rthen (assertTrue (IsArray v) BAD_JSON ARY_TYPE_ERROR)
    (rthen (assertFalse (GetArray v = []) BAD_JSON ARY_SIZE_ERROR)
    (foldM f init (GetArray v)))"

definition toJson_credentials :: "('a \<Rightarrow> json) \<Rightarrow> 'a list \<Rightarrow> json result" where
  "toJson_credentials convert cred =
     rthen (assertFalse (cred = []) MISC '''') (Inr (JArray (map convert cred)))"

section \<open>User names with passwords\<close>

type_synonym UpIngressCredential = "(string \<times> string) list"
type_synonym UpEgressCredential = "string \<times> string"

definition up_toJson :: "string \<times> string \<Rightarrow> json" where
  "up_toJson p = JObject
     [(credential_USERNAME, toJson_string (fst p)), (credential_PASSWORD, toJson_string (snd p))]"

definition up_insert :: "UpIngressCredential \<Rightarrow> json \<Rightarrow> UpIngressCredential result" where
  "up_insert tab item =
     rthen (assertTrue (IsObject item) BAD_JSON OBJ_TYPE_ERROR)
    (rthen (assertTrue (HasMember item credential_USERNAME) BAD_JSON MISSING_UN_FIELD)
    (rthen (assertTrue (HasMember item credential_PASSWORD) BAD_JSON MISSING_PW_FIELD)
    (rbind (parse_string (member_of item credential_USERNAME)) (\<lambda>u.
     rbind (parse_string (member_of item credential_PASSWORD)) (\<lambda>p.
     rthen (assertTrue (\<not> map_contains tab u) SEMANTIC_ERROR DUPLICATED_ITEMS)
    (Inr (AList.update u p tab)))))))"

definition parse_UpIngressCredential :: "json \<Rightarrow> UpIngressCredential result" where
  "parse_UpIngressCredential v = parseArray_fold up_insert [] v"

definition toJson_UpIngressCredential :: "UpIngressCredential \<Rightarrow> json result" where
  "toJson_UpIngressCredential cred = toJson_credentials up_toJson cred"

definition parse_UpEgressCredential :: "json \<Rightarrow> UpEgressCredential result" where
  "parse_UpEgressCredential v =
     rthen (assertTrue (IsObject v) BAD_JSON ARY_TYPE_ERROR)
    (rthen (assertTrue (HasMember v credential_USERNAME) BAD_JSON MISSING_UN_FIELD)
    (rthen (assertTrue (HasMember v credential_PASSWORD) BAD_JSON MISSING_PW_FIELD)
    (rbind (parse_string (member_of v credential_USERNAME)) (\<lambda>u.
     rbind (parse_string (member_of v credential_PASSWORD)) (\<lambda>p. Inr (u, p))))))"

definition toJson_UpEgressCredential :: "UpEgressCredential \<Rightarrow> json" where
  "toJson_UpEgressCredential cred = up_toJson cred"

section \<open>Trojan passwords\<close>

type_synonym TrojanIngressCredential = "string list"
type_synonym TrojanEgressCredential = string

definition trojan_toJson :: "string \<Rightarrow> json" where
  "trojan_toJson pw = JObject [(credential_PASSWORD, toJson_string pw)]"

definition trojan_insert :: "TrojanIngressCredential \<Rightarrow> json \<Rightarrow> TrojanIngressCredential result" where
  "trojan_insert tab item =
     rthen (assertTrue (IsObject item) BAD_JSON OBJ_TYPE_ERROR)
    (rthen (assertTrue (HasMember item credential_PASSWORD) BAD_JSON MISSING_PW_FIELD)
    (rbind (parse_string (member_of item credential_PASSWORD)) (\<lambda>p.
     rthen (assertTrue (p \<notin> set tab) SEMANTIC_ERROR DUPLICATED_ITEMS)
    (Inr (tab @ [p])))))"

definition parse_TrojanIngressCredential :: "json \<Rightarrow> TrojanIngressCredential result" where
  "parse_TrojanIngressCredential v = parseArray_fold trojan_insert [] v"

definition toJson_TrojanIngressCredential :: "TrojanIngressCredential \<Rightarrow> json result" where
  "toJson_TrojanIngressCredential cred = toJson_credentials trojan_toJson cred"

definition parse_TrojanEgressCredential :: "json \<Rightarrow> TrojanEgressCredential result" where
  "parse_TrojanEgressCredential v =
     rthen (assertTrue (IsObject v) BAD_JSON OBJ_TYPE_ERROR)
    (rthen (assertTrue (HasMember v credential_PASSWORD) BAD_JSON MISSING_PW_FIELD)
    (parse_string (member_of v credential_PASSWORD)))"

definition toJson_TrojanEgressCredential :: "TrojanEgressCredential \<Rightarrow> json" where
  "toJson_TrojanEgressCredential cred = trojan_toJson cred"

text \<open>
  Equality of the tables is equality of the containers: the same associations, in any order.
\<close>

definition UpIngressCredential_eq :: "UpIngressCredential \<Rightarrow> UpIngressCredential \<Rightarrow> bool" where
  "UpIngressCredential_eq l r \<longleftrightarrow> length l = length r \<and> (\<forall>(u, p) \<in> set l. map_of r u = Some p)"

definition TrojanIngressCredential_eq ::
  "TrojanIngressCredential \<Rightarrow> TrojanIngressCredential \<Rightarrow> bool" where
  "TrojanIngressCredential_eq l r \<longleftrightarrow> length l = length r \<and> set l \<subseteq> set r"

section \<open>Well-formed credentials\<close>

definition wf_UpIngressCredential :: "UpIngressCredential \<Rightarrow> bool" where
  "wf_UpIngressCredential c \<longleftrightarrow> c \<noteq> [] \<and> distinct (map fst c) \<and>
     list_all (\<lambda>(u, p). wf_string u \<and> wf_string p) c"

definition wf_UpEgressCredential :: "UpEgressCredential \<Rightarrow> bool" where
  "wf_UpEgressCredential c \<longleftrightarrow> wf_string (fst c) \<and> wf_string (snd c)"

definition wf_TrojanIngressCredential :: "TrojanIngressCredential \<Rightarrow> bool" where
  "wf_TrojanIngressCredential c \<longleftrightarrow> c \<noteq> [] \<and> distinct c \<and> list_all wf_string c"

lemma foldM_Inl: "foldM f acc xs = Inl e \<Longrightarrow> \<exists>a x. x \<in> set xs \<and> f a x = Inl e"
  proof (induction xs arbitrary: acc)
  case Nil
  then show ?case by simp
next
  case (Cons x xs)
  then consider "f acc x = Inl e" | a where "foldM f a xs = Inl e" by (auto simp: result_simps)
  then show ?case using Cons.IH by cases (auto, blast)
qed

lemma foldM_invariant:
  assumes "foldM f acc xs = Inr r" and "P acc"
    and "\<And>a x b. P a \<Longrightarrow> f a x = Inr b \<Longrightarrow> P b"
  shows "P r"
  using assms(1,2)
  by (induction xs arbitrary: acc) (auto simp: result_simps dest: assms(3))

lemma update_fresh: "\<not> map_contains m k \<Longrightarrow> AList.update k v m = m @ [(k, v)]"
  by (induction m) (auto simp: map_contains_def split: if_splits)

lemma map_contains_fst: "map_contains m k \<longleftrightarrow> k \<in> fst ` set m"
  by (auto simp: map_contains_def map_of_eq_None_iff)

lemma up_insert_Inr: "up_insert tab item = Inr tab' \<Longrightarrow>
  \<exists>u p. wf_string u \<and> wf_string p \<and> u \<notin> fst ` set tab \<and> tab' = tab @ [(u, p)]"
  by (auto simp: up_insert_def result_simps update_fresh map_contains_fst dest!: str.parse_wf; blast)

lemma up_insert_print:
  "wf_string u \<Longrightarrow> wf_string p \<Longrightarrow> u \<notin> fst ` set tab \<Longrightarrow>
   up_insert tab (up_toJson (u, p)) = Inr (tab @ [(u, p)])"
  by (simp add: up_insert_def up_toJson_def map_contains_fst update_fresh)

lemma up_fold_print:
  "distinct (map fst (acc @ c)) \<Longrightarrow> list_all (\<lambda>(u, p). wf_string u \<and> wf_string p) c \<Longrightarrow>
   foldM up_insert acc (map up_toJson c) = Inr (acc @ c)"
proof (induction c arbitrary: acc)
  case Nil
  then show ?case by simp
next
  case (Cons x c)
  obtain u p where x: "x = (u, p)" by (cases x)
  have "up_insert acc (up_toJson (u, p)) = Inr (acc @ [(u, p)])"
    using Cons.prems x by (intro up_insert_print) auto
  then show ?case using Cons x by simp
qed

lemma trojan_insert_Inr: "trojan_insert tab item = Inr tab' \<Longrightarrow>
  \<exists>p. wf_string p \<and> p \<notin> set tab \<and> tab' = tab @ [p]"
  by (auto simp: trojan_insert_def result_simps dest!: str.parse_wf)

lemma trojan_fold_print:
  "distinct (acc @ c) \<Longrightarrow> list_all wf_string c \<Longrightarrow>
   foldM trojan_insert acc (map trojan_toJson c) = Inr (acc @ c)"
proof (induction c arbitrary: acc)
  case Nil
  then show ?case by simp
next
  case (Cons p c)
  have "trojan_insert acc (trojan_toJson p) = Inr (acc @ [p])"
    using Cons.prems by (simp add: trojan_insert_def trojan_toJson_def)
  then show ?case using Cons by simp
qed

section \<open>Every credential satisfies the contract\<close>

interpretation up_in: vo_codec parse_UpIngressCredential toJson_UpIngressCredential
  wf_UpIngressCredential
proof
  show "wf_UpIngressCredential c" if p: "parse_UpIngressCredential v = Inr c" for v c
  proof -
    obtain x xs where g: "GetArray v = x # xs" and f: "foldM up_insert [] (x # xs) = Inr c"
      using p by (cases "GetArray v")
        (auto simp: parse_UpIngressCredential_def parseArray_fold_def result_simps)
    obtain c1 where c1: "up_insert [] x = Inr c1" "foldM up_insert c1 xs = Inr c"
      using f by (auto simp: result_simps)
    have "wf_UpIngressCredential c1"
      using up_insert_Inr [OF c1(1)] by (auto simp: wf_UpIngressCredential_def)
    with c1(2) show ?thesis
      by (rule foldM_invariant) (force simp: wf_UpIngressCredential_def dest!: up_insert_Inr)
  qed
  show "wf_UpIngressCredential c \<Longrightarrow>
      \<exists>j. toJson_UpIngressCredential c = Inr j \<and> parse_UpIngressCredential j = Inr c" for c
    using up_fold_print [of "[]" c]
    by (auto simp: wf_UpIngressCredential_def toJson_UpIngressCredential_def toJson_credentials_def
        parse_UpIngressCredential_def parseArray_fold_def)
  show "parse_UpIngressCredential v = Inl e \<Longrightarrow> client_error e" for v e
    using str.parse_error
    by (auto simp: parse_UpIngressCredential_def parseArray_fold_def result_simps up_insert_def
        dest!: foldM_Inl)
qed

interpretation up_out: vo_codec parse_UpEgressCredential "\<lambda>c. Inr (toJson_UpEgressCredential c)"
  wf_UpEgressCredential
  by unfold_locales
     (auto simp: parse_UpEgressCredential_def toJson_UpEgressCredential_def up_toJson_def
       wf_UpEgressCredential_def result_simps intro: str.parse_wf str.parse_error)

interpretation trojan_in: vo_codec parse_TrojanIngressCredential toJson_TrojanIngressCredential
  wf_TrojanIngressCredential
proof
  show "wf_TrojanIngressCredential c" if p: "parse_TrojanIngressCredential v = Inr c" for v c
  proof -
    obtain x xs where f: "foldM trojan_insert [] (x # xs) = Inr c"
      using p by (cases "GetArray v")
        (auto simp: parse_TrojanIngressCredential_def parseArray_fold_def result_simps)
    obtain c1 where c1: "trojan_insert [] x = Inr c1" "foldM trojan_insert c1 xs = Inr c"
      using f by (auto simp: result_simps)
    have "wf_TrojanIngressCredential c1"
      using trojan_insert_Inr [OF c1(1)] by (auto simp: wf_TrojanIngressCredential_def)
    with c1(2) show ?thesis
      by (rule foldM_invariant) (force simp: wf_TrojanIngressCredential_def dest!: trojan_insert_Inr)
  qed
  show "wf_TrojanIngressCredential c \<Longrightarrow>
      \<exists>j. toJson_TrojanIngressCredential c = Inr j \<and> parse_TrojanIngressCredential j = Inr c" for c
    using trojan_fold_print [of "[]" c]
    by (auto simp: wf_TrojanIngressCredential_def toJson_TrojanIngressCredential_def
        toJson_credentials_def parse_TrojanIngressCredential_def parseArray_fold_def)
  show "parse_TrojanIngressCredential v = Inl e \<Longrightarrow> client_error e" for v e
    using str.parse_error
    by (auto simp: parse_TrojanIngressCredential_def parseArray_fold_def result_simps
        trojan_insert_def dest!: foldM_Inl)
qed

interpretation trojan_out: vo_codec parse_TrojanEgressCredential
  "\<lambda>c. Inr (toJson_TrojanEgressCredential c)" wf_string
  by unfold_locales
     (auto simp: parse_TrojanEgressCredential_def toJson_TrojanEgressCredential_def
       trojan_toJson_def result_simps intro: str.parse_wf str.parse_error)

text \<open>Duplicated users and duplicated passwords are refused.\<close>

lemma up_insert_duplicate:
  "wf_string u \<Longrightarrow> wf_string p \<Longrightarrow> map_contains tab u \<Longrightarrow>
   up_insert tab (up_toJson (u, p)) = fail_with SEMANTIC_ERROR DUPLICATED_ITEMS"
  by (simp add: up_insert_def up_toJson_def)

lemma wf_table_eq:
  assumes "wf_UpIngressCredential l" and "wf_UpIngressCredential r"
  shows "UpIngressCredential_eq l r \<longleftrightarrow> map_of l = map_of r"
proof -
  have dl: "distinct (map fst l)" and dr: "distinct (map fst r)"
    using assms by (simp_all add: wf_UpIngressCredential_def)
  have card: "card (set l) = length l" "card (set r) = length r"
    using dl dr by (simp_all add: distinct_card distinct_map)
  show ?thesis
  proof
    assume eq: "UpIngressCredential_eq l r"
    have "set l \<subseteq> set r"
      using eq by (auto simp: UpIngressCredential_eq_def dest: map_of_SomeD)
    moreover have "card (set l) = card (set r)"
      using eq card by (simp add: UpIngressCredential_eq_def)
    ultimately have "set l = set r" by (simp add: card_subset_eq)
    then show "map_of l = map_of r" using dl dr by (simp add: map_of_inject_set)
  next
    assume m: "map_of l = map_of r"
    then have "set l = set r" using dl dr by (simp add: map_of_inject_set)
    then show "UpIngressCredential_eq l r"
      using m dr card by (auto simp: UpIngressCredential_eq_def)
  qed
qed

end
