(* ===== verification/Pichi_Egress.thy ===== *)
theory Pichi_Egress
  imports Pichi_Credential
begin

text \<open>
  Egress value objects (\<^verbatim>\<open>include/pichi/vo/egress.hpp\<close>, \<^verbatim>\<open>src/vo/egress.cpp\<close>). The credential and the
  option are \<^verbatim>\<open>std::variant\<close>s: a datatype with one constructor per alternative; \<^verbatim>\<open>std::get\<close> of another
  alternative throws. The \<^verbatim>\<open>switch\<close> over the adapter type of each function is a function of its own,
  with one equation per case.
\<close>

section \<open>The value object\<close>

datatype EgressCredential = EC_Up UpEgressCredential | EC_Trojan TrojanEgressCredential

datatype EgressOption = EO_Reject RejectOption | EO_SS ShadowsocksOption

record EgressVO =
  eg_type :: AdapterType
  eg_server :: "Endpoint option"
  eg_credential :: "EgressCredential option"
  eg_opt :: "EgressOption option"
  eg_tls :: "TlsEgressOption option"
  eg_websocket :: "WebsocketOption option"

fun get_EC_Up :: "EgressCredential \<Rightarrow> UpEgressCredential result" where
  "get_EC_Up (EC_Up c) = Inr c" | "get_EC_Up (EC_Trojan _) = Inl BadVariantAccess"

fun get_EC_Trojan :: "EgressCredential \<Rightarrow> TrojanEgressCredential result" where
  "get_EC_Trojan (EC_Trojan c) = Inr c" | "get_EC_Trojan (EC_Up _) = Inl BadVariantAccess"

fun get_EO_Reject :: "EgressOption \<Rightarrow> RejectOption result" where
  "get_EO_Reject (EO_Reject x) = Inr x" | "get_EO_Reject (EO_SS _) = Inl BadVariantAccess"

fun get_EO_SS :: "EgressOption \<Rightarrow> ShadowsocksOption result" where
  "get_EO_SS (EO_SS x) = Inr x" | "get_EO_SS (EO_Reject _) = Inl BadVariantAccess"

definition empty_egress :: "AdapterType \<Rightarrow> EgressVO" where
  "empty_egress t = \<lparr>eg_type = t, eg_server = None, eg_credential = None, eg_opt = None,
     eg_tls = None, eg_websocket = None\<rparr>"

section \<open>Parsing\<close>

fun parse_Egress_as :: "ip_lib \<Rightarrow> AdapterType \<Rightarrow> json \<Rightarrow> EgressVO result" where
  "parse_Egress_as ip DIRECT v = Inr (empty_egress DIRECT)"
| "parse_Egress_as ip REJECT v =
     rthen (assertTrue (HasMember v egress_OPTION) BAD_JSON MISSING_OPTION_FIELD)
    (rbind (parse_RejectOption (member_of v egress_OPTION)) (\<lambda>opt.
     Inr ((empty_egress REJECT)\<lparr>eg_opt := Some (EO_Reject opt)\<rparr>)))"
| "parse_Egress_as ip SS v =
     rthen (assertTrue (HasMember v egress_SERVER) BAD_JSON MISSING_SERVER_FIELD)
    (rthen (assertTrue (HasMember v egress_OPTION) BAD_JSON MISSING_OPTION_FIELD)
    (rbind (parse_Endpoint ip (member_of v egress_SERVER)) (\<lambda>server.
     rbind (parse_ShadowsocksOption (member_of v egress_OPTION)) (\<lambda>opt.
     Inr ((empty_egress SS)\<lparr>eg_server := Some server, eg_opt := Some (EO_SS opt)\<rparr>)))))"
| "parse_Egress_as ip TROJAN v =
     rthen (assertTrue (HasMember v egress_SERVER) BAD_JSON MISSING_SERVER_FIELD)
    (rthen (assertTrue (HasMember v egress_CREDENTIAL) BAD_JSON MISSING_CRED_FIELD)
    (rthen (assertTrue (HasMember v egress_TLS) BAD_JSON MISSING_TLS_FIELD)
    (rbind (parse_Endpoint ip (member_of v egress_SERVER)) (\<lambda>server.
     rbind (parse_TrojanEgressCredential (member_of v egress_CREDENTIAL)) (\<lambda>cred.
     rbind (parse_TlsEgressOption (member_of v egress_TLS)) (\<lambda>tls.
     rbind (parse_optional v egress_WEBSOCKET parse_WebsocketOption) (\<lambda>ws.
     Inr ((empty_egress TROJAN)\<lparr>eg_server := Some server, eg_credential := Some (EC_Trojan cred),
       eg_tls := Some tls, eg_websocket := ws\<rparr>))))))))"
| "parse_Egress_as ip t v =
     (if t = HTTP \<or> t = SOCKS5 then
        rthen (assertTrue (HasMember v egress_SERVER) BAD_JSON MISSING_SERVER_FIELD)
       (rbind (parse_Endpoint ip (member_of v egress_SERVER)) (\<lambda>server.
        rbind (parse_optional v egress_CREDENTIAL parse_UpEgressCredential) (\<lambda>cred.
        rbind (parse_optional v egress_TLS parse_TlsEgressOption) (\<lambda>tls.
        Inr ((empty_egress t)\<lparr>eg_server := Some server,
          eg_credential := map_option EC_Up cred, eg_tls := tls\<rparr>)))))
      else fail_with BAD_JSON AT_INVALID)"

definition parse_Egress :: "ip_lib \<Rightarrow> json \<Rightarrow> EgressVO result" where
  "parse_Egress ip v =
     rthen (assertTrue (IsObject v) BAD_JSON OBJ_TYPE_ERROR)
    (rthen (assertTrue (HasMember v egress_TYPE) BAD_JSON MISSING_TYPE_FIELD)
    (rbind (parse_AdapterType (member_of v egress_TYPE)) (\<lambda>t. parse_Egress_as ip t v)))"

section \<open>Printing\<close>

fun toJson_Egress_as :: "AdapterType \<Rightarrow> EgressVO \<Rightarrow> (string \<times> json) list result" where
  "toJson_Egress_as DIRECT e = Inr []"
| "toJson_Egress_as REJECT e =
     rthen (assertTrue (has_value (eg_opt e)) MISC '''')
    (rbind (deref (eg_opt e)) (\<lambda>o'. rbind (get_EO_Reject o') (\<lambda>opt.
     rbind (toJson_RejectOption opt) (\<lambda>j. Inr [(egress_OPTION, j)]))))"
| "toJson_Egress_as SS e =
     rthen (assertTrue (has_value (eg_server e)) MISC '''')
    (rbind (deref (eg_server e)) (\<lambda>server.
     rthen (assertTrue (has_value (eg_opt e)) MISC '''')
    (rbind (deref (eg_opt e)) (\<lambda>o'. rbind (get_EO_SS o') (\<lambda>opt.
     Inr [(egress_SERVER, toJson_Endpoint server),
          (egress_OPTION, toJson_ShadowsocksOption opt)])))))"
| "toJson_Egress_as TROJAN e =
     rthen (assertTrue (has_value (eg_server e)) MISC '''')
    (rthen (assertTrue (has_value (eg_credential e)) MISC '''')
    (rthen (assertTrue (has_value (eg_tls e)) MISC '''')
    (rbind (deref (eg_server e)) (\<lambda>server.
     rbind (deref (eg_credential e)) (\<lambda>c. rbind (get_EC_Trojan c) (\<lambda>cred.
     rbind (deref (eg_tls e)) (\<lambda>tls.
     Inr ([(egress_SERVER, toJson_Endpoint server),
           (egress_CREDENTIAL, toJson_TrojanEgressCredential cred),
           (egress_TLS, toJson_TlsEgressOption tls)] @
          optional_member egress_WEBSOCKET toJson_WebsocketOption (eg_websocket e)))))))))"
| "toJson_Egress_as t e =
     (if t = HTTP \<or> t = SOCKS5 then
        rthen (assertTrue (has_value (eg_server e)) MISC '''')
       (rbind (deref (eg_server e)) (\<lambda>server.
        rbind (case eg_credential e of
                 None \<Rightarrow> Inr []
               | Some c \<Rightarrow> rbind (get_EC_Up c) (\<lambda>cred.
                   Inr [(egress_CREDENTIAL, toJson_UpEgressCredential cred)])) (\<lambda>creds.
        Inr ([(egress_SERVER, toJson_Endpoint server)] @ creds @
             optional_member egress_TLS toJson_TlsEgressOption (eg_tls e)))))
      else fail_misc '''')"

definition toJson_Egress :: "EgressVO \<Rightarrow> json result" where
  "toJson_Egress e =
     rthen (assertFalse (eg_type e = TUNNEL) MISC '''')
    (rthen (assertFalse (eg_type e = TRANSP) MISC '''')
    (rbind (toJson_Egress_as (eg_type e) e) (\<lambda>ms.
     Inr (JObject ((egress_TYPE, toJson_AdapterType (eg_type e)) # ms)))))"

section \<open>Equality\<close>

text \<open>Equality of optionals and variants, with the hand-written equality of what they hold.\<close>

definition optional_eq :: "('a \<Rightarrow> 'a \<Rightarrow> bool) \<Rightarrow> 'a option \<Rightarrow> 'a option \<Rightarrow> bool" where
  "optional_eq eq l r = (case (l, r) of
     (None, None) \<Rightarrow> True | (Some x, Some y) \<Rightarrow> eq x y | _ \<Rightarrow> False)"

fun EgressOption_eq :: "EgressOption \<Rightarrow> EgressOption \<Rightarrow> bool" where
  "EgressOption_eq (EO_Reject x) (EO_Reject y) = RejectOption_eq x y"
| "EgressOption_eq (EO_SS x) (EO_SS y) = ShadowsocksOption_eq x y"
| "EgressOption_eq _ _ = False"

definition Egress_eq :: "EgressVO \<Rightarrow> EgressVO \<Rightarrow> bool result" where
  "Egress_eq l r =
     (if eg_type l \<noteq> eg_type r then Inr False
      else case eg_type l of
        DIRECT \<Rightarrow> Inr True
      | REJECT \<Rightarrow> Inr (optional_eq EgressOption_eq (eg_opt l) (eg_opt r))
      | HTTP \<Rightarrow> Inr (optional_eq endpoint_eq (eg_server l) (eg_server r) \<and>
          optional_eq TlsEgressOption_eq (eg_tls l) (eg_tls r) \<and> eg_credential l = eg_credential r)
      | SOCKS5 \<Rightarrow> Inr (optional_eq endpoint_eq (eg_server l) (eg_server r) \<and>
          optional_eq TlsEgressOption_eq (eg_tls l) (eg_tls r) \<and> eg_credential l = eg_credential r)
      | SS \<Rightarrow> Inr (optional_eq endpoint_eq (eg_server l) (eg_server r) \<and>
          optional_eq EgressOption_eq (eg_opt l) (eg_opt r))
      | TROJAN \<Rightarrow> Inr (optional_eq endpoint_eq (eg_server l) (eg_server r) \<and>
          eg_credential l = eg_credential r \<and>
          optional_eq TlsEgressOption_eq (eg_tls l) (eg_tls r) \<and>
          optional_eq WebsocketOption_eq (eg_websocket l) (eg_websocket r))
      | _ \<Rightarrow> fail_misc '''')"

section \<open>Well-formed egresses\<close>

text \<open>Which fields an egress of each type has.\<close>

fun wf_Egress_as :: "ip_lib \<Rightarrow> AdapterType \<Rightarrow> EgressVO \<Rightarrow> bool" where
  "wf_Egress_as ip DIRECT e = (e = empty_egress DIRECT)"
| "wf_Egress_as ip REJECT e =
     (\<exists>opt. wf_RejectOption opt \<and> e = (empty_egress REJECT)\<lparr>eg_opt := Some (EO_Reject opt)\<rparr>)"
| "wf_Egress_as ip SS e =
     (\<exists>server opt. wf_endpoint ip server \<and> wf_ShadowsocksOption opt \<and>
        e = (empty_egress SS)\<lparr>eg_server := Some server, eg_opt := Some (EO_SS opt)\<rparr>)"
| "wf_Egress_as ip TROJAN e =
     (\<exists>server cred tls ws. wf_endpoint ip server \<and> wf_string cred \<and> wf_TlsEgressOption tls \<and>
        wf_optional wf_WebsocketOption ws \<and>
        e = (empty_egress TROJAN)\<lparr>eg_server := Some server, eg_credential := Some (EC_Trojan cred),
              eg_tls := Some tls, eg_websocket := ws\<rparr>)"
| "wf_Egress_as ip t e =
     ((t = HTTP \<or> t = SOCKS5) \<and>
      (\<exists>server cred tls. wf_endpoint ip server \<and> wf_optional wf_UpEgressCredential cred \<and>
        wf_optional wf_TlsEgressOption tls \<and>
        e = (empty_egress t)\<lparr>eg_server := Some server, eg_credential := map_option EC_Up cred,
              eg_tls := tls\<rparr>))"

definition wf_Egress :: "ip_lib \<Rightarrow> EgressVO \<Rightarrow> bool" where
  "wf_Egress ip e = wf_Egress_as ip (eg_type e) e"

lemma optional_codec:
  assumes "vo_codec p (\<lambda>x. Inr (f x)) P"
  shows "parse_optional v k p = Inr x \<Longrightarrow> wf_optional P x"
    and "parse_optional v k p = Inl e \<Longrightarrow> client_error e"
  using vo_codec.parse_wf [OF assms] vo_codec.parse_error [OF assms]
  by (auto simp: parse_optional_def wf_optional_def result_simps split: if_splits)

lemmas optional_wfs = optional_codec(1) [OF up_out.vo_codec_axioms]
  optional_codec(1) [OF tls_in_opt.vo_codec_axioms] optional_codec(1) [OF tls_out_opt.vo_codec_axioms]
  optional_codec(1) [OF ws_opt.vo_codec_axioms]

lemmas optional_errors = optional_codec(2) [OF up_out.vo_codec_axioms]
  optional_codec(2) [OF tls_in_opt.vo_codec_axioms] optional_codec(2) [OF tls_out_opt.vo_codec_axioms]
  optional_codec(2) [OF ws_opt.vo_codec_axioms]

lemmas credential_wfs = up_in.parse_wf up_out.parse_wf trojan_in.parse_wf trojan_out.parse_wf

lemmas credential_errors = up_in.parse_error up_out.parse_error trojan_in.parse_error
  trojan_out.parse_error

lemma parse_print_credentials [simp]:
  "wf_UpEgressCredential c \<Longrightarrow> parse_UpEgressCredential (toJson_UpEgressCredential c) = Inr c"
  "wf_string p \<Longrightarrow> parse_TrojanEgressCredential (toJson_TrojanEgressCredential p) = Inr p"
  by (simp_all add: up_out.toJson_total trojan_out.toJson_total)

lemma parse_optional_member:
  assumes "map_of ms k = None" and "map_of ns k = None"
    and "\<And>x. o' = Some x \<Longrightarrow> p (f x) = Inr x"
  shows "parse_optional (JObject (ms @ optional_member k f o' @ ns)) k p = Inr o'"
  using assms by (cases o') (auto simp: parse_optional_def optional_member_def map_add_def)

lemma parse_Egress_as_type: "parse_Egress_as ip t v = Inr e \<Longrightarrow> eg_type e = t"
  by (cases t) (auto simp: result_simps empty_egress_def split: if_splits)

lemma parse_Egress_as_wf: "parse_Egress_as ip t v = Inr e \<Longrightarrow> wf_Egress_as ip t e"
  by (cases t; auto simp: result_simps dest!: optional_wfs option_wfs credential_wfs
       endpoint.parse_wf split: if_splits; blast)

lemma parse_Egress_as_error: "parse_Egress_as ip t v = Inl e \<Longrightarrow> client_error e"
  by (cases t)
     (auto simp: result_simps dest: optional_errors option_errors credential_errors
       endpoint.parse_error split: if_splits)

lemma wf_optional_simps [simp]: "wf_optional P None" "wf_optional P (Some x) \<longleftrightarrow> P x"
  by (simp_all add: wf_optional_def)

lemma egress_roundtrip:
  assumes "wf_Egress ip e"
  shows "\<exists>j. toJson_Egress e = Inr j \<and> parse_Egress ip j = Inr e"
proof (cases "eg_type e")
  case REJECT
  then obtain opt where opt: "wf_RejectOption opt"
    "e = (empty_egress REJECT)\<lparr>eg_opt := Some (EO_Reject opt)\<rparr>"
    using assms by (auto simp: wf_Egress_def)
  then obtain j where "toJson_RejectOption opt = Inr j" "parse_RejectOption j = Inr opt"
    using reject_opt.toJson_parse by blast
  with opt show ?thesis
    by (auto simp: toJson_Egress_def parse_Egress_def empty_egress_def)
qed (use assms in \<open>auto simp: wf_Egress_def toJson_Egress_def parse_Egress_def empty_egress_def
       optional_member_def parse_optional_def split: option.splits\<close>)

section \<open>The contract\<close>

interpretation egress: vo_codec "parse_Egress ip" toJson_Egress "wf_Egress ip" for ip
proof
  show "parse_Egress ip v = Inr e \<Longrightarrow> wf_Egress ip e" for v e
    using parse_Egress_as_wf [of ip] parse_Egress_as_type [of ip]
    by (fastforce simp: parse_Egress_def wf_Egress_def result_simps)
  show "wf_Egress ip e \<Longrightarrow> \<exists>j. toJson_Egress e = Inr j \<and> parse_Egress ip j = Inr e" for e
    by (rule egress_roundtrip)
  show "parse_Egress ip v = Inl e \<Longrightarrow> client_error e" for v e
    using parse_Egress_as_error [of ip] adapter.parse_error
    by (fastforce simp: parse_Egress_def result_simps)
qed

lemma Egress_eq_refl: "wf_Egress ip e \<Longrightarrow> Egress_eq e e = Inr True"
  by (cases "eg_type e")
     (auto simp: wf_Egress_def Egress_eq_def optional_eq_def empty_egress_def endpoint_eq_iff
       option_eq_iff RejectOption_eq_def TlsEgressOption_eq_def split: option.splits)

section \<open>Properties\<close>

definition sample_egress_json :: json where
  "sample_egress_json = JObject
     [(egress_TYPE, JString ''trojan''),
      (egress_SERVER, JObject [(endpoint_HOST, JString ''10.0.0.1''), (endpoint_PORT, JInt 443)]),
      (egress_CREDENTIAL, JObject [(credential_PASSWORD, JString ''secret'')]),
      (egress_TLS, JObject [(tls_INSECURE, JBool True)]),
      (egress_WEBSOCKET, JObject [(websocket_PATH, JString ''/ws'')])]"

lemma sample_egress_parses: "\<exists>e. parse_Egress sample_ip sample_egress_json = Inr e"
proof -
  have "case parse_Egress sample_ip sample_egress_json of Inl _ \<Rightarrow> False | Inr _ \<Rightarrow> True"
    by code_simp
  then show ?thesis by (auto split: sum.splits)
qed

text \<open>
  C16: Every egress the API accepts can be printed, and what is printed parses to the same egress: a
  configuration that is read back from \<^verbatim>\<open>GET /egresses\<close> and put again is the same configuration.
\<close>

theorem egress_reparse:
  assumes "parse_Egress ip v = Inr e"
  shows "\<exists>j. toJson_Egress e = Inr j \<and> parse_Egress ip j = Inr e"
  using assms by (rule egress.reparse)

theorem egress_reparse_witness:
  "\<exists>e j. parse_Egress sample_ip sample_egress_json = Inr e \<and> toJson_Egress e = Inr j \<and>
     parse_Egress sample_ip j = Inr e"
  using sample_egress_parses egress_reparse by blast

text \<open>
  \<^verbatim>\<open>operator==\<close> on egresses the API accepted never throws and is equality, although it compares
  only the fields that matter for the type.
\<close>

theorem egress_equality:
  assumes "parse_Egress ip v = Inr l" and "parse_Egress ip w = Inr r"
  shows "Egress_eq l r = Inr (l = r)"
proof -
  have l: "wf_Egress ip l" and r: "wf_Egress ip r" using assms by (auto intro: egress.parse_wf)
  show ?thesis
  proof (cases "eg_type l = eg_type r")
    case True
    then show ?thesis using l r
      by (cases "eg_type r")
         (auto simp: wf_Egress_def Egress_eq_def optional_eq_def empty_egress_def endpoint_eq_iff
           option_eq_iff RejectOption_eq_iff TlsEgressOption_eq_iff split: option.splits)
  qed (auto simp: Egress_eq_def)
qed

theorem egress_equality_witness:
  "\<exists>e. parse_Egress sample_ip sample_egress_json = Inr e \<and> Egress_eq e e = Inr (e = e)"
  using sample_egress_parses egress_equality by blast

end
