(* ===== verification/Pichi_Ingress.thy ===== *)
theory Pichi_Ingress
  imports Pichi_Egress
begin

text \<open>
  Ingress value objects (\<^verbatim>\<open>include/pichi/vo/ingress.hpp\<close>, \<^verbatim>\<open>src/vo/ingress.cpp\<close>): the listening
  addresses, and per adapter type the option, the credentials and the transport. \<open>in_name\<close> is for
  internal use: it is neither parsed nor printed, the server writes it when it creates a listener.
\<close>

section \<open>The value object\<close>

datatype IngressCredential = IC_Up UpIngressCredential | IC_Trojan TrojanIngressCredential

datatype IngressOption = IO_Tunnel TunnelOption | IO_SS ShadowsocksOption | IO_Trojan TrojanOption

record IngressVO =
  in_type :: AdapterType
  in_bind :: "Endpoint list"
  in_credential :: "IngressCredential option"
  in_opt :: "IngressOption option"
  in_tls :: "TlsIngressOption option"
  in_websocket :: "WebsocketOption option"
  in_name :: string

fun get_IC_Up :: "IngressCredential \<Rightarrow> UpIngressCredential result" where
  "get_IC_Up (IC_Up c) = Inr c" | "get_IC_Up (IC_Trojan _) = Inl BadVariantAccess"

fun get_IC_Trojan :: "IngressCredential \<Rightarrow> TrojanIngressCredential result" where
  "get_IC_Trojan (IC_Trojan c) = Inr c" | "get_IC_Trojan (IC_Up _) = Inl BadVariantAccess"

fun get_IO_Tunnel :: "IngressOption \<Rightarrow> TunnelOption result" where
  "get_IO_Tunnel (IO_Tunnel x) = Inr x" | "get_IO_Tunnel _ = Inl BadVariantAccess"

fun get_IO_SS :: "IngressOption \<Rightarrow> ShadowsocksOption result" where
  "get_IO_SS (IO_SS x) = Inr x" | "get_IO_SS _ = Inl BadVariantAccess"

fun get_IO_Trojan :: "IngressOption \<Rightarrow> TrojanOption result" where
  "get_IO_Trojan (IO_Trojan x) = Inr x" | "get_IO_Trojan _ = Inl BadVariantAccess"

definition empty_ingress :: "AdapterType \<Rightarrow> Endpoint list \<Rightarrow> IngressVO" where
  "empty_ingress t bind = \<lparr>in_type = t, in_bind = bind, in_credential = None, in_opt = None,
     in_tls = None, in_websocket = None, in_name = []\<rparr>"

section \<open>Parsing\<close>

text \<open>The \<^verbatim>\<open>switch\<close> of \<^verbatim>\<open>parse<Ingress>\<close>, on the ingress whose type and addresses are set.\<close>

fun parse_Ingress_as :: "ip_lib \<Rightarrow> AdapterType \<Rightarrow> IngressVO \<Rightarrow> json \<Rightarrow> IngressVO result" where
  "parse_Ingress_as ip TUNNEL i v =
     rthen (assertTrue (HasMember v ingress_OPTION) BAD_JSON MISSING_OPTION_FIELD)
    (rbind (parse_TunnelOption ip (member_of v ingress_OPTION)) (\<lambda>opt.
     Inr (i\<lparr>in_opt := Some (IO_Tunnel opt)\<rparr>)))"
| "parse_Ingress_as ip SS i v =
     rthen (assertTrue (HasMember v ingress_OPTION) BAD_JSON MISSING_OPTION_FIELD)
    (rbind (parse_ShadowsocksOption (member_of v ingress_OPTION)) (\<lambda>opt.
     Inr (i\<lparr>in_opt := Some (IO_SS opt)\<rparr>)))"
| "parse_Ingress_as ip TROJAN i v =
     rthen (assertTrue (HasMember v ingress_CREDENTIALS) BAD_JSON MISSING_CRED_FIELD)
    (rthen (assertTrue (HasMember v ingress_OPTION) BAD_JSON MISSING_OPTION_FIELD)
    (rthen (assertTrue (HasMember v ingress_TLS) BAD_JSON MISSING_TLS_FIELD)
    (rbind (parse_TrojanIngressCredential (member_of v ingress_CREDENTIALS)) (\<lambda>cred.
     rbind (parse_TrojanOption ip (member_of v ingress_OPTION)) (\<lambda>opt.
     rbind (parse_TlsIngressOption (member_of v ingress_TLS)) (\<lambda>tls.
     rbind (parse_optional v ingress_WEBSOCKET parse_WebsocketOption) (\<lambda>ws.
     Inr (i\<lparr>in_credential := Some (IC_Trojan cred), in_opt := Some (IO_Trojan opt),
            in_tls := Some tls, in_websocket := ws\<rparr>))))))))"
| "parse_Ingress_as ip TRANSP i v = Inr i"
| "parse_Ingress_as ip t i v =
     (if t = HTTP \<or> t = SOCKS5 \<or> t = DUAL then
        rbind (parse_optional v ingress_TLS parse_TlsIngressOption) (\<lambda>tls.
        rbind (parse_optional v ingress_CREDENTIALS parse_UpIngressCredential) (\<lambda>cred.
        Inr (i\<lparr>in_tls := tls, in_credential := map_option IC_Up cred\<rparr>)))
      else fail_with BAD_JSON AT_INVALID)"

definition parse_bind :: "ip_lib \<Rightarrow> json \<Rightarrow> Endpoint list result" where
  "parse_bind ip v =
     rthen (assertTrue (HasMember v ingress_BIND) BAD_JSON MISSING_BIND_FIELD)
    (rthen (assertTrue (IsArray (member_of v ingress_BIND)) BAD_JSON ARY_TYPE_ERROR)
    (rthen (assertFalse (GetArray (member_of v ingress_BIND) = []) BAD_JSON ARY_SIZE_ERROR)
    (mapM (parse_Endpoint ip) (GetArray (member_of v ingress_BIND)))))"

definition parse_Ingress :: "ip_lib \<Rightarrow> json \<Rightarrow> IngressVO result" where
  "parse_Ingress ip v =
     rthen (assertTrue (IsObject v) BAD_JSON OBJ_TYPE_ERROR)
    (rthen (assertTrue (HasMember v ingress_TYPE) BAD_JSON MISSING_TYPE_FIELD)
    (rbind (parse_AdapterType (member_of v ingress_TYPE)) (\<lambda>t.
     rthen (assertFalse (t = DIRECT) BAD_JSON AT_INVALID)
    (rthen (assertFalse (t = REJECT) BAD_JSON AT_INVALID)
    (rbind (parse_bind ip v) (\<lambda>bind. parse_Ingress_as ip t (empty_ingress t bind) v))))))"

section \<open>Printing\<close>

fun toJson_Ingress_as :: "AdapterType \<Rightarrow> IngressVO \<Rightarrow> (string \<times> json) list result" where
  "toJson_Ingress_as TUNNEL i =
     rthen (assertTrue (has_value (in_opt i)) MISC '''')
    (rbind (deref (in_opt i)) (\<lambda>o'. rbind (get_IO_Tunnel o') (\<lambda>opt.
     rbind (toJson_TunnelOption opt) (\<lambda>j. Inr [(ingress_OPTION, j)]))))"
| "toJson_Ingress_as SS i =
     rthen (assertTrue (has_value (in_opt i)) MISC '''')
    (rbind (deref (in_opt i)) (\<lambda>o'. rbind (get_IO_SS o') (\<lambda>opt.
     Inr [(ingress_OPTION, toJson_ShadowsocksOption opt)])))"
| "toJson_Ingress_as TROJAN i =
     rthen (assertTrue (has_value (in_opt i)) MISC '''')
    (rthen (assertTrue (has_value (in_tls i)) MISC '''')
    (rthen (assertTrue (has_value (in_credential i)) MISC '''')
    (rbind (deref (in_opt i)) (\<lambda>o'. rbind (get_IO_Trojan o') (\<lambda>opt.
     rbind (deref (in_tls i)) (\<lambda>tls.
     rbind (deref (in_credential i)) (\<lambda>c. rbind (get_IC_Trojan c) (\<lambda>cred.
     rbind (toJson_TrojanIngressCredential cred) (\<lambda>j.
     Inr ([(ingress_OPTION, toJson_TrojanOption opt),
           (ingress_TLS, toJson_TlsIngressOption tls),
           (ingress_CREDENTIALS, j)] @
          optional_member ingress_WEBSOCKET toJson_WebsocketOption (in_websocket i)))))))))))"
| "toJson_Ingress_as TRANSP i = Inr []"
| "toJson_Ingress_as t i =
     (if t = HTTP \<or> t = SOCKS5 \<or> t = DUAL then
        rbind (case in_credential i of
                 None \<Rightarrow> Inr []
               | Some c \<Rightarrow> rbind (get_IC_Up c) (\<lambda>cred.
                   rbind (toJson_UpIngressCredential cred) (\<lambda>j.
                   Inr [(ingress_CREDENTIALS, j)]))) (\<lambda>creds.
        Inr (optional_member ingress_TLS toJson_TlsIngressOption (in_tls i) @ creds))
      else fail_misc '''')"

definition toJson_Ingress :: "IngressVO \<Rightarrow> json result" where
  "toJson_Ingress i =
     rthen (assertFalse (in_type i = DIRECT) MISC '''')
    (rthen (assertFalse (in_type i = REJECT) MISC '''')
    (rthen (assertFalse (in_bind i = []) MISC '''')
    (rbind (toJson_Ingress_as (in_type i) i) (\<lambda>ms.
     Inr (JObject ((ingress_TYPE, toJson_AdapterType (in_type i)) #
                   (ingress_BIND, toJson_array toJson_Endpoint (in_bind i)) # ms))))))"

section \<open>Equality\<close>

fun IngressCredential_eq :: "IngressCredential \<Rightarrow> IngressCredential \<Rightarrow> bool" where
  "IngressCredential_eq (IC_Up x) (IC_Up y) = UpIngressCredential_eq x y"
| "IngressCredential_eq (IC_Trojan x) (IC_Trojan y) = TrojanIngressCredential_eq x y"
| "IngressCredential_eq _ _ = False"

fun IngressOption_eq :: "IngressOption \<Rightarrow> IngressOption \<Rightarrow> bool" where
  "IngressOption_eq (IO_Tunnel x) (IO_Tunnel y) = TunnelOption_eq x y"
| "IngressOption_eq (IO_SS x) (IO_SS y) = ShadowsocksOption_eq x y"
| "IngressOption_eq (IO_Trojan x) (IO_Trojan y) = TrojanOption_eq x y"
| "IngressOption_eq _ _ = False"

definition Ingress_eq :: "IngressVO \<Rightarrow> IngressVO \<Rightarrow> bool result" where
  "Ingress_eq l r =
     (if \<not> list_all2 endpoint_eq (in_bind l) (in_bind r) \<or> in_type l \<noteq> in_type r then Inr False
      else if in_type l \<in> {TUNNEL, SS} then Inr (optional_eq IngressOption_eq (in_opt l) (in_opt r))
      else if in_type l \<in> {HTTP, SOCKS5, DUAL} then
        Inr (optional_eq TlsIngressOption_eq (in_tls l) (in_tls r) \<and>
             optional_eq IngressCredential_eq (in_credential l) (in_credential r))
      else if in_type l = TROJAN then
        Inr (optional_eq IngressCredential_eq (in_credential l) (in_credential r) \<and>
             optional_eq IngressOption_eq (in_opt l) (in_opt r) \<and>
             optional_eq TlsIngressOption_eq (in_tls l) (in_tls r) \<and>
             optional_eq WebsocketOption_eq (in_websocket l) (in_websocket r))
      else if in_type l = TRANSP then Inr True
      else fail_misc '''')"

section \<open>Well-formed ingresses\<close>

fun wf_Ingress_as :: "ip_lib \<Rightarrow> AdapterType \<Rightarrow> IngressVO \<Rightarrow> IngressVO \<Rightarrow> bool" where
  "wf_Ingress_as ip TUNNEL b i =
     (\<exists>opt. wf_TunnelOption ip opt \<and> i = b\<lparr>in_opt := Some (IO_Tunnel opt)\<rparr>)"
| "wf_Ingress_as ip SS b i =
     (\<exists>opt. wf_ShadowsocksOption opt \<and> i = b\<lparr>in_opt := Some (IO_SS opt)\<rparr>)"
| "wf_Ingress_as ip TROJAN b i =
     (\<exists>cred opt tls ws. wf_TrojanIngressCredential cred \<and> wf_TrojanOption ip opt \<and>
        wf_TlsIngressOption tls \<and> wf_optional wf_WebsocketOption ws \<and>
        i = b\<lparr>in_credential := Some (IC_Trojan cred), in_opt := Some (IO_Trojan opt),
              in_tls := Some tls, in_websocket := ws\<rparr>)"
| "wf_Ingress_as ip TRANSP b i = (i = b)"
| "wf_Ingress_as ip t b i =
     ((t = HTTP \<or> t = SOCKS5 \<or> t = DUAL) \<and>
      (\<exists>tls cred. wf_optional wf_TlsIngressOption tls \<and> wf_optional wf_UpIngressCredential cred \<and>
         i = b\<lparr>in_tls := tls, in_credential := map_option IC_Up cred\<rparr>))"

definition wf_Ingress :: "ip_lib \<Rightarrow> IngressVO \<Rightarrow> bool" where
  "wf_Ingress ip i \<longleftrightarrow> in_bind i \<noteq> [] \<and> list_all (wf_endpoint ip) (in_bind i) \<and>
     wf_Ingress_as ip (in_type i) (empty_ingress (in_type i) (in_bind i)) i"

lemma optional_up_in:
  "parse_optional v k parse_UpIngressCredential = Inr x \<Longrightarrow> wf_optional wf_UpIngressCredential x"
  "parse_optional v k parse_UpIngressCredential = Inl e \<Longrightarrow> client_error e"
  using up_in.parse_wf up_in.parse_error
  by (auto simp: parse_optional_def wf_optional_def result_simps split: if_splits)

lemma parse_Ingress_as_frame:
  "parse_Ingress_as ip t b v = Inr i \<Longrightarrow> in_type i = in_type b \<and> in_bind i = in_bind b"
  by (cases t) (auto simp: result_simps split: if_splits)

lemma parse_Ingress_as_wf: "parse_Ingress_as ip t b v = Inr i \<Longrightarrow> wf_Ingress_as ip t b i"
  by (cases t; auto simp: result_simps dest!: optional_wfs optional_up_in(1) option_wfs
       credential_wfs split: if_splits; blast)

lemma parse_Ingress_as_error: "parse_Ingress_as ip t b v = Inl e \<Longrightarrow> client_error e"
  by (cases t)
     (auto simp: result_simps dest: optional_errors optional_up_in(2) option_errors
       credential_errors split: if_splits)

lemma parse_bind_wf:
  "parse_bind ip v = Inr eps \<Longrightarrow> eps \<noteq> [] \<and> list_all (wf_endpoint ip) eps"
  using mapM_Inr_length [of "parse_Endpoint ip"] mapM_endpoints_wf
  by (fastforce simp: parse_bind_def result_simps)

lemma parse_bind_error: "parse_bind ip v = Inl e \<Longrightarrow> client_error e"
  using endpoint.mapM_error by (auto simp: parse_bind_def result_simps)

lemma parse_bind_print: "eps \<noteq> [] \<Longrightarrow> list_all (wf_endpoint ip) eps \<Longrightarrow>
  parse_bind ip (JObject ((ingress_TYPE, t) # (ingress_BIND, toJson_array toJson_Endpoint eps) # ms))
    = Inr eps"
  by (simp add: parse_bind_def toJson_array_def)

lemma toJson_up_roundtrip:
  assumes t: "t = HTTP \<or> t = SOCKS5 \<or> t = DUAL"
    and wf: "wf_optional wf_TlsIngressOption tls" "wf_optional wf_UpIngressCredential cred"
    and i: "i = (empty_ingress t bind)\<lparr>in_tls := tls, in_credential := map_option IC_Up cred\<rparr>"
  shows "\<exists>ms. toJson_Ingress_as t i = Inr ms \<and> parse_Ingress_as ip t (empty_ingress t bind)
    (JObject ((ingress_TYPE, x) # (ingress_BIND, y) # ms)) = Inr i"
proof (cases cred)
  case None
  then show ?thesis using t wf
    by (cases tls) (auto simp: i empty_ingress_def optional_member_def parse_optional_def)
next
  case (Some c)
  then obtain j where "toJson_UpIngressCredential c = Inr j" "parse_UpIngressCredential j = Inr c"
    using up_in.toJson_parse wf by auto
  then show ?thesis using t wf Some
    by (cases tls) (auto simp: i empty_ingress_def optional_member_def parse_optional_def)
qed

text \<open>The members that a printed ingress has beside its type and its addresses are parsed back.\<close>

lemma toJson_Ingress_as_roundtrip:
  assumes "wf_Ingress_as ip t b i" and "b = empty_ingress t bind"
  shows "\<exists>ms. toJson_Ingress_as t i = Inr ms \<and>
    parse_Ingress_as ip t b (JObject ((ingress_TYPE, x) # (ingress_BIND, y) # ms)) = Inr i"
proof (cases t)
  case TUNNEL
  with assms tunnel_opt.toJson_parse show ?thesis by (fastforce simp: empty_ingress_def)
next
  case TROJAN
  then obtain cred opt tls ws where wf: "wf_TrojanIngressCredential cred" "wf_TrojanOption ip opt"
    "wf_TlsIngressOption tls" "wf_optional wf_WebsocketOption ws"
    and i: "i = b\<lparr>in_credential := Some (IC_Trojan cred), in_opt := Some (IO_Trojan opt),
              in_tls := Some tls, in_websocket := ws\<rparr>"
    using assms by auto
  moreover obtain j where "toJson_TrojanIngressCredential cred = Inr j"
    "parse_TrojanIngressCredential j = Inr cred"
    using trojan_in.toJson_parse wf(1) by blast
  ultimately show ?thesis using TROJAN assms(2)
    by (cases ws) (auto simp: empty_ingress_def optional_member_def parse_optional_def)
next
  case HTTP
  then obtain tls cred where "wf_optional wf_TlsIngressOption tls"
    "wf_optional wf_UpIngressCredential cred"
    "i = (empty_ingress t bind)\<lparr>in_tls := tls, in_credential := map_option IC_Up cred\<rparr>"
    using assms by auto
  with HTTP toJson_up_roundtrip show ?thesis unfolding assms(2) by blast
next
  case SOCKS5
  then obtain tls cred where "wf_optional wf_TlsIngressOption tls"
    "wf_optional wf_UpIngressCredential cred"
    "i = (empty_ingress t bind)\<lparr>in_tls := tls, in_credential := map_option IC_Up cred\<rparr>"
    using assms by auto
  with SOCKS5 toJson_up_roundtrip show ?thesis unfolding assms(2) by blast
next
  case DUAL
  then obtain tls cred where "wf_optional wf_TlsIngressOption tls"
    "wf_optional wf_UpIngressCredential cred"
    "i = (empty_ingress t bind)\<lparr>in_tls := tls, in_credential := map_option IC_Up cred\<rparr>"
    using assms by auto
  with DUAL toJson_up_roundtrip show ?thesis unfolding assms(2) by blast
qed (use assms in \<open>auto simp: empty_ingress_def\<close>)

section \<open>The contract\<close>

interpretation ingress: vo_codec "parse_Ingress ip" toJson_Ingress "wf_Ingress ip" for ip
proof
  show "parse_Ingress ip v = Inr i \<Longrightarrow> wf_Ingress ip i" for v i
    using parse_Ingress_as_wf [of ip] parse_Ingress_as_frame [of ip] parse_bind_wf [of ip]
    by (fastforce simp: parse_Ingress_def wf_Ingress_def result_simps empty_ingress_def)
  show "parse_Ingress ip v = Inl e \<Longrightarrow> client_error e" for v e
    using parse_Ingress_as_error [of ip] parse_bind_error [of ip] adapter.parse_error
    by (fastforce simp: parse_Ingress_def result_simps)
  show "\<exists>j. toJson_Ingress i = Inr j \<and> parse_Ingress ip j = Inr i" if wf: "wf_Ingress ip i" for i
  proof -
    obtain ms where "toJson_Ingress_as (in_type i) i = Inr ms"
      "parse_Ingress_as ip (in_type i) (empty_ingress (in_type i) (in_bind i))
         (JObject ((ingress_TYPE, toJson_AdapterType (in_type i)) #
                   (ingress_BIND, toJson_array toJson_Endpoint (in_bind i)) # ms)) = Inr i"
      using wf toJson_Ingress_as_roundtrip [OF _ refl] unfolding wf_Ingress_def by blast
    moreover have "in_type i \<noteq> DIRECT" "in_type i \<noteq> REJECT"
      using wf by (auto simp: wf_Ingress_def)
    ultimately show ?thesis
      using wf by (simp add: toJson_Ingress_def parse_Ingress_def parse_bind_print wf_Ingress_def)
  qed
qed

section \<open>What a well-formed ingress holds\<close>

lemma wf_Ingress_as_TUNNEL: "wf_Ingress_as ip TUNNEL b i \<Longrightarrow>
  \<exists>opt. in_opt i = Some (IO_Tunnel opt) \<and> wf_TunnelOption ip opt"
  by auto

lemma wf_Ingress_as_SS: "wf_Ingress_as ip SS b i \<Longrightarrow>
  \<exists>opt. in_opt i = Some (IO_SS opt) \<and> wf_ShadowsocksOption opt"
  by auto

lemma wf_Ingress_as_TROJAN: "wf_Ingress_as ip TROJAN b i \<Longrightarrow>
  \<exists>cred opt tls. in_credential i = Some (IC_Trojan cred) \<and> in_opt i = Some (IO_Trojan opt) \<and>
    in_tls i = Some tls \<and> wf_TrojanIngressCredential cred \<and> wf_TrojanOption ip opt"
  by auto

lemma wf_Ingress_as_UP: "t = HTTP \<or> t = SOCKS5 \<or> t = DUAL \<Longrightarrow> in_credential b = None \<Longrightarrow>
  wf_Ingress_as ip t b i \<Longrightarrow>
  in_credential i = None \<or> (\<exists>c. in_credential i = Some (IC_Up c) \<and> wf_UpIngressCredential c)"
  by (auto simp: wf_optional_def split: option.splits)

lemma wf_Ingress_TUNNEL: "wf_Ingress ip i \<Longrightarrow> in_type i = TUNNEL \<Longrightarrow>
  \<exists>opt. in_opt i = Some (IO_Tunnel opt) \<and> wf_TunnelOption ip opt"
  unfolding wf_Ingress_def using wf_Ingress_as_TUNNEL by metis

lemma wf_Ingress_SS: "wf_Ingress ip i \<Longrightarrow> in_type i = SS \<Longrightarrow>
  \<exists>opt. in_opt i = Some (IO_SS opt) \<and> wf_ShadowsocksOption opt"
  unfolding wf_Ingress_def using wf_Ingress_as_SS by metis

lemma wf_Ingress_TROJAN: "wf_Ingress ip i \<Longrightarrow> in_type i = TROJAN \<Longrightarrow>
  \<exists>cred opt tls. in_credential i = Some (IC_Trojan cred) \<and> in_opt i = Some (IO_Trojan opt) \<and>
    in_tls i = Some tls \<and> wf_TrojanIngressCredential cred \<and> wf_TrojanOption ip opt"
  unfolding wf_Ingress_def using wf_Ingress_as_TROJAN by metis

lemma wf_Ingress_UP: "wf_Ingress ip i \<Longrightarrow> in_type i \<in> {HTTP, SOCKS5, DUAL} \<Longrightarrow>
  in_credential i = None \<or> (\<exists>c. in_credential i = Some (IC_Up c) \<and> wf_UpIngressCredential c)"
  unfolding wf_Ingress_def
  using wf_Ingress_as_UP [of "in_type i" "empty_ingress (in_type i) (in_bind i)" ip i]
  by (simp add: empty_ingress_def)

lemma wf_Ingress_types: "wf_Ingress ip i \<Longrightarrow> in_type i \<noteq> DIRECT \<and> in_type i \<noteq> REJECT"
  by (auto simp: wf_Ingress_def)

lemma wf_Ingress_as_name: "wf_Ingress_as ip t b i \<Longrightarrow> in_name i = in_name b"
  by (cases t) auto

lemma wf_Ingress_name: "wf_Ingress ip i \<Longrightarrow> i\<lparr>in_name := []\<rparr> = i"
  using wf_Ingress_as_name [of ip "in_type i" "empty_ingress (in_type i) (in_bind i)" i]
  by (cases i) (simp add: wf_Ingress_def empty_ingress_def)

section \<open>Properties\<close>

definition sample_ingress_json :: json where
  "sample_ingress_json = JObject
     [(ingress_TYPE, JString ''socks5''),
      (ingress_BIND, JArray [JObject [(endpoint_HOST, JString ''127.0.0.1''), (endpoint_PORT, JInt 1080)]]),
      (ingress_CREDENTIALS, JArray
         [JObject [(credential_USERNAME, JString ''alice''), (credential_PASSWORD, JString ''a'')],
          JObject [(credential_USERNAME, JString ''bob''), (credential_PASSWORD, JString ''b'')]])]"

lemma sample_ingress_parses: "\<exists>i. parse_Ingress sample_ip sample_ingress_json = Inr i"
proof -
  have "case parse_Ingress sample_ip sample_ingress_json of Inl _ \<Rightarrow> False | Inr _ \<Rightarrow> True"
    by code_simp
  then show ?thesis by (auto split: sum.splits)
qed

text \<open>
  C15: Every ingress the API accepts can be printed, and what is printed parses to the same ingress,
  with the same users in the same order.
\<close>

theorem ingress_reparse:
  assumes "parse_Ingress ip v = Inr i"
  shows "\<exists>j. toJson_Ingress i = Inr j \<and> parse_Ingress ip j = Inr i"
  using assms by (rule ingress.reparse)

theorem ingress_reparse_witness:
  "\<exists>i j. parse_Ingress sample_ip sample_ingress_json = Inr i \<and> toJson_Ingress i = Inr j \<and>
     parse_Ingress sample_ip j = Inr i"
  using sample_ingress_parses ingress_reparse by blast

text \<open>
  A configuration object is refused with nothing but \<^verbatim>\<open>BAD_JSON\<close> or \<^verbatim>\<open>SEMANTIC_ERROR\<close>, the two codes
  the server answers with a client error: no other exception and no undefined operation, whatever
  the document.
\<close>

theorem parse_client_errors:
  assumes "parse_Ingress ip v = Inl e \<or> parse_Egress ip v = Inl e"
  shows "client_error e"
  using assms ingress.parse_error egress.parse_error by blast

theorem parse_client_errors_witness:
  "parse_Ingress sample_ip (JObject [(ingress_TYPE, JString ''direct'')]) =
     Inl (SystemError (Pichi_code BAD_JSON) AT_INVALID) \<and>
   client_error (SystemError (Pichi_code BAD_JSON) AT_INVALID)"
proof -
  have "parse_Ingress sample_ip (JObject [(ingress_TYPE, JString ''direct'')]) =
     Inl (SystemError (Pichi_code BAD_JSON) AT_INVALID)" by code_simp
  then show ?thesis using parse_client_errors by blast
qed

end
