(* ===== verification/Pichi_Http.thy ===== *)
theory Pichi_Http
  imports Pichi_Uri Pichi_Stream Pichi_Egress Pichi_Ingress
begin

text \<open>
  The HTTP adapters (\<^verbatim>\<open>include/pichi/adapter/tcp/http.hpp\<close>, \<^verbatim>\<open>src/adapter/tcp/http.cpp\<close>): the ingress that
  serves CONNECT requests as tunnels and every other request as a forwarding proxy, and the egress
  that asks the next proxy for a tunnel.

  Boost.Beast's header parsers and serialisers and Botan's Base64 are the parameter \<open>http_lib\<close>. The
  parser of a header is a function of all the bytes put into it so far: it wants more, or reports an
  error, or has the message, whether it asks for an upgrade, and how many bytes the header took.
\<close>

section \<open>Messages\<close>

type_synonym http_fields = "(string \<times> string) list"

record HttpRequest =
  hr_method :: string
  hr_target :: string
  hr_version :: nat
  hr_fields :: http_fields

record HttpResponse =
  hs_version :: nat
  hs_result :: nat
  hs_reason :: string
  hs_fields :: http_fields

text \<open>\<^verbatim>\<open>fields::find\<close> and \<^verbatim>\<open>fields::set\<close>: names compare without case, \<^verbatim>\<open>set\<close> replaces every field of the name.\<close>

definition field_find :: "http_fields \<Rightarrow> string \<Rightarrow> string option" where
  "field_find fs name = map_option snd (find (\<lambda>f. iequals (fst f) name) fs)"

definition field_set :: "string \<Rightarrow> string \<Rightarrow> http_fields \<Rightarrow> http_fields" where
  "field_set name v fs = filter (\<lambda>f. \<not> iequals (fst f) name) fs @ [(name, v)]"

datatype 'a parsed = H_more | H_error http_error | H_done 'a bool nat

record http_lib =
  hl_parse_request :: "bytes \<Rightarrow> HttpRequest parsed"
  hl_parse_response :: "bytes \<Rightarrow> HttpResponse parsed"
  hl_request_header :: "HttpRequest \<Rightarrow> bytes"
  hl_write_request :: "HttpRequest \<Rightarrow> bytes"
  hl_write_response :: "HttpResponse \<Rightarrow> bytes"
  hl_read_size :: "nat \<Rightarrow> nat"
  hl_base64 :: "string \<Rightarrow> string"

abbreviation HEADER_LIMIT :: int where "HEADER_LIMIT \<equiv> 1048576"
abbreviation http_partial_message :: http_error where "http_partial_message \<equiv> http_other 1"

text \<open>
  \<^verbatim>\<open>http::async_read_header\<close>, from its documentation: the buffer's bytes go to the parser, and the
  layer is read as long as it wants more. The state is the layer and the buffer. A parser wants
  nothing more behind its limit, and a layer delivers at least one byte; where a library breaks
  either promise the loop has no bound.
\<close>

function read_header :: "(bytes \<Rightarrow> 'a parsed) \<Rightarrow> http_lib \<Rightarrow> 's layer \<Rightarrow> ('s \<times> bytes, 'a \<times> bool) io" where
  "read_header parse lib ly (s, cache) =
     (case (if cache = [] then H_more else parse cache) of
        H_done msg upgrade n \<Rightarrow> (Inr (msg, upgrade), (s, drop n cache))
      | H_error e \<Rightarrow> (Inl (SystemError (Http_code e) ''''), (s, cache))
      | H_more \<Rightarrow>
          if HEADER_LIMIT \<le> int (length cache) then (Inl Diverges, (s, cache))
          else case ly_read_some ly (hl_read_size lib (length cache)) s of
            (Inl e, s') \<Rightarrow>
              (Inl (case e of
                 SystemError (Asio_code asio_eof) _ \<Rightarrow>
                   SystemError (Http_code (if cache = [] then http_end_of_stream else http_partial_message)) ''''
               | _ \<Rightarrow> e), (s', cache))
          | (Inr bs, s') \<Rightarrow>
              if bs = [] then (Inl Diverges, (s', cache))
              else read_header parse lib ly (s', cache @ bs))"
  by pat_completeness auto
termination
proof (relation "measure (\<lambda>(parse, lib, ly, s, cache). nat (HEADER_LIMIT - int (length cache)))")
  fix cache :: bytes and bs :: bytes
  assume "\<not> HEADER_LIMIT \<le> int (length cache)" and "bs \<noteq> []"
  then have "nat (HEADER_LIMIT - int (length (cache @ bs))) < nat (HEADER_LIMIT - int (length cache))"
    by (cases bs) auto
  then show "((parse, lib, ly, s', cache @ bs), (parse, lib, ly, s, cache)) \<in>
      measure (\<lambda>(parse, lib, ly, s, cache). nat (HEADER_LIMIT - int (length cache)))"
    for parse :: "bytes \<Rightarrow> 'a parsed" and lib :: http_lib and ly :: "'s layer" and s s'
    by simp
qed simp

declare read_header.simps [simp del]

section \<open>The target of a request\<close>

definition get_remote :: "ip_lib \<Rightarrow> HttpRequest \<Rightarrow> (Endpoint \<times> HttpRequest) result" where
  "get_remote ip req =
     rthen (assertFalse (hr_target req = []) BAD_PROTO ''Empty path'')
    (if hr_target req ! 0 \<noteq> CHR ''/''
     then rbind (make_Uri (hr_target req)) (\<lambda>uri.
          rbind (makeEndpoint_str ip (uri_host uri) (uri_port uri)) (\<lambda>ep.
          Inr (ep, req\<lparr>hr_target := uri_suffix uri\<rparr>)))
     else case field_find (hr_fields req) ''Host'' of
            None \<Rightarrow> fail_with BAD_PROTO ''Lack of target information''
          | Some v \<Rightarrow>
              rbind (make_HostAndPort v) (\<lambda>hp.
              rbind (makeEndpoint_str ip (hp_host hp) (hp_port hp)) (\<lambda>ep.
              Inr (ep, req))))"

section \<open>Manners\<close>

record proxy =
  px_in :: bytes
  px_out :: bytes
  px_header_done :: bool

datatype manner = M_Invalid | M_Connect bytes | M_Proxy proxy

text \<open>\<^verbatim>\<open>recv\<close> from a cache in front of a layer.\<close>

definition connect_manner_recv :: "'s layer \<Rightarrow> nat \<Rightarrow> ('s \<times> bytes, bytes) io" where
  "connect_manner_recv ly n sc = (case sc of (s, cache) \<Rightarrow>
     if cache = [] then (case ly_read_some ly n s of (r, s') \<Rightarrow> (r, (s', cache)))
     else (let copied = min n (length cache)
           in (Inr (take copied cache), (s, drop copied cache))))"

definition connect_manner_confirm :: "http_lib \<Rightarrow> 's layer \<Rightarrow> ('s, unit) io" where
  "connect_manner_confirm lib ly = ly_write ly (hl_write_response lib
     \<lparr>hs_version = 11, hs_result = 200, hs_reason = ''Connection Established'', hs_fields = []\<rparr>)"

text \<open>
  The constructor of \<^verbatim>\<open>ProxyManner\<close>: the header goes behind the bytes already read of the body, these are
  copied behind the header and dropped in front.
\<close>

definition proxy_new :: "http_lib \<Rightarrow> bytes \<Rightarrow> HttpRequest \<Rightarrow> proxy" where
  "proxy_new lib cache req =
     (let sticked = length cache;
          in1 = cache @ hl_request_header lib req;
          in2 = in1 @ take sticked in1
      in \<lparr>px_in = drop sticked in2, px_out = [], px_header_done = False\<rparr>)"

definition proxy_recv :: "'s layer \<Rightarrow> nat \<Rightarrow> ('s \<times> proxy, bytes) io" where
  "proxy_recv ly n sp = (case sp of (s, px) \<Rightarrow>
     if px_in px = [] then (case ly_read_some ly n s of (r, s') \<Rightarrow> (r, (s', px)))
     else (let copied = min (length (px_in px)) n
           in (Inr (take copied (px_in px)), (s, px\<lparr>px_in := drop copied (px_in px)\<rparr>))))"

text \<open>The header fields of a response that is no upgrade.\<close>

definition close_response :: "bool \<Rightarrow> HttpResponse \<Rightarrow> HttpResponse" where
  "close_response upgrade rep =
     (if \<not> upgrade
      then rep\<lparr>hs_fields := field_set ''Proxy-Connection'' ''close''
                              (field_set ''Connection'' ''close'' (hs_fields rep))\<rparr>
      else rep)"

definition proxy_send :: "http_lib \<Rightarrow> 's layer \<Rightarrow> bytes \<Rightarrow> ('s \<times> proxy, unit) io" where
  "proxy_send lib ly buf sp = (case sp of (s, px) \<Rightarrow>
     if px_header_done px then (case ly_write ly buf s of (r, s') \<Rightarrow> (r, (s', px)))
     else (let out = (if px_out px \<noteq> [] then px_out px @ buf else px_out px);
               b = (if px_out px \<noteq> [] then out else buf)
           in case hl_parse_response lib b of
                H_error e \<Rightarrow> (Inl (SystemError (Http_code e) ''''), (s, px\<lparr>px_out := out\<rparr>))
              | H_more \<Rightarrow> (Inr (), (s, px\<lparr>px_out := b\<rparr>))
              | H_done rep upgrade n \<Rightarrow>
                  (let px1 = px\<lparr>px_out := drop n b, px_header_done := True\<rparr>
                   in case ly_write ly (hl_write_response lib (close_response upgrade rep)) s of
                        (Inl e, s1) \<Rightarrow> (Inl e, (s1, px1))
                      | (Inr _, s1) \<Rightarrow>
                          if drop n b = [] then (Inr (), (s1, px1))
                          else (case ly_write ly (drop n b) s1 of
                                  (Inl e, s2) \<Rightarrow> (Inl e, (s2, px1))
                                | (Inr _, s2) \<Rightarrow> (Inr (), (s2, px1\<lparr>px_out := []\<rparr>))))))"

section \<open>Credentials\<close>

definition BASIC_AUTH_PATTERN :: rx where
  "BASIC_AUTH_PATTERN =
     RSeq (RLit_icase ''basic '')
          (RGroup 1 (RSeq (RPlus (ROneOf ''abcdefghijklmnopqrstuvwxyzABCDEFGHIJKLMNOPQRSTUVWXYZ0123456789+/''))
                          (ROpt (RSeq (RLit ''='') (ROpt (RLit ''=''))))))"

definition gen_auth :: "http_lib \<Rightarrow> string \<Rightarrow> string \<Rightarrow> string" where
  "gen_auth lib u p = hl_base64 lib (u @ '':'' @ p)"

definition gen_credentials :: "http_lib \<Rightarrow> IngressVO \<Rightarrow> string list result" where
  "gen_credentials lib vo =
     (case in_credential vo of
        None \<Rightarrow> Inr []
      | Some c \<Rightarrow> rbind (get_IC_Up c) (\<lambda>items. Inr (map (\<lambda>(u, p). gen_auth lib u p) items)))"

definition http_authenticate :: "http_fields \<Rightarrow> string list \<Rightarrow> bool result" where
  "http_authenticate req credentials =
     (case field_find req ''Proxy-Authorization'' of
        None \<Rightarrow> fail_with BAD_AUTH_METHOD ''''
      | Some auth \<Rightarrow>
          (case rx_match BASIC_AUTH_PATTERN auth of
             None \<Rightarrow> fail_with BAD_AUTH_METHOD ''''
           | Some k \<Rightarrow>
               rthen (assertTrue (2 = rx_groups BASIC_AUTH_PATTERN + 1 \<and> group_matched k 1) BAD_AUTH_METHOD '''')
              (Inr (group_str k 1 \<in> set credentials))))"

definition gen_credential :: "http_lib \<Rightarrow> EgressVO \<Rightarrow> string result" where
  "gen_credential lib vo =
     (case eg_credential vo of
        None \<Rightarrow> Inr []
      | Some c \<Rightarrow> rbind (get_EC_Up c) (\<lambda>(u, p). Inr (''Basic '' @ gen_auth lib u p)))"

section \<open>The ingress\<close>

record 's http =
  ht_underlying :: 's
  ht_manner :: manner
  ht_cache :: bytes

definition http_new :: "'s \<Rightarrow> 's http" where
  "http_new s = \<lparr>ht_underlying = s, ht_manner = M_Invalid, ht_cache = []\<rparr>"

definition on_http :: "('s, 'a) io \<Rightarrow> ('s http, 'a) io" where
  "on_http f s = (case f (ht_underlying s) of (r, u) \<Rightarrow> (r, s\<lparr>ht_underlying := u\<rparr>))"

text \<open>What \<^verbatim>\<open>continue_read_remote\<close> does with the request once the header is read.\<close>

definition http_serve ::
  "ip_lib \<Rightarrow> http_lib \<Rightarrow> string list \<Rightarrow> HttpRequest \<Rightarrow> bool \<Rightarrow> ('s http, Endpoint) io" where
  "http_serve ip lib credentials req upgrade =
     iobind (ioret (if credentials \<noteq> []
                    then rbind (http_authenticate (hr_fields req) credentials) (\<lambda>ok.
                         assertTrue ok UNAUTHENTICATED '''')
                    else Inr ())) (\<lambda>_.
     if hr_method req = ''CONNECT''
     then iobind (\<lambda>s. (Inr (), s\<lparr>ht_manner := M_Connect (ht_cache s), ht_cache := []\<rparr>)) (\<lambda>_.
          ioret (rbind (make_HostAndPort (hr_target req)) (\<lambda>hp.
                 makeEndpoint_str ip (hp_host hp) (hp_port hp))))
     else iobind (ioret (get_remote ip req)) (\<lambda>(remote, req).
          let req = (if \<not> upgrade
                     then req\<lparr>hr_fields := field_set ''Proxy-Connection'' ''close''
                                             (field_set ''Connection'' ''close'' (hr_fields req))\<rparr>
                     else req)
          in (\<lambda>s. (Inr remote, s\<lparr>ht_manner := M_Proxy (proxy_new lib (ht_cache s) req), ht_cache := []\<rparr>))))"

definition http_continue_read_remote ::
  "ip_lib \<Rightarrow> http_lib \<Rightarrow> 's layer \<Rightarrow> string list \<Rightarrow> bytes \<Rightarrow> ('s http, Endpoint) io" where
  "http_continue_read_remote ip lib ly credentials b s =
     (case read_header (hl_parse_request lib) lib ly (ht_underlying s, ht_cache s @ b) of
        (Inl e, (u, cache)) \<Rightarrow> (Inl e, s\<lparr>ht_underlying := u, ht_cache := cache\<rparr>)
      | (Inr (req, upgrade), (u, cache)) \<Rightarrow>
          http_serve ip lib credentials req upgrade (s\<lparr>ht_underlying := u, ht_cache := cache\<rparr>))"

definition http_read_remote ::
  "ip_lib \<Rightarrow> http_lib \<Rightarrow> 's layer \<Rightarrow> string list \<Rightarrow> ('s http, Endpoint) io" where
  "http_read_remote ip lib ly credentials =
     iobind (on_http (ly_accept ly)) (\<lambda>_.
     iobind (on_http (ly_read ly 1)) (\<lambda>buf.
     http_continue_read_remote ip lib ly credentials buf))"

definition http_ingress_recv :: "'s layer \<Rightarrow> nat \<Rightarrow> ('s http, bytes) io" where
  "http_ingress_recv ly n s =
     (case ht_manner s of
        M_Invalid \<Rightarrow> (fail_misc ''Unexpected invocation'', s)
      | M_Connect cache \<Rightarrow>
          (case connect_manner_recv ly n (ht_underlying s, cache) of (r, (u, c)) \<Rightarrow>
             (r, s\<lparr>ht_underlying := u, ht_manner := M_Connect c\<rparr>))
      | M_Proxy px \<Rightarrow>
          (case proxy_recv ly n (ht_underlying s, px) of (r, (u, px')) \<Rightarrow>
             (r, s\<lparr>ht_underlying := u, ht_manner := M_Proxy px'\<rparr>)))"

definition http_ingress_send :: "http_lib \<Rightarrow> 's layer \<Rightarrow> bytes \<Rightarrow> ('s http, unit) io" where
  "http_ingress_send lib ly buf s =
     (case ht_manner s of
        M_Invalid \<Rightarrow> (fail_misc ''Unexpected invocation'', s)
      | M_Connect cache \<Rightarrow> on_http (ly_write ly buf) s
      | M_Proxy px \<Rightarrow>
          (case proxy_send lib ly buf (ht_underlying s, px) of (r, (u, px')) \<Rightarrow>
             (r, s\<lparr>ht_underlying := u, ht_manner := M_Proxy px'\<rparr>)))"

definition http_confirm :: "http_lib \<Rightarrow> 's layer \<Rightarrow> ('s http, unit) io" where
  "http_confirm lib ly s =
     (case ht_manner s of
        M_Invalid \<Rightarrow> (fail_misc ''Unexpected invocation'', s)
      | M_Connect cache \<Rightarrow> on_http (connect_manner_confirm lib ly) s
      | M_Proxy px \<Rightarrow> (Inr (), s))"

definition http_ingress_close :: "'s layer \<Rightarrow> ('s http, unit) io" where
  "http_ingress_close ly = iobind (on_http (redirect_void (ly_close ly))) (\<lambda>_. ioret (Inr ()))"

text \<open>The response of \<^verbatim>\<open>disconnect\<close> to an error. A code is no error when its value is zero.\<close>

definition disconnect_response :: "error_code \<Rightarrow> HttpResponse" where
  "disconnect_response ec =
     (let rep = (\<lambda>st fs. \<lparr>hs_version = 11, hs_result = st, hs_reason = '''', hs_fields = fs\<rparr>);
          fs = [(''Connection'', ''Close'')]
      in if ec = Pichi_code CONN_FAILURE then rep 504 fs
         else if ec = Pichi_code BAD_AUTH_METHOD then rep 407 (field_set ''Proxy-Authenticate'' ''Basic'' fs)
         else if ec = Pichi_code UNAUTHENTICATED then rep 403 fs
         else case ec of
                Pichi_code _ \<Rightarrow> rep 500 fs
              | Http_code _ \<Rightarrow> rep 400 fs
              | _ \<Rightarrow> rep 504 fs)"

definition http_disconnect :: "http_lib \<Rightarrow> 's layer \<Rightarrow> error_code \<Rightarrow> ('s http, unit) io" where
  "http_disconnect lib ly ec =
     (if ec = Pichi_code OK then ioret (Inr ())
      else on_http (ly_write ly (hl_write_response lib (disconnect_response ec))))"

section \<open>The egress\<close>

text \<open>The state of the egress is the layer and \<^verbatim>\<open>cache_\<close>, where the response leaves what follows it.\<close>

definition http_egress_recv :: "'s layer \<Rightarrow> nat \<Rightarrow> ('s \<times> bytes, bytes) io" where
  "http_egress_recv ly n sc = (case sc of (s, cache) \<Rightarrow>
     if cache = [] then (case ly_read_some ly n s of (r, s') \<Rightarrow> (r, (s', cache)))
     else (let copied = min (length cache) n
           in (Inr (take copied cache), (s, drop copied cache))))"

definition on_fst :: "('s, 'a) io \<Rightarrow> ('s \<times> 't, 'a) io" where
  "on_fst f st = (case f (fst st) of (r, s) \<Rightarrow> (r, (s, snd st)))"

definition http_egress_send :: "'s layer \<Rightarrow> bytes \<Rightarrow> ('s \<times> bytes, unit) io" where
  "http_egress_send ly buf = on_fst (ly_write ly buf)"

definition http_egress_close :: "'s layer \<Rightarrow> ('s \<times> bytes, unit) io" where
  "http_egress_close ly = iobind (on_fst (redirect_void (ly_close ly))) (\<lambda>_. ioret (Inr ()))"

text \<open>
  \<^verbatim>\<open>prepare_payload\<close> adds no field to a CONNECT request without a body.
\<close>

definition connect_target :: "Endpoint \<Rightarrow> string" where
  "connect_target remote =
     (if ep_type remote = IPV6
      then ''['' @ ep_host remote @ '':'' @ to_string_nat (unat (ep_port remote)) @ '']''
      else ep_host remote @ '':'' @ to_string_nat (unat (ep_port remote)))"

definition connect_request :: "string \<Rightarrow> Endpoint \<Rightarrow> HttpRequest" where
  "connect_request credential remote =
     (let target = connect_target remote;
          fs = field_set ''Proxy-Connection'' ''Keep-Alive'' (field_set ''Host'' target []);
          fs = (if credential \<noteq> [] then field_set ''Proxy-Authorization'' credential fs else fs)
      in \<lparr>hr_method = ''CONNECT'', hr_target = target, hr_version = 11, hr_fields = fs\<rparr>)"

definition http_connect ::
  "http_lib \<Rightarrow> 's layer \<Rightarrow> string \<Rightarrow> Endpoint \<Rightarrow> Endpoint \<Rightarrow> ('s \<times> bytes, unit) io" where
  "http_connect lib ly credential peer remote =
     iobind (on_fst (ly_connect ly peer)) (\<lambda>_.
     iobind (on_fst (ly_write ly (hl_write_request lib (connect_request credential remote)))) (\<lambda>_.
     iobind (read_header (hl_parse_response lib) lib ly) (\<lambda>(rep, _).
     ioret (assertTrue (200 \<le> hs_result rep \<and> hs_result rep < 300) CONN_FAILURE ''''))))"

section \<open>Reading a header\<close>

text \<open>
  What the code relies on of the parser for one message: \<open>hb\<close> is its header, every proper part of it
  from the front wants more, and with all of it the parser has the message, whatever follows.
\<close>

definition header_of :: "(bytes \<Rightarrow> 'a parsed) \<Rightarrow> 'a \<Rightarrow> bool \<Rightarrow> bytes \<Rightarrow> bool" where
  "header_of parse msg upgrade hb \<longleftrightarrow> hb \<noteq> [] \<and> int (length hb) \<le> HEADER_LIMIT \<and>
     (\<forall>rest. parse (hb @ rest) = H_done msg upgrade (length hb)) \<and>
     (\<forall>p. strict_prefix p hb \<longrightarrow> p \<noteq> [] \<longrightarrow> parse p = H_more)"

definition reads_some :: "http_lib \<Rightarrow> bool" where
  "reads_some lib \<longleftrightarrow> (\<forall>n. 0 < hl_read_size lib n)"

lemma prefix_of_header:
  assumes "cache @ c = hb @ rest"
  shows "strict_prefix cache hb \<or> (\<exists>extra. cache = hb @ extra \<and> rest = extra @ c)"
  using assms by (auto simp: append_eq_append_conv2 strict_prefix_def)

context byte_channel
begin

lemma read_header_ok:
  assumes "header_of parse msg upgrade hb" and "reads_some lib"
  shows "inv s \<Longrightarrow> cache @ content s = hb @ rest \<Longrightarrow>
    \<exists>s' cache'. read_header parse lib ly (s, cache) = (Inr (msg, upgrade), (s', cache')) \<and>
      cache' @ content s' = rest \<and> written s' = written s \<and> inv s'"
proof (induction "length (content s)" arbitrary: s cache rule: less_induct)
  case less
  note h = assms(1) [unfolded header_of_def]
  from prefix_of_header [OF less.prems(2)] show ?case
  proof
    assume p: "strict_prefix cache hb"
    then have len: "\<not> HEADER_LIMIT \<le> int (length cache)" and ne: "content s \<noteq> []"
      using h less.prems(2) prefix_length_less [OF p] by auto
    obtain bs s1 where bs: "ly_read_some ly (hl_read_size lib (length cache)) s = (Inr bs, s1)" "bs \<noteq> []"
      "content s = bs @ content s1" "written s1 = written s" "inv s1"
      using some_ok [OF less.prems(1) ne, of "hl_read_size lib (length cache)"] assms(2)
      by (auto simp: reads_some_def)
    then have "length (content s1) < length (content s)" by simp
    from less.hyps [OF this bs(5), of "cache @ bs"] less.prems(2) bs(3)
    obtain s2 cache' where r: "read_header parse lib ly (s1, cache @ bs) = (Inr (msg, upgrade), (s2, cache'))"
      "cache' @ content s2 = rest" "written s2 = written s1" "inv s2" by auto
    have more: "(if cache = [] then H_more else parse cache) = H_more" using h p by simp
    have "read_header parse lib ly (s, cache) = read_header parse lib ly (s1, cache @ bs)"
      using len bs(1,2) by (subst read_header.simps) (simp add: more)
    then show ?thesis using r bs(4) by simp
  next
    assume "\<exists>extra. cache = hb @ extra \<and> rest = extra @ content s"
    then obtain extra where e: "cache = hb @ extra" "rest = extra @ content s" by blast
    then have "(if cache = [] then H_more else parse cache) = H_done msg upgrade (length hb)" using h by auto
    then have "read_header parse lib ly (s, cache) = (Inr (msg, upgrade), (s, drop (length hb) cache))"
      by (subst read_header.simps) simp
    then show ?thesis using e less.prems(1) by simp
  qed
qed

text \<open>A header that ends too early is an error, never a message.\<close>

lemma read_header_conserves:
  "inv s \<Longrightarrow> read_header parse lib ly (s, cache) = (Inr (msg, upgrade), (s', cache')) \<Longrightarrow>
    \<exists>n used. parse used = H_done msg upgrade n \<and> cache @ content s = used @ content s' \<and>
      cache' = drop n used \<and> written s' = written s \<and> inv s'"
proof (induction "length (content s)" arbitrary: s cache rule: less_induct)
  case less
  show ?case
  proof (cases "if cache = [] then H_more else parse cache")
    case (H_done m u n)
    then have "parse cache = H_done m u n" "cache \<noteq> []" by (auto split: if_splits)
    moreover have "m = msg" "u = upgrade" "s' = s" "cache' = drop n cache"
      using less.prems(2) H_done by (auto simp: read_header.simps [of parse lib ly s cache])
    ultimately show ?thesis using less.prems(1) by blast
  next
    case (H_error e)
    then show ?thesis using less.prems(2) by (auto simp: read_header.simps [of parse lib ly s cache])
  next
    case H_more
    obtain bs s1 where bs: "\<not> HEADER_LIMIT \<le> int (length cache)" "bs \<noteq> []"
      "ly_read_some ly (hl_read_size lib (length cache)) s = (Inr bs, s1)"
      "read_header parse lib ly (s1, cache @ bs) = (Inr (msg, upgrade), (s', cache'))"
      using less.prems(2) H_more
      by (auto simp: read_header.simps [of parse lib ly s cache] split: if_splits prod.splits sum.splits)
    have c: "content s = bs @ content s1" "written s1 = written s" "inv s1"
      using some_conserves [OF less.prems(1) bs(3)] by auto
    from less.hyps [OF _ c(3) bs(4)] show ?thesis using c bs(2) by simp
  qed
qed

lemma on_http_step:
  "f (ht_underlying s) = (Inr x, u) \<Longrightarrow> on_http f s = (Inr x, s\<lparr>ht_underlying := u\<rparr>)"
  by (simp add: on_http_def)

text \<open>From the first byte to the end of the request's header.\<close>

lemma http_read_request:
  assumes "inv s" and "header_of (hl_parse_request lib) req upgrade hb" and "reads_some lib"
    and "content s = hb @ rest"
  shows "\<exists>t. http_read_remote ip lib ly creds (http_new s) = http_serve ip lib creds req upgrade t \<and>
    ht_cache t @ content (ht_underlying t) = rest \<and> written (ht_underlying t) = written s \<and>
    inv (ht_underlying t)"
proof -
  obtain b hb' where hb: "hb = b # hb'" using assms(2) by (cases hb) (auto simp: header_of_def)
  obtain s0 where s0: "ly_accept ly s = (Inr (), s0)" "content s0 = [b] @ hb' @ rest"
      "written s0 = written s" "inv s0"
    using accept_ok [OF assms(1)] assms(4) hb by auto
  obtain s1 where s1: "ly_read ly 1 s0 = (Inr [b], s1)" "content s1 = hb' @ rest"
      "written s1 = written s" "inv s1"
    using read_append [OF s0(4,2), of 1] s0(3) by auto
  obtain s2 cache where s2: "read_header (hl_parse_request lib) lib ly (s1, [b]) = (Inr (req, upgrade), (s2, cache))"
      "cache @ content s2 = rest" "written s2 = written s" "inv s2"
    using read_header_ok [OF assms(2,3) s1(4), of "[b]" rest] s1(2,3) hb by auto
  let ?t = "(http_new s)\<lparr>ht_underlying := s2, ht_cache := cache\<rparr>"
  have "http_read_remote ip lib ly creds (http_new s) = http_serve ip lib creds req upgrade ?t"
    using s0(1) s1(1) s2(1)
    by (simp add: http_read_remote_def http_new_def on_http_step http_continue_read_remote_def)
  then show ?thesis using s2 by (intro exI [of _ ?t]) simp
qed

lemma http_read_remote_back:
  assumes "inv s" and "http_read_remote ip lib ly creds (http_new s) = (Inr ep, t')"
  shows "\<exists>used rest req upgrade n t. content s = used @ rest \<and>
    hl_parse_request lib used = H_done req upgrade n \<and> http_serve ip lib creds req upgrade t = (Inr ep, t')"
proof -
  obtain s0 where s0: "ly_accept ly s = (Inr (), s0)" "content s0 = content s" "inv s0"
    using accept_ok [OF assms(1)] by blast
  obtain b s1 where b: "ly_read ly 1 s0 = (Inr b, s1)" and
    r: "http_continue_read_remote ip lib ly creds b ((http_new s)\<lparr>ht_underlying := s1\<rparr>) = (Inr ep, t')"
    using assms(2) s0(1)
    by (auto simp: http_read_remote_def http_new_def on_http_def result_simps split: prod.splits)
  have s1: "content s = b @ content s1" "inv s1" using read_back [OF s0(3) b] s0(2) by auto
  obtain req upgrade u cache where h: "read_header (hl_parse_request lib) lib ly (s1, b) = (Inr (req, upgrade), (u, cache))"
    "http_serve ip lib creds req upgrade ((http_new s)\<lparr>ht_underlying := u, ht_cache := cache\<rparr>) = (Inr ep, t')"
    using r by (auto simp: http_continue_read_remote_def http_new_def split: prod.splits sum.splits)
  obtain n used where "hl_parse_request lib used = H_done req upgrade n" "b @ content s1 = used @ content u"
    using read_header_conserves [OF s1(2) h(1)] by blast
  then show ?thesis using s1(1) h(2) by metis
qed

lemma http_connect_ok:
  assumes "inv s" and "header_of (hl_parse_response lib) rep upgrade ab" and "reads_some lib"
    and "content s = ab @ rest" and "200 \<le> hs_result rep" and "hs_result rep < 300"
  shows "\<exists>s' cache. http_connect lib ly cred peer remote (s, []) = (Inr (), (s', cache)) \<and>
    cache @ content s' = rest \<and>
    written s' = written s @ hl_write_request lib (connect_request cred remote) \<and> inv s'"
proof -
  let ?req = "hl_write_request lib (connect_request cred remote)"
  obtain s0 where s0: "ly_connect ly peer s = (Inr (), s0)" "content s0 = ab @ rest" "written s0 = written s" "inv s0"
    using connect_ok [OF assms(1)] assms(4) by auto
  obtain s1 where s1: "ly_write ly ?req s0 = (Inr (), s1)" "content s1 = ab @ rest"
      "written s1 = written s @ ?req" "inv s1"
    using write_ok [OF s0(4), of ?req] s0(2,3) by auto
  obtain s2 cache where s2: "read_header (hl_parse_response lib) lib ly (s1, []) = (Inr (rep, upgrade), (s2, cache))"
      "cache @ content s2 = rest" "written s2 = written s1" "inv s2"
    using read_header_ok [OF assms(2,3) s1(4), of "[]" rest] s1(2) by auto
  then show ?thesis
    using s0(1) s1(1,3) assms(5,6) by (simp add: http_connect_def on_fst_def iobind_def)
qed

end

section \<open>What a client may rely on\<close>

definition http_pending :: "'s http \<Rightarrow> bytes" where
  "http_pending s =
     (case ht_manner s of M_Invalid \<Rightarrow> [] | M_Connect cache \<Rightarrow> cache | M_Proxy px \<Rightarrow> px_in px)"

lemma http_recv_conserves:
  assumes "sk_ok (ht_underlying s)" and "http_ingress_recv socket_layer n s = (Inr bs, s')"
  shows "http_pending s @ sk_content (ht_underlying s) = bs @ http_pending s' @ sk_content (ht_underlying s') \<and>
    sk_ok (ht_underlying s')"
  using assms sc.some_conserves [OF assms(1), of n]
  by (cases "ht_manner s")
     (auto simp: http_ingress_recv_def connect_manner_recv_def proxy_recv_def http_pending_def Let_def
        simp flip: append_assoc split: if_splits prod.splits)

lemma http_recvs:
  assumes "sk_ok (ht_underlying s)" and "recvs (http_ingress_recv socket_layer) ns s = (Inr bs, s')"
  shows "http_pending s @ sk_content (ht_underlying s) = bs @ http_pending s' @ sk_content (ht_underlying s')"
  using recvs_conserve [where I = "\<lambda>s. sk_ok (ht_underlying s)"
      and pending = "\<lambda>s. http_pending s @ sk_content (ht_underlying s)", OF _ assms]
    http_recv_conserves by blast

definition base64_class :: "char list" where
  "base64_class = ''abcdefghijklmnopqrstuvwxyzABCDEFGHIJKLMNOPQRSTUVWXYZ0123456789+/''"

text \<open>The text Base64 gives for some bytes: characters of its alphabet, and up to two signs of padding.\<close>

definition base64_text :: "string \<Rightarrow> bool" where
  "base64_text b \<longleftrightarrow> (\<exists>x n. b = x @ replicate n CHR ''='' \<and> x \<noteq> [] \<and> set x \<subseteq> set base64_class \<and> n \<le> 2)"

lemma padding_first:
  assumes "n \<le> 2"
  shows "rx_first (ROpt (RSeq (RLit ''='') (ROpt (RLit ''='')))) (replicate n CHR ''='')
    (replicate n CHR ''='') [] []"
proof -
  from assms consider "n = 0" | "n = 1" | "n = 2" by linarith
  then show ?thesis by cases (simp_all add: rx_first_def numeral_2_eq_2)
qed

lemma basic_auth_match:
  assumes "base64_text b"
  shows "rx_match BASIC_AUTH_PATTERN (''Basic '' @ b) = Some [(1, b)]"
proof -
  obtain x n where b: "b = x @ replicate n CHR ''=''" "x \<noteq> []" "set x \<subseteq> set base64_class" "n \<le> 2"
    using assms by (auto simp: base64_text_def)
  have eq: "CHR ''='' \<notin> set base64_class" by (simp add: base64_class_def)
  have "list_all2 (\<lambda>c d. d \<in> set (case_variants c)) ''basic '' ''Basic ''" by code_simp
  note l = rx_first_lit_icase [OF this, of b]
  have "rx_first (RPlus (ROneOf base64_class)) (x @ replicate n CHR ''='') x (replicate n CHR ''='') []"
    using b(2,3) eq by (intro rx_first_ones) (cases n; auto)+
  from rx_first_seq [OF l rx_first_group [OF rx_first_seq [OF this padding_first [OF b(4)]], of 1,
      folded b(1)]]
  have "rx_first BASIC_AUTH_PATTERN (''Basic '' @ b) (''Basic '' @ b) [] [(1, b)]"
    unfolding BASIC_AUTH_PATTERN_def base64_class_def [symmetric] by simp
  then show ?thesis by (rule rx_first_match)
qed

lemma basic_auth_back:
  assumes "rx_match BASIC_AUTH_PATTERN auth = Some k"
  obtains x where "auth = x @ group_str k 1" "map tolower x = ''basic ''"
proof -
  let ?b = "RSeq (RPlus (ROneOf base64_class)) (ROpt (RSeq (RLit ''='') (ROpt (RLit ''=''))))"
  obtain y where "(y, [], k) \<in> set (rx_matches (RSeq (RLit_icase ''basic '') (RGroup 1 ?b)) auth)"
    using rx_match_SomeD [OF assms] unfolding BASIC_AUTH_PATTERN_def base64_class_def by blast
  then obtain x t l z m where x: "(x, t, l) \<in> set (rx_matches (RLit_icase ''basic '') auth)"
    and z: "(z, [], m) \<in> set (rx_matches (RGroup 1 ?b) t)" "k = m @ l"
    unfolding rx_seq_mem by blast
  have "group_str k 1 = z" using z by (auto simp: group_str_def)
  moreover have "t = z" using rx_matches_split [OF z(1)] by simp
  ultimately have a: "t = group_str k 1" by simp
  have "rx_lang (RLit_icase ''basic '') x" using rx_matches_sound [OF x] .
  then have "map tolower x = map tolower ''basic ''" by (rule icase_lower)
  also have "\<dots> = ''basic ''" by code_simp
  finally have lower: "map tolower x = ''basic ''" .
  have "auth = x @ group_str k 1" unfolding a [symmetric] by (rule rx_matches_split [OF x])
  then show thesis using lower by (rule that)
qed

definition credentials_fit :: "string list \<Rightarrow> string \<Rightarrow> bool" where
  "credentials_fit creds cred \<longleftrightarrow>
     creds = [] \<or> (\<exists>b. cred = ''Basic '' @ b \<and> base64_text b \<and> b \<in> set creds)"

lemma field_names:
  "\<not> iequals ''Host'' ''Proxy-Authorization''" "\<not> iequals ''Proxy-Connection'' ''Proxy-Authorization''"
  "iequals n n"
  by (simp_all add: iequals_def tolower_def)

lemma connect_request_auth:
  assumes "cred \<noteq> []"
  shows "field_find (hr_fields (connect_request cred remote)) ''Proxy-Authorization'' = Some cred"
  using assms field_names
  by (simp add: connect_request_def field_find_def field_set_def Let_def)

lemma fitting_authenticates:
  assumes "credentials_fit creds cred" and "creds \<noteq> []"
  shows "http_authenticate (hr_fields (connect_request cred remote)) creds = Inr True"
proof -
  obtain b where b: "cred = ''Basic '' @ b" "base64_text b" "b \<in> set creds"
    using assms by (auto simp: credentials_fit_def)
  have "field_find (hr_fields (connect_request cred remote)) ''Proxy-Authorization'' = Some (''Basic '' @ b)"
    using connect_request_auth [of cred remote] b(1) by simp
  moreover have "2 = rx_groups BASIC_AUTH_PATTERN + 1" by (simp add: BASIC_AUTH_PATTERN_def RPlus_def)
  ultimately show ?thesis using basic_auth_match [OF b(2)] b(3)
    by (simp add: http_authenticate_def group_matched_def group_str_def)
qed

lemma connect_request_simps [simp]:
  "hr_method (connect_request cred remote) = ''CONNECT''"
  "hr_target (connect_request cred remote) = connect_target remote"
  by (simp_all add: connect_request_def Let_def)

lemma serve_connect:
  assumes "credentials_fit creds cred"
  shows "http_serve ip lib creds (connect_request cred remote) upgrade t =
    (rbind (make_HostAndPort (connect_target remote)) (\<lambda>hp. makeEndpoint_str ip (hp_host hp) (hp_port hp)),
     t\<lparr>ht_manner := M_Connect (ht_cache t), ht_cache := []\<rparr>)"
proof -
  have "(if creds \<noteq> [] then rbind (http_authenticate (hr_fields (connect_request cred remote)) creds)
      (\<lambda>ok. assertTrue ok UNAUTHENTICATED '''') else Inr ()) = Inr ()"
    using fitting_authenticates [OF assms] by simp
  then show ?thesis by (simp add: http_serve_def iobind_def)
qed

lemma makeEndpoint_host: "makeEndpoint ip h p = Inr ep \<Longrightarrow> ep_host ep = h"
  by (auto simp: makeEndpoint_def result_simps)

lemma port_text_nat: "port_text (to_string_nat n)"
proof -
  have "c \<in> set digit_class" if "is_digit c" for c
  proof -
    have "of_char c \<in> set [48 ..< 58 :: nat]" using that unfolding is_digit_def set_upt by simp
    then have "c \<in> set (map char_of [48 ..< 58 :: nat])" by (metis char_of_char imageI list.set_map)
    also have "map char_of [48 ..< 58 :: nat] = digit_class" by code_simp
    finally show ?thesis .
  qed
  then show ?thesis using to_string_nat_digits unfolding port_text_def by (simp add: subset_iff)
qed

lemma connect_served:
  assumes "ep_type remote \<noteq> IPV6" and "plain_host (ep_host remote)"
    and "makeEndpoint ip (ep_host remote) (ep_port remote) = Inr remote"
    and "credentials_fit creds cred" and "reads_some lib"
    and "header_of (hl_parse_request lib) (connect_request cred remote) up
           (hl_write_request lib (connect_request cred remote))"
    and "sk_ok s" and "sk_content s = hl_write_request lib (connect_request cred remote) @ rest"
  obtains u cache where "http_read_remote ip lib socket_layer creds (http_new s) =
      (Inr remote, \<lparr>ht_underlying = u, ht_manner = M_Connect cache, ht_cache = []\<rparr>)"
    "cache @ sk_content u = rest" "sk_wBuf u = sk_wBuf s" "sk_ok u"
proof -
  obtain t where t: "http_read_remote ip lib socket_layer creds (http_new s) =
        http_serve ip lib creds (connect_request cred remote) up t"
      "ht_cache t @ sk_content (ht_underlying t) = rest" "sk_wBuf (ht_underlying t) = sk_wBuf s"
      "sk_ok (ht_underlying t)"
    using sc.http_read_request [OF assms(7,6,5,8)] by blast
  have "make_HostAndPort (connect_target remote) =
      Inr \<lparr>hp_host = ep_host remote, hp_port = to_string_nat (unat (ep_port remote))\<rparr>"
    using host_and_port [OF assms(2) port_text_nat] assms(1) by (simp add: connect_target_def)
  then have "http_read_remote ip lib socket_layer creds (http_new s) =
      (Inr remote, t\<lparr>ht_manner := M_Connect (ht_cache t), ht_cache := []\<rparr>)"
    unfolding t(1) serve_connect [OF assms(4)] using assms(3) by (simp add: makeEndpoint_port)
  then show thesis using t(2-4) that [of "ht_underlying t" "ht_cache t"] by (cases t) simp
qed

section \<open>Properties\<close>

text \<open>
  C25: An HTTP egress and an HTTP ingress understand each other for every endpoint that is no IPv6
  address: fed with the other's bytes, cut into chunks in any way, the egress completes its
  handshake and the ingress learns the endpoint and confirms, and both hand on exactly what
  follows the handshake.
\<close>

theorem http_interoperates:
  assumes "ep_type remote \<noteq> IPV6" and "plain_host (ep_host remote)"
    and "makeEndpoint ip (ep_host remote) (ep_port remote) = Inr remote"
    and "gen_credential lib evo = Inr cred" and "gen_credentials lib ivo = Inr creds"
    and "credentials_fit creds cred" and "reads_some lib"
    and "header_of (hl_parse_request lib) (connect_request cred remote) up
           (hl_write_request lib (connect_request cred remote))"
    and "header_of (hl_parse_response lib) rep up' (hl_write_response lib rep)"
    and "rep = \<lparr>hs_version = 11, hs_result = 200, hs_reason = ''Connection Established'', hs_fields = []\<rparr>"
  shows "\<exists>request answer.
    (\<forall>c rest. sk_ok c \<longrightarrow> sk_content c = answer @ rest \<longrightarrow>
      (\<exists>c' cache. http_connect lib socket_layer cred peer remote (c, []) = (Inr (), (c', cache)) \<and>
        cache @ sk_content c' = rest \<and> sk_wBuf c' = sk_wBuf c @ request)) \<and>
    (\<forall>s rest. sk_ok s \<longrightarrow> sk_content s = request @ rest \<longrightarrow>
      (\<exists>t t'. http_read_remote ip lib socket_layer creds (http_new s) = (Inr remote, t) \<and>
        http_confirm lib socket_layer t = (Inr (), t') \<and>
        sk_wBuf (ht_underlying t') = sk_wBuf s @ answer \<and>
        (\<forall>ns bs t''. recvs (http_ingress_recv socket_layer) ns t' = (Inr bs, t'') \<longrightarrow>
          rest = bs @ http_pending t'' @ sk_content (ht_underlying t''))))"
proof (rule exI, rule exI, intro conjI allI impI)
  let ?req = "hl_write_request lib (connect_request cred remote)"
  show "\<exists>c' cache. http_connect lib socket_layer cred peer remote (c, []) = (Inr (), (c', cache)) \<and>
      cache @ sk_content c' = rest \<and> sk_wBuf c' = sk_wBuf c @ ?req"
    if "sk_ok c" "sk_content c = hl_write_response lib rep @ rest" for c rest
    using sc.http_connect_ok [OF that(1) assms(9,7) that(2), of cred peer remote] assms(10) by auto
  fix s rest assume s: "sk_ok s" "sk_content s = ?req @ rest"
  obtain u cache where t: "http_read_remote ip lib socket_layer creds (http_new s) =
        (Inr remote, \<lparr>ht_underlying = u, ht_manner = M_Connect cache, ht_cache = []\<rparr>)"
      "cache @ sk_content u = rest" "sk_wBuf u = sk_wBuf s" "sk_ok u"
    by (rule connect_served [OF assms(1-3,6-8) s])
  let ?t = "\<lparr>ht_underlying = u, ht_manner = M_Connect cache, ht_cache = []\<rparr>"
  obtain v where v: "ly_write socket_layer (hl_write_response lib rep) u = (Inr (), v)"
      "sk_content v = sk_content u" "sk_wBuf v = sk_wBuf s @ hl_write_response lib rep" "sk_ok v"
    using sk.write_ok [OF t(4), of "hl_write_response lib rep"] t(3) by auto
  have c: "http_confirm lib socket_layer ?t = (Inr (), ?t\<lparr>ht_underlying := v\<rparr>)"
    using v(1) assms(10) by (simp add: http_confirm_def connect_manner_confirm_def on_http_def)
  have "rest = bs @ http_pending t'' @ sk_content (ht_underlying t'')"
    if "recvs (http_ingress_recv socket_layer) ns (?t\<lparr>ht_underlying := v\<rparr>) = (Inr bs, t'')" for ns bs t''
    using http_recvs [OF _ that] v(2,4) t(2) by (simp add: http_pending_def)
  then show "\<exists>t t'. http_read_remote ip lib socket_layer creds (http_new s) = (Inr remote, t) \<and>
      http_confirm lib socket_layer t = (Inr (), t') \<and>
      sk_wBuf (ht_underlying t') = sk_wBuf s @ hl_write_response lib rep \<and>
      (\<forall>ns bs t''. recvs (http_ingress_recv socket_layer) ns t' = (Inr bs, t'') \<longrightarrow>
        rest = bs @ http_pending t'' @ sk_content (ht_underlying t''))"
    using t(1) c v(3) by (intro exI [of _ ?t] exI [of _ "?t\<lparr>ht_underlying := v\<rparr>"]) simp
qed

text \<open>
  A parser and a serialiser for one message, as Beast behaves on it.
\<close>

definition one_message :: "'a \<Rightarrow> bytes \<Rightarrow> bytes \<Rightarrow> 'a parsed" where
  "one_message msg hb bs =
     (if take (length hb) bs = hb then H_done msg False (length hb)
      else if take (length bs) hb = bs then H_more else H_error (http_other 0))"

lemma one_message_header:
  assumes "hb \<noteq> []" and "int (length hb) \<le> HEADER_LIMIT"
  shows "header_of (one_message msg hb) msg False hb"
  using assms by (auto simp: header_of_def one_message_def strict_prefix_def prefix_def)

definition sample_connect :: HttpRequest where
  "sample_connect = connect_request ''Basic dTpw'' sample_remote"

definition sample_connect_bytes :: bytes where
  "sample_connect_bytes = bytes_of (''CONNECT example.com:443 HTTP/1.1'' @ [CHR 0x0D, CHR 0x0A] @
     ''Host: example.com:443'' @ [CHR 0x0D, CHR 0x0A] @ ''Proxy-Connection: Keep-Alive'' @ [CHR 0x0D, CHR 0x0A] @
     ''Proxy-Authorization: Basic dTpw'' @ [CHR 0x0D, CHR 0x0A, CHR 0x0D, CHR 0x0A])"

definition sample_established :: HttpResponse where
  "sample_established =
     \<lparr>hs_version = 11, hs_result = 200, hs_reason = ''Connection Established'', hs_fields = []\<rparr>"

definition sample_established_bytes :: bytes where
  "sample_established_bytes =
     bytes_of (''HTTP/1.1 200 Connection Established'' @ [CHR 0x0D, CHR 0x0A, CHR 0x0D, CHR 0x0A])"

definition sample_http :: http_lib where
  "sample_http = \<lparr>hl_parse_request = one_message sample_connect sample_connect_bytes,
     hl_parse_response = one_message sample_established sample_established_bytes,
     hl_request_header = (\<lambda>_. sample_connect_bytes), hl_write_request = (\<lambda>_. sample_connect_bytes),
     hl_write_response = (\<lambda>_. sample_established_bytes), hl_read_size = (\<lambda>_. 512),
     hl_base64 = (\<lambda>_. ''dTpw'')\<rparr>"

lemma sample_http_laws: "reads_some sample_http"
  "header_of (hl_parse_request sample_http) sample_connect False sample_connect_bytes"
  "header_of (hl_parse_response sample_http) sample_established False sample_established_bytes"
proof -
  show "reads_some sample_http" by (simp add: reads_some_def sample_http_def)
  show "header_of (hl_parse_request sample_http) sample_connect False sample_connect_bytes"
    unfolding sample_http_def http_lib.simps
    by (rule one_message_header) (simp_all add: sample_connect_bytes_def)
  show "header_of (hl_parse_response sample_http) sample_established False sample_established_bytes"
    unfolding sample_http_def http_lib.simps
    by (rule one_message_header) (simp_all add: sample_established_bytes_def)
qed

definition sample_http_egress :: EgressVO where
  "sample_http_egress = (empty_egress HTTP)\<lparr>eg_credential := Some (EC_Up (''u'', ''p''))\<rparr>"

definition sample_http_ingress :: IngressVO where
  "sample_http_ingress = (empty_ingress HTTP [])\<lparr>in_credential := Some (IC_Up [(''u'', ''p'')])\<rparr>"

lemma sample_fit: "credentials_fit [''dTpw''] ''Basic dTpw''"
proof -
  have "base64_text ''dTpw''" unfolding base64_text_def
    by (rule exI [of _ "''dTpw''"], rule exI [of _ 0]) (simp add: base64_class_def)
  then show ?thesis by (simp add: credentials_fit_def)
qed

theorem http_interoperates_witness:
  "\<exists>request answer.
    (\<forall>c rest. sk_ok c \<longrightarrow> sk_content c = answer @ rest \<longrightarrow>
      (\<exists>c' cache. http_connect sample_http socket_layer ''Basic dTpw'' sample_remote sample_remote (c, []) =
          (Inr (), (c', cache)) \<and>
        cache @ sk_content c' = rest \<and> sk_wBuf c' = sk_wBuf c @ request)) \<and>
    (\<forall>s rest. sk_ok s \<longrightarrow> sk_content s = request @ rest \<longrightarrow>
      (\<exists>t t'. http_read_remote sample_ip sample_http socket_layer [''dTpw''] (http_new s) = (Inr sample_remote, t) \<and>
        http_confirm sample_http socket_layer t = (Inr (), t') \<and>
        sk_wBuf (ht_underlying t') = sk_wBuf s @ answer \<and>
        (\<forall>ns bs t''. recvs (http_ingress_recv socket_layer) ns t' = (Inr bs, t'') \<longrightarrow>
          rest = bs @ http_pending t'' @ sk_content (ht_underlying t''))))"
proof (rule http_interoperates [where evo = sample_http_egress and ivo = sample_http_ingress and up = False and
    up' = False and rep = sample_established])
  show "ep_type sample_remote \<noteq> IPV6" "plain_host (ep_host sample_remote)"
    by (simp_all add: sample_remote_def plain_host_def)
  show "makeEndpoint sample_ip (ep_host sample_remote) (ep_port sample_remote) = Inr sample_remote"
    by (rule sample_remote_made)
  show "gen_credential sample_http sample_http_egress = Inr ''Basic dTpw''"
    "gen_credentials sample_http sample_http_ingress = Inr [''dTpw'']"
    by (simp_all add: gen_credential_def gen_credentials_def sample_http_egress_def sample_http_ingress_def
        gen_auth_def sample_http_def)
  show "credentials_fit [''dTpw''] ''Basic dTpw''" by (rule sample_fit)
  show "reads_some sample_http" by (rule sample_http_laws)
  have w: "hl_write_request sample_http r = sample_connect_bytes"
    "hl_write_response sample_http p = sample_established_bytes" for r p by (simp_all add: sample_http_def)
  show "header_of (hl_parse_request sample_http) (connect_request ''Basic dTpw'' sample_remote) False
      (hl_write_request sample_http (connect_request ''Basic dTpw'' sample_remote))"
    unfolding w using sample_http_laws(2) by (simp add: sample_connect_def)
  show "header_of (hl_parse_response sample_http) sample_established False
      (hl_write_response sample_http sample_established)" unfolding w by (rule sample_http_laws)
  show "sample_established =
      \<lparr>hs_version = 11, hs_result = 200, hs_reason = ''Connection Established'', hs_fields = []\<rparr>"
    by (simp add: sample_established_def)
qed

text \<open>
  The egress asks for an IPv6 endpoint with the port inside the brackets. An ingress that reads
  that request takes the whole of it for the address, with the default port 80: it never comes up
  with the endpoint the egress was asked for.
\<close>

theorem http_ipv6_target_lost:
  assumes "ep_type remote = IPV6" and "ep_host remote \<noteq> []" and "set (ep_host remote) \<subseteq> set v6_class"
    and "reads_some lib" and "sk_ok s"
    and "header_of (hl_parse_request lib) (connect_request cred remote) up
           (hl_write_request lib (connect_request cred remote))"
    and "sk_content s = hl_write_request lib (connect_request cred remote) @ rest"
  shows "fst (http_read_remote ip lib socket_layer [] (http_new s)) =
      makeEndpoint ip (ep_host remote @ '':'' @ to_string_nat (unat (ep_port remote))) 80 \<and>
    fst (http_read_remote ip lib socket_layer [] (http_new s)) \<noteq> Inr remote"
proof -
  let ?h = "ep_host remote @ '':'' @ to_string_nat (unat (ep_port remote))"
  obtain t where t: "http_read_remote ip lib socket_layer [] (http_new s) =
        http_serve ip lib [] (connect_request cred remote) up t"
    using sc.http_read_request [OF assms(5,6,4,7)] by blast
  have "set digit_class \<subseteq> set v6_class" "set '':'' \<subseteq> set v6_class" by simp_all
  then have "set ?h \<subseteq> set v6_class"
    using assms(3) port_text_nat [of "unat (ep_port remote)", unfolded port_text_def]
    unfolding set_append by (meson Un_least subset_trans)
  then have h: "make_HostAndPort (connect_target remote) = Inr \<lparr>hp_host = ?h, hp_port = ''80''\<rparr>"
    using bracketed_host [of ?h] assms(1) by (simp add: connect_target_def)
  have "makeEndpoint_str ip ?h ''80'' = makeEndpoint ip ?h 80"
  proof -
    have "to_string_nat (unat (80 :: u16)) = ''80''" by code_simp
    then show ?thesis using makeEndpoint_port [of ip ?h 80] by simp
  qed
  then have r: "fst (http_read_remote ip lib socket_layer [] (http_new s)) = makeEndpoint ip ?h 80"
    unfolding t using serve_connect [of "[]" cred ip lib remote up t] h by (simp add: credentials_fit_def)
  moreover have "makeEndpoint ip ?h 80 \<noteq> Inr remote"
  proof
    assume "makeEndpoint ip ?h 80 = Inr remote"
    then have "ep_host remote = ?h" by (rule makeEndpoint_host)
    then have "length (ep_host remote) = length ?h" by simp
    then show False by simp
  qed
  ultimately show ?thesis by simp
qed

definition sample_v6_remote :: Endpoint where
  "sample_v6_remote = \<lparr>ep_type = IPV6, ep_host = ''fe80::1'', ep_port = 443\<rparr>"

definition sample_v6_bytes :: bytes where
  "sample_v6_bytes = bytes_of (''CONNECT [fe80::1:443] HTTP/1.1'' @ [CHR 0x0D, CHR 0x0A] @
     ''Host: [fe80::1:443]'' @ [CHR 0x0D, CHR 0x0A] @ ''Proxy-Connection: Keep-Alive'' @
     [CHR 0x0D, CHR 0x0A, CHR 0x0D, CHR 0x0A])"

definition sample_v6_http :: http_lib where
  "sample_v6_http = sample_http\<lparr>hl_parse_request := one_message (connect_request [] sample_v6_remote) sample_v6_bytes,
     hl_write_request := (\<lambda>_. sample_v6_bytes)\<rparr>"

lemma sample_v6_bytes_nonempty: "sample_v6_bytes \<noteq> []"
  by (simp add: sample_v6_bytes_def)

theorem http_ipv6_target_lost_witness:
  "let s = \<lparr>sk_rBufs = [sample_v6_bytes], sk_wBuf = [], sk_end = Asio_code asio_eof, sk_open = True\<rparr> in
   fst (http_read_remote sample_ip sample_v6_http socket_layer [] (http_new s)) =
      makeEndpoint sample_ip (ep_host sample_v6_remote @ '':'' @ to_string_nat (unat (ep_port sample_v6_remote))) 80 \<and>
    fst (http_read_remote sample_ip sample_v6_http socket_layer [] (http_new s)) \<noteq> Inr sample_v6_remote"
  unfolding Let_def
proof (rule http_ipv6_target_lost [where cred = "[]" and up = False and rest = "[]"])
  show "ep_type sample_v6_remote = IPV6" "ep_host sample_v6_remote \<noteq> []"
    "set (ep_host sample_v6_remote) \<subseteq> set v6_class" by (simp_all add: sample_v6_remote_def)
  show "reads_some sample_v6_http" by (simp add: reads_some_def sample_v6_http_def sample_http_def)
  show "sk_ok \<lparr>sk_rBufs = [sample_v6_bytes], sk_wBuf = [], sk_end = Asio_code asio_eof, sk_open = True\<rparr>"
    using sample_v6_bytes_nonempty by (auto simp: sk_ok_def)
  have w: "hl_write_request sample_v6_http r = sample_v6_bytes"
    "hl_parse_request sample_v6_http = one_message (connect_request [] sample_v6_remote) sample_v6_bytes" for r
    by (simp_all add: sample_v6_http_def)
  show "header_of (hl_parse_request sample_v6_http) (connect_request [] sample_v6_remote) False
      (hl_write_request sample_v6_http (connect_request [] sample_v6_remote))"
    unfolding w by (rule one_message_header) (simp_all add: sample_v6_bytes_def)
  show "sk_content \<lparr>sk_rBufs = [sample_v6_bytes], sk_wBuf = [], sk_end = Asio_code asio_eof, sk_open = True\<rparr> =
      hl_write_request sample_v6_http (connect_request [] sample_v6_remote) @ []"
    by (simp add: w sk_content_def)
qed

text \<open>
  C26: An ingress with users yields a remote endpoint only for a request whose \<^verbatim>\<open>Proxy-Authorization\<close> field
  is the Basic scheme, in any case, with the Base64 text of one of the users.
\<close>

theorem http_authenticated_only:
  assumes "sk_ok s" and "gen_credentials lib ivo = Inr creds" and "creds \<noteq> []"
    and "http_read_remote ip lib socket_layer creds (http_new s) = (Inr ep, t)"
  shows "\<exists>used rest req up n scheme u p. sk_content s = used @ rest \<and>
    hl_parse_request lib used = H_done req up n \<and>
    field_find (hr_fields req) ''Proxy-Authorization'' = Some (scheme @ hl_base64 lib (u @ '':'' @ p)) \<and>
    map tolower scheme = ''basic '' \<and>
    (\<exists>users. in_credential ivo = Some (IC_Up users) \<and> (u, p) \<in> set users)"
proof -
  obtain used rest req up n t' where r: "sk_content s = used @ rest" "hl_parse_request lib used = H_done req up n"
    and sv: "http_serve ip lib creds req up t' = (Inr ep, t)"
    using sc.http_read_remote_back [OF assms(1,4)] by blast
  have "http_authenticate (hr_fields req) creds = Inr True"
    using sv assms(3) by (auto simp: http_serve_def result_simps)
  then obtain auth k where a: "field_find (hr_fields req) ''Proxy-Authorization'' = Some auth"
    "rx_match BASIC_AUTH_PATTERN auth = Some k" "group_str k 1 \<in> set creds"
    by (auto simp: http_authenticate_def result_simps split: option.splits)
  obtain scheme where sch: "auth = scheme @ group_str k 1" "map tolower scheme = ''basic ''"
    by (rule basic_auth_back [OF a(2)])
  obtain users where u: "in_credential ivo = Some (IC_Up users)" "creds = map (\<lambda>(u, p). gen_auth lib u p) users"
    using assms(2,3) by (auto simp: gen_credentials_def result_simps split: option.splits elim!: get_IC_Up.elims)
  obtain u p where usr: "(u, p) \<in> set users" "group_str k 1 = hl_base64 lib (u @ '':'' @ p)"
    using a(3) u(2) by (auto simp: gen_auth_def)
  have "field_find (hr_fields req) ''Proxy-Authorization'' = Some (scheme @ hl_base64 lib (u @ '':'' @ p))"
    unfolding a(1) sch(1) usr(2) ..
  with r sch(2) u(1) usr(1) show ?thesis
    by (intro exI [of _ used] exI [of _ rest] exI [of _ req] exI [of _ up] exI [of _ n] exI [of _ scheme]
        exI [of _ u] exI [of _ p] exI [of _ users] conjI)
qed

definition sample_http_socket :: socket where
  "sample_http_socket = \<lparr>sk_rBufs = [take 20 sample_connect_bytes, drop 20 sample_connect_bytes @ [1, 2]],
     sk_wBuf = [], sk_end = Asio_code asio_eof, sk_open = True\<rparr>"

lemma sample_http_socket: "sk_ok sample_http_socket" "sk_content sample_http_socket = sample_connect_bytes @ [1, 2]"
proof -
  have "20 < length sample_connect_bytes" by (simp add: sample_connect_bytes_def)
  then have "take 20 sample_connect_bytes \<noteq> []" by (auto simp: take_eq_Nil)
  then show "sk_ok sample_http_socket" by (auto simp: sample_http_socket_def sk_ok_def)
qed (simp add: sample_http_socket_def sk_content_def)

lemma sample_http_served:
  obtains t where "http_read_remote sample_ip sample_http socket_layer [''dTpw''] (http_new sample_http_socket) =
    (Inr sample_remote, t)"
proof (rule connect_served [OF _ _ sample_remote_made sample_fit sample_http_laws(1)])
  show "ep_type sample_remote \<noteq> IPV6" "plain_host (ep_host sample_remote)"
    by (simp_all add: sample_remote_def plain_host_def)
  have w: "hl_write_request sample_http r = sample_connect_bytes" for r by (simp add: sample_http_def)
  show "header_of (hl_parse_request sample_http) (connect_request ''Basic dTpw'' sample_remote) False
      (hl_write_request sample_http (connect_request ''Basic dTpw'' sample_remote))"
    unfolding w using sample_http_laws(2) by (simp add: sample_connect_def)
  show "sk_ok sample_http_socket" by (rule sample_http_socket)
  show "sk_content sample_http_socket =
      hl_write_request sample_http (connect_request ''Basic dTpw'' sample_remote) @ [1, 2]"
    unfolding w by (rule sample_http_socket)
qed (rule that)

theorem http_authenticated_only_witness:
  "\<exists>used rest req up n scheme u p. sk_content sample_http_socket = used @ rest \<and>
    hl_parse_request sample_http used = H_done req up n \<and>
    field_find (hr_fields req) ''Proxy-Authorization'' = Some (scheme @ hl_base64 sample_http (u @ '':'' @ p)) \<and>
    map tolower scheme = ''basic '' \<and>
    (\<exists>users. in_credential sample_http_ingress = Some (IC_Up users) \<and> (u, p) \<in> set users)"
proof -
  obtain t where "http_read_remote sample_ip sample_http socket_layer [''dTpw''] (http_new sample_http_socket) =
    (Inr sample_remote, t)" by (rule sample_http_served)
  moreover have "gen_credentials sample_http sample_http_ingress = Inr [''dTpw'']"
    by (simp add: gen_credentials_def sample_http_ingress_def gen_auth_def sample_http_def)
  ultimately show ?thesis
    by (intro http_authenticated_only [OF sample_http_socket(1), of _ _ "[''dTpw'']" sample_ip sample_remote t]) simp_all
qed

text \<open>
  C27: A request with an absolute URI is forwarded to the host and port of the URI: the server gets the
  request with the path and query only and the connection marked to be closed, and behind it
  everything the client sent after the header, however it was cut into chunks.
\<close>

theorem http_forwards_request:
  assumes "hr_method req \<noteq> ''CONNECT''"
    and "hr_target req = sch @ ''://'' @ hs @ port_part po @ suffix_part sp"
    and "scheme_text sch tls" and "uri_authority hs h"
    and "case po of None \<Rightarrow> True | Some p \<Rightarrow> port_text p"
    and "case sp of None \<Rightarrow> True | Some (p, q) \<Rightarrow> set p \<inter> set ''#?'' = {} \<and> uri_query_text q"
    and "makeEndpoint_str ip h (case po of None \<Rightarrow> if tls then ''443'' else ''80'' | Some p \<Rightarrow> p) = Inr ep"
    and "reads_some lib" and "header_of (hl_parse_request lib) req False hb"
    and "sk_ok s" and "sk_content s = hb @ rest"
  shows "\<exists>t. http_read_remote ip lib socket_layer [] (http_new s) = (Inr ep, t) \<and>
    sk_wBuf (ht_underlying t) = sk_wBuf s \<and>
    (\<forall>ns bs t'. recvs (http_ingress_recv socket_layer) ns t = (Inr bs, t') \<longrightarrow>
      hl_request_header lib (req\<lparr>hr_target := (if sp = None then ''/'' else suffix_part sp),
         hr_fields := field_set ''Proxy-Connection'' ''close'' (field_set ''Connection'' ''close'' (hr_fields req))\<rparr>) @ rest =
      bs @ http_pending t' @ sk_content (ht_underlying t'))"
proof -
  let ?req = "req\<lparr>hr_target := (if sp = None then ''/'' else suffix_part sp),
    hr_fields := field_set ''Proxy-Connection'' ''close'' (field_set ''Connection'' ''close'' (hr_fields req))\<rparr>"
  obtain t where t: "http_read_remote ip lib socket_layer [] (http_new s) = http_serve ip lib [] req False t"
      "ht_cache t @ sk_content (ht_underlying t) = rest" "sk_wBuf (ht_underlying t) = sk_wBuf s"
      "sk_ok (ht_underlying t)"
    using sc.http_read_request [OF assms(10,9,8,11)] by blast
  have ne: "hr_target req \<noteq> []" "hr_target req ! 0 \<noteq> CHR ''/''"
    using assms(2) scheme_not_slash [OF assms(3)] by (auto simp: nth_append)
  have "get_remote ip req = Inr (ep, req\<lparr>hr_target := (if sp = None then ''/'' else suffix_part sp)\<rparr>)"
    using ne uri_parts [OF assms(3-6)] assms(2,7)
    by (cases sp) (simp_all add: get_remote_def)
  then have r: "http_serve ip lib [] req False t =
      (Inr ep, t\<lparr>ht_manner := M_Proxy (proxy_new lib (ht_cache t) ?req), ht_cache := []\<rparr>)"
    using assms(1) by (simp add: http_serve_def Let_def)
  have "px_in (proxy_new lib (ht_cache t) ?req) = hl_request_header lib ?req @ ht_cache t"
    by (simp add: proxy_new_def Let_def)
  then show ?thesis
    using t r http_recvs [of "t\<lparr>ht_manner := M_Proxy (proxy_new lib (ht_cache t) ?req), ht_cache := []\<rparr>"]
    by (auto simp: http_pending_def)
qed

definition sample_get :: HttpRequest where
  "sample_get = \<lparr>hr_method = ''GET'', hr_target = ''http://a.b:80/x?y'', hr_version = 11, hr_fields = []\<rparr>"

definition sample_get_http :: http_lib where
  "sample_get_http = sample_http\<lparr>hl_parse_request := one_message sample_get [71, 69, 84, 10]\<rparr>"

theorem http_forwards_request_witness:
  "let s = \<lparr>sk_rBufs = [[71, 69], [84, 10, 7]], sk_wBuf = [], sk_end = Asio_code asio_eof, sk_open = True\<rparr>;
       ep = \<lparr>ep_type = DOMAIN_NAME, ep_host = ''a.b'', ep_port = 80\<rparr> in
   \<exists>t. http_read_remote sample_ip sample_get_http socket_layer [] (http_new s) = (Inr ep, t) \<and>
    sk_wBuf (ht_underlying t) = sk_wBuf s \<and>
    (\<forall>ns bs t'. recvs (http_ingress_recv socket_layer) ns t = (Inr bs, t') \<longrightarrow>
      hl_request_header sample_get_http (sample_get\<lparr>hr_target := (if Some (''x'', ''?y'') = None then ''/'' else suffix_part (Some (''x'', ''?y''))),
         hr_fields := field_set ''Proxy-Connection'' ''close'' (field_set ''Connection'' ''close'' (hr_fields sample_get))\<rparr>) @ [7] =
      bs @ http_pending t' @ sk_content (ht_underlying t'))"
  unfolding Let_def
proof (rule http_forwards_request [where sch = "''http''" and tls = False and hs = "''a.b''" and h = "''a.b''" and
    po = "Some ''80''" and hb = "[71, 69, 84, 10]"])
  show "hr_method sample_get \<noteq> ''CONNECT''"
    "hr_target sample_get = ''http'' @ ''://'' @ ''a.b'' @ port_part (Some ''80'') @ suffix_part (Some (''x'', ''?y''))"
    by (simp_all add: sample_get_def port_part_def suffix_part_def)
  show "scheme_text ''http'' False" by code_simp
  show "uri_authority ''a.b'' ''a.b''" by (simp add: uri_authority_def)
  show "case Some ''80'' of None \<Rightarrow> True | Some p \<Rightarrow> port_text p" by (simp add: port_text_def)
  show "case Some (''x'', ''?y'') of None \<Rightarrow> True | Some (p, q) \<Rightarrow> set p \<inter> set ''#?'' = {} \<and> uri_query_text q"
    by (simp add: uri_query_text_def)
  show "makeEndpoint_str sample_ip ''a.b'' (case Some ''80'' of None \<Rightarrow> if False then ''443'' else ''80'' | Some p \<Rightarrow> p) =
      Inr \<lparr>ep_type = DOMAIN_NAME, ep_host = ''a.b'', ep_port = 80\<rparr>" by code_simp
  show "reads_some sample_get_http" by (simp add: reads_some_def sample_get_http_def sample_http_def)
  have "hl_parse_request sample_get_http = one_message sample_get [71, 69, 84, 10]"
    by (simp add: sample_get_http_def)
  then show "header_of (hl_parse_request sample_get_http) sample_get False [71, 69, 84, 10]"
    using one_message_header [of "[71, 69, 84, 10]" sample_get] by simp
qed (simp_all add: sk_ok_def sk_content_def)

section \<open>Forwarded responses\<close>

lemma proxy_send_done:
  assumes "sk_ok (ht_underlying t)" and "ht_manner t = M_Proxy px" and "px_header_done px"
  shows "\<exists>t'. sends (http_ingress_send lib socket_layer) cs t = (Inr (), t') \<and>
    sk_wBuf (ht_underlying t') = sk_wBuf (ht_underlying t) @ concat cs"
  using assms
proof (induction cs arbitrary: t)
  case (Cons c cs)
  obtain u where u: "ly_write socket_layer c (ht_underlying t) = (Inr (), u)"
      "sk_wBuf u = sk_wBuf (ht_underlying t) @ c" "sk_ok u"
    using sk.write_ok [OF Cons.prems(1), of c] by blast
  let ?t = "t\<lparr>ht_underlying := u, ht_manner := M_Proxy px\<rparr>"
  have "http_ingress_send lib socket_layer c t = (Inr (), ?t)"
    using Cons.prems(2,3) u(1) by (simp add: http_ingress_send_def proxy_send_def)
  moreover obtain t' where "sends (http_ingress_send lib socket_layer) cs ?t = (Inr (), t')"
      "sk_wBuf (ht_underlying t') = sk_wBuf u @ concat cs"
    using Cons.IH [of ?t] Cons.prems(3) u(3) by auto
  ultimately show ?case using u(2) by simp
qed simp

lemma proxy_send_header:
  assumes "header_of (hl_parse_response lib) rep up hb" and "\<not> px_header_done px"
    and "strict_prefix (px_out px) hb" and "px_out px @ c = hb @ extra"
    and "ht_manner t = M_Proxy px" and "sk_ok (ht_underlying t)"
  shows "\<exists>t' px'. http_ingress_send lib socket_layer c t = (Inr (), t') \<and>
    sk_wBuf (ht_underlying t') = sk_wBuf (ht_underlying t) @ hl_write_response lib (close_response up rep) @ extra \<and>
    sk_ok (ht_underlying t') \<and> ht_manner t' = M_Proxy px' \<and> px_header_done px'"
proof -
  let ?w = "hl_write_response lib (close_response up rep)"
  have p: "hl_parse_response lib (px_out px @ c) = H_done rep up (length hb)"
    unfolding assms(4) using assms(1) by (simp add: header_of_def)
  have d: "drop (length hb) (px_out px @ c) = extra" unfolding assms(4) by simp
  obtain u where u: "ly_write socket_layer ?w (ht_underlying t) = (Inr (), u)"
      "sk_wBuf u = sk_wBuf (ht_underlying t) @ ?w" "sk_ok u"
    using sk.write_ok [OF assms(6), of ?w] by blast
  obtain v where v: "ly_write socket_layer extra u = (Inr (), v)" "sk_wBuf v = sk_wBuf u @ extra" "sk_ok v"
    using sk.write_ok [OF u(3), of extra] by blast
  show ?thesis
    using assms(2,5) p d u v
    by (cases "px_out px = []"; cases "extra = []")
       (simp_all add: http_ingress_send_def proxy_send_def Let_def del: drop_append drop_eq_Nil drop_eq_Nil2)
qed

lemma proxy_sends:
  assumes "header_of (hl_parse_response lib) rep up hb"
  shows "ht_manner t = M_Proxy px \<Longrightarrow> \<not> px_header_done px \<Longrightarrow> strict_prefix (px_out px) hb \<Longrightarrow>
    px_out px @ concat cs = hb @ body \<Longrightarrow> [] \<notin> set cs \<Longrightarrow> sk_ok (ht_underlying t) \<Longrightarrow>
    \<exists>t'. sends (http_ingress_send lib socket_layer) cs t = (Inr (), t') \<and>
      sk_wBuf (ht_underlying t') = sk_wBuf (ht_underlying t) @ hl_write_response lib (close_response up rep) @ body"
proof (induction cs arbitrary: t px)
  case Nil
  then have "strict_prefix (px_out px) (px_out px)" by (auto simp: strict_prefix_def prefix_def)
  then show ?case by simp
next
  case (Cons c cs)
  have "(px_out px @ c) @ concat cs = hb @ body" using Cons.prems(4) by simp
  from prefix_of_header [OF this] show ?case
  proof
    assume p: "strict_prefix (px_out px @ c) hb"
    have ne: "px_out px @ c \<noteq> []" using Cons.prems(5) by auto
    then have "hl_parse_response lib (px_out px @ c) = H_more" using assms p by (simp add: header_of_def)
    then have s: "http_ingress_send lib socket_layer c t =
        (Inr (), t\<lparr>ht_manner := M_Proxy (px\<lparr>px_out := px_out px @ c\<rparr>)\<rparr>)"
      using Cons.prems(1,2) by (auto simp: http_ingress_send_def proxy_send_def Let_def)
    show ?thesis
      using Cons.IH [of "t\<lparr>ht_manner := M_Proxy (px\<lparr>px_out := px_out px @ c\<rparr>)\<rparr>" "px\<lparr>px_out := px_out px @ c\<rparr>"]
        Cons.prems p s by simp
  next
    assume "\<exists>extra. px_out px @ c = hb @ extra \<and> body = extra @ concat cs"
    then obtain extra where e: "px_out px @ c = hb @ extra" "body = extra @ concat cs" by blast
    obtain t1 px1 where t1: "http_ingress_send lib socket_layer c t = (Inr (), t1)"
      "sk_wBuf (ht_underlying t1) =
         sk_wBuf (ht_underlying t) @ hl_write_response lib (close_response up rep) @ extra"
      "sk_ok (ht_underlying t1)" "ht_manner t1 = M_Proxy px1" "px_header_done px1"
      using proxy_send_header [OF assms Cons.prems(2,3) e(1) Cons.prems(1,6)] by blast
    then show ?thesis using proxy_send_done [OF t1(3-5), of lib cs] e(2) by auto
  qed
qed

text \<open>
  C28: The response of a server reaches the client of a forwarding proxy as one header with the connection
  marked to be closed (unless it is an upgrade) and then the body unchanged, however the
  response was cut into pieces.
\<close>

theorem proxy_response_relayed:
  assumes "header_of (hl_parse_response lib) rep up hb" and "concat pieces = hb @ body" and "[] \<notin> set pieces"
    and "sk_ok s"
  shows "\<exists>t. sends (http_ingress_send lib socket_layer) pieces
      \<lparr>ht_underlying = s, ht_manner = M_Proxy (proxy_new lib cache req), ht_cache = []\<rparr> = (Inr (), t) \<and>
    sk_wBuf (ht_underlying t) = sk_wBuf s @ hl_write_response lib
      (if up then rep else rep\<lparr>hs_fields := field_set ''Proxy-Connection'' ''close''
         (field_set ''Connection'' ''close'' (hs_fields rep))\<rparr>) @ body"
proof -
  have "strict_prefix [] hb" using assms(1) by (auto simp: header_of_def strict_prefix_def)
  then show ?thesis
    using proxy_sends [OF assms(1), of "\<lparr>ht_underlying = s, ht_manner = M_Proxy (proxy_new lib cache req), ht_cache = []\<rparr>"
      "proxy_new lib cache req" pieces body] assms(2-4)
    by (cases up) (simp_all add: proxy_new_def Let_def close_response_def)
qed

theorem proxy_response_relayed_witness:
  "\<exists>t. sends (http_ingress_send sample_http socket_layer)
        [take 5 sample_established_bytes, drop 5 sample_established_bytes @ [1], [2, 3]]
      \<lparr>ht_underlying = sample_http_socket, ht_manner = M_Proxy (proxy_new sample_http [] sample_get), ht_cache = []\<rparr> =
      (Inr (), t) \<and>
    sk_wBuf (ht_underlying t) = sk_wBuf sample_http_socket @ hl_write_response sample_http
      (if False then sample_established else sample_established\<lparr>hs_fields := field_set ''Proxy-Connection'' ''close''
         (field_set ''Connection'' ''close'' (hs_fields sample_established))\<rparr>) @ [1, 2, 3]"
proof (rule proxy_response_relayed [OF sample_http_laws(3)])
  have "5 < length sample_established_bytes" by (simp add: sample_established_bytes_def)
  then show "[] \<notin> set [take 5 sample_established_bytes, drop 5 sample_established_bytes @ [1], [2, 3]]"
    by (auto simp: take_eq_Nil)
qed (simp_all add: sample_http_socket)

end
