(* ===== verification/Pichi_Layers.thy ===== *)
theory Pichi_Layers
  imports Pichi_Http
begin

text \<open>
  The layers between a socket and an adapter: the templates of \<^verbatim>\<open>include/pichi/stream/helpers.hpp\<close> that
  connect, accept and close a stream together with the layer below it, TLS
  (\<^verbatim>\<open>include/pichi/stream/tls.hpp\<close>, \<^verbatim>\<open>src/stream/tls.cpp\<close>, as it is built without \<^verbatim>\<open>TLS_FINGERPRINT\<close>) and WebSocket
  (\<^verbatim>\<open>include/pichi/stream/websocket.hpp\<close>).

  \<^verbatim>\<open>boost::asio::ssl\<close> and \<^verbatim>\<open>boost::beast::websocket::stream\<close> are the parameters \<open>ssl_lib\<close> and \<open>ws_lib\<close>: their state
  stands beside the state of the layer below, and their operations act on both.
\<close>

section \<open>A stream over a layer\<close>

record 's stream_ops =
  so_read_some :: "nat \<Rightarrow> ('s, bytes) io"
  so_write_some :: "bytes \<Rightarrow> ('s, nat) io"
  so_accept :: "('s, unit) io"
  so_handshake :: "('s, unit) io"
  so_shutdown :: "('s, unit) io"

text \<open>\<open>get\<close> and \<open>put\<close> are \<^verbatim>\<open>next_layer()\<close>.\<close>

definition on_next :: "('s \<Rightarrow> 'n) \<Rightarrow> ('n \<Rightarrow> 's \<Rightarrow> 's) \<Rightarrow> ('n, 'a) io \<Rightarrow> ('s, 'a) io" where
  "on_next get put f s = (case f (get s) of (r, n) \<Rightarrow> (r, put n s))"

definition stream_close :: "('s \<Rightarrow> 'n) \<Rightarrow> ('n \<Rightarrow> 's \<Rightarrow> 's) \<Rightarrow> 'n layer \<Rightarrow> 's stream_ops \<Rightarrow> ('s, unit) io" where
  "stream_close get put nl ops = iobind (so_shutdown ops) (\<lambda>_. on_next get put (ly_close nl))"

definition stream_connect ::
  "('s \<Rightarrow> 'n) \<Rightarrow> ('n \<Rightarrow> 's \<Rightarrow> 's) \<Rightarrow> 'n layer \<Rightarrow> 's stream_ops \<Rightarrow> Endpoint \<Rightarrow> ('s, unit) io" where
  "stream_connect get put nl ops peer = iobind (on_next get put (ly_connect nl peer)) (\<lambda>_. so_handshake ops)"

definition stream_accept :: "('s \<Rightarrow> 'n) \<Rightarrow> ('n \<Rightarrow> 's \<Rightarrow> 's) \<Rightarrow> 'n layer \<Rightarrow> 's stream_ops \<Rightarrow> ('s, unit) io" where
  "stream_accept get put nl ops = iobind (on_next get put (ly_accept nl)) (\<lambda>_. so_accept ops)"

definition layered :: "('s \<Rightarrow> 'n) \<Rightarrow> ('n \<Rightarrow> 's \<Rightarrow> 's) \<Rightarrow> 'n layer \<Rightarrow> 's stream_ops \<Rightarrow> 's layer" where
  "layered get put nl ops = \<lparr>ly_read = layered_read (so_read_some ops), ly_read_some = so_read_some ops,
     ly_write = layered_write (so_write_some ops), ly_accept = stream_accept get put nl ops,
     ly_connect = stream_connect get put nl ops, ly_close = stream_close get put nl ops\<rparr>"

section \<open>TLS\<close>

text \<open>What \<^verbatim>\<open>tls_context\<close> sets in a fresh \<^verbatim>\<open>ssl::context\<close>, which verifies nothing.\<close>

record ssl_context =
  sx_server :: bool
  sx_cert :: "string option"
  sx_key :: "string option"
  sx_verify_peer :: bool
  sx_ca :: "string option"
  sx_default_paths :: bool
  sx_host_name :: "string option"

record ('n, 'x) ssl_lib =
  sl_use_cert :: "string \<Rightarrow> unit result"
  sl_use_key :: "string \<Rightarrow> unit result"
  sl_load_ca :: "string \<Rightarrow> unit result"
  sl_default_paths :: "unit result"
  sl_new :: "ssl_context \<Rightarrow> 'x"
  sl_set_sni :: "string \<Rightarrow> 'x \<Rightarrow> 'x option"
  sl_handshake :: "bool \<Rightarrow> ('n \<times> 'x, unit) io"
  sl_read_some :: "nat \<Rightarrow> ('n \<times> 'x, bytes) io"
  sl_write_some :: "bytes \<Rightarrow> ('n \<times> 'x, nat) io"
  sl_shutdown :: "('n \<times> 'x, unit) io"

definition ssl_fresh :: "bool \<Rightarrow> ssl_context" where
  "ssl_fresh server = \<lparr>sx_server = server, sx_cert = None, sx_key = None, sx_verify_peer = False, sx_ca = None,
     sx_default_paths = False, sx_host_name = None\<rparr>"

definition tls_context_ingress :: "('n, 'x) ssl_lib \<Rightarrow> TlsIngressOption \<Rightarrow> ssl_context result" where
  "tls_context_ingress sl opt =
     rthen (sl_use_cert sl (ti_certFile opt))
    (rthen (sl_use_key sl (ti_keyFile opt))
    (Inr ((ssl_fresh True)\<lparr>sx_cert := Some (ti_certFile opt), sx_key := Some (ti_keyFile opt)\<rparr>)))"

definition tls_context_egress :: "('n, 'x) ssl_lib \<Rightarrow> TlsEgressOption \<Rightarrow> string \<Rightarrow> ssl_context result" where
  "tls_context_egress sl opt sn =
     (let ctx = ssl_fresh False in
      if te_insecure opt then Inr (ctx\<lparr>sx_verify_peer := False\<rparr>)
      else let ctx = ctx\<lparr>sx_verify_peer := True\<rparr> in
        case te_caFile opt of
          Some ca \<Rightarrow> rthen (sl_load_ca sl ca) (Inr (ctx\<lparr>sx_ca := Some ca\<rparr>))
        | None \<Rightarrow> rthen (sl_default_paths sl)
            (Inr (ctx\<lparr>sx_default_paths := True,
                      sx_host_name := Some (case te_serverName opt of None \<Rightarrow> sn | Some n \<Rightarrow> n)\<rparr>)))"

record ('n, 'x) tls =
  tl_ctx :: ssl_context
  tl_stream :: "'n \<times> 'x"

definition tls_new :: "('n, 'x) ssl_lib \<Rightarrow> ssl_context \<Rightarrow> 'n \<Rightarrow> ('n, 'x) tls" where
  "tls_new sl ctx next = \<lparr>tl_ctx = ctx, tl_stream = (next, sl_new sl ctx)\<rparr>"

definition tls_new_sni :: "('n, 'x) ssl_lib \<Rightarrow> string option \<Rightarrow> ssl_context \<Rightarrow> 'n \<Rightarrow> ('n, 'x) tls result" where
  "tls_new_sni sl sni ctx next =
     (let t = tls_new sl ctx next in
      case sni of
        None \<Rightarrow> Inr t
      | Some n \<Rightarrow> (case sl_set_sni sl n (snd (tl_stream t)) of
                    None \<Rightarrow> fail_misc ''''
                  | Some x \<Rightarrow> Inr (t\<lparr>tl_stream := (fst (tl_stream t), x)\<rparr>)))"

definition on_ssl :: "('n \<times> 'x, 'a) io \<Rightarrow> (('n, 'x) tls, 'a) io" where
  "on_ssl f t = (case f (tl_stream t) of (r, x) \<Rightarrow> (r, t\<lparr>tl_stream := x\<rparr>))"

definition tls_async_shutdown :: "('n, 'x) ssl_lib \<Rightarrow> (('n, 'x) tls, unit) io" where
  "tls_async_shutdown sl = on_ssl (sl_shutdown sl)"

definition tls_async_handshake :: "('n, 'x) ssl_lib \<Rightarrow> (('n, 'x) tls, unit) io" where
  "tls_async_handshake sl = on_ssl (sl_handshake sl False)"

definition tls_async_accept :: "('n, 'x) ssl_lib \<Rightarrow> (('n, 'x) tls, unit) io" where
  "tls_async_accept sl = on_ssl (sl_handshake sl True)"

definition tls_async_read_some :: "('n, 'x) ssl_lib \<Rightarrow> nat \<Rightarrow> (('n, 'x) tls, bytes) io" where
  "tls_async_read_some sl n = on_ssl (sl_read_some sl n)"

definition tls_async_write_some :: "('n, 'x) ssl_lib \<Rightarrow> bytes \<Rightarrow> (('n, 'x) tls, nat) io" where
  "tls_async_write_some sl bs = on_ssl (sl_write_some sl bs)"

definition tls_next :: "('n, 'x) tls \<Rightarrow> 'n" where
  "tls_next t = fst (tl_stream t)"

definition tls_put_next :: "'n \<Rightarrow> ('n, 'x) tls \<Rightarrow> ('n, 'x) tls" where
  "tls_put_next n t = t\<lparr>tl_stream := (n, snd (tl_stream t))\<rparr>"

definition tls_ops :: "('n, 'x) ssl_lib \<Rightarrow> ('n, 'x) tls stream_ops" where
  "tls_ops sl = \<lparr>so_read_some = tls_async_read_some sl, so_write_some = tls_async_write_some sl,
     so_accept = tls_async_accept sl, so_handshake = tls_async_handshake sl, so_shutdown = tls_async_shutdown sl\<rparr>"

definition tls_layer :: "('n, 'x) ssl_lib \<Rightarrow> 'n layer \<Rightarrow> ('n, 'x) tls layer" where
  "tls_layer sl nl = layered tls_next tls_put_next nl (tls_ops sl)"

section \<open>WebSocket\<close>

record ('n, 'd) ws_lib =
  wl_new :: 'd
  wl_accept :: "HttpRequest \<Rightarrow> ('n \<times> 'd, unit) io"
  wl_handshake :: "string \<Rightarrow> string \<Rightarrow> ('n \<times> 'd, unit) io"
  wl_read_some :: "nat \<Rightarrow> ('n \<times> 'd, bytes) io"
  wl_write_some :: "bytes \<Rightarrow> ('n \<times> 'd, nat) io"
  wl_close :: "('n \<times> 'd, unit) io"

record ('n, 'd) websocket =
  wk_path :: string
  wk_host :: string
  wk_delegate :: "'n \<times> 'd"
  wk_buf :: bytes

abbreviation http_bad_target :: http_error where "http_bad_target \<equiv> http_other 2"
abbreviation http_bad_value :: http_error where "http_bad_value \<equiv> http_other 3"

definition websocket_new :: "('n, 'd) ws_lib \<Rightarrow> string \<Rightarrow> string \<Rightarrow> 'n \<Rightarrow> ('n, 'd) websocket" where
  "websocket_new wl path host next =
     \<lparr>wk_path = path, wk_host = host, wk_delegate = (next, wl_new wl), wk_buf = []\<rparr>"

definition on_delegate :: "('n \<times> 'd, 'a) io \<Rightarrow> (('n, 'd) websocket, 'a) io" where
  "on_delegate f w = (case f (wk_delegate w) of (r, d) \<Rightarrow> (r, w\<lparr>wk_delegate := d\<rparr>))"

definition websocket_read_header ::
  "http_lib \<Rightarrow> 'n layer \<Rightarrow> (('n, 'd) websocket, HttpRequest) io" where
  "websocket_read_header hl nl w =
     (case read_header (hl_parse_request hl) hl nl (fst (wk_delegate w), wk_buf w) of (r, (n, buf)) \<Rightarrow>
        (rbind r (\<lambda>(req, upgrade). Inr req), w\<lparr>wk_delegate := (n, snd (wk_delegate w)), wk_buf := buf\<rparr>))"

definition websocket_do_accept ::
  "http_lib \<Rightarrow> ('n, 'd) ws_lib \<Rightarrow> 'n layer \<Rightarrow> (('n, 'd) websocket, unit) io" where
  "websocket_do_accept hl wl nl =
     iobind (websocket_read_header hl nl) (\<lambda>header.
     iobind (\<lambda>w. (assertCode (hr_target header = wk_path w) (Http_code http_bad_target), w)) (\<lambda>_.
     iobind (\<lambda>w. (if wk_host w \<noteq> []
                  then assertCode ((case field_find (hr_fields header) ''Host'' of None \<Rightarrow> [] | Some v \<Rightarrow> v) = wk_host w)
                         (Http_code http_bad_value)
                  else Inr (), w)) (\<lambda>_.
     on_delegate (wl_accept wl header))))"

text \<open>
  \<^verbatim>\<open>do_read\<close> into a buffer that holds \<open>b\<close>: \<^verbatim>\<open>buffer_copy\<close> takes its target first, so what is left of the
  request is overwritten with \<open>b\<close>, and the caller finds \<open>b\<close> unchanged.
\<close>

definition websocket_do_read :: "('n, 'd) ws_lib \<Rightarrow> bytes \<Rightarrow> (('n, 'd) websocket, bytes) io" where
  "websocket_do_read wl b w =
     (if wk_buf w = [] then on_delegate (wl_read_some wl (length b)) w
      else (let copied = min (length (wk_buf w)) (length b);
                buf = overwrite (take copied b) (wk_buf w)
            in (Inr (take copied b), w\<lparr>wk_buf := drop copied buf\<rparr>)))"

definition websocket_async_shutdown :: "('n, 'd) ws_lib \<Rightarrow> (('n, 'd) websocket, unit) io" where
  "websocket_async_shutdown wl = on_delegate (wl_close wl)"

definition websocket_async_handshake :: "('n, 'd) ws_lib \<Rightarrow> (('n, 'd) websocket, unit) io" where
  "websocket_async_handshake wl w = on_delegate (wl_handshake wl (wk_host w) (wk_path w)) w"

definition websocket_async_accept ::
  "http_lib \<Rightarrow> ('n, 'd) ws_lib \<Rightarrow> 'n layer \<Rightarrow> (('n, 'd) websocket, unit) io" where
  "websocket_async_accept hl wl nl = completer (websocket_do_accept hl wl nl)"

text \<open>The caller's buffer is zeroed, as the one of a session is.\<close>

definition websocket_async_read_some :: "('n, 'd) ws_lib \<Rightarrow> nat \<Rightarrow> (('n, 'd) websocket, bytes) io" where
  "websocket_async_read_some wl n = completer (websocket_do_read wl (replicate n 0))"

definition websocket_async_write_some :: "('n, 'd) ws_lib \<Rightarrow> bytes \<Rightarrow> (('n, 'd) websocket, nat) io" where
  "websocket_async_write_some wl bs = on_delegate (wl_write_some wl bs)"

definition websocket_next :: "('n, 'd) websocket \<Rightarrow> 'n" where
  "websocket_next w = fst (wk_delegate w)"

definition websocket_put_next :: "'n \<Rightarrow> ('n, 'd) websocket \<Rightarrow> ('n, 'd) websocket" where
  "websocket_put_next n w = w\<lparr>wk_delegate := (n, snd (wk_delegate w))\<rparr>"

definition websocket_ops ::
  "http_lib \<Rightarrow> ('n, 'd) ws_lib \<Rightarrow> 'n layer \<Rightarrow> ('n, 'd) websocket stream_ops" where
  "websocket_ops hl wl nl = \<lparr>so_read_some = websocket_async_read_some wl, so_write_some = websocket_async_write_some wl,
     so_accept = websocket_async_accept hl wl nl, so_handshake = websocket_async_handshake wl,
     so_shutdown = websocket_async_shutdown wl\<rparr>"

definition websocket_layer :: "http_lib \<Rightarrow> ('n, 'd) ws_lib \<Rightarrow> 'n layer \<Rightarrow> ('n, 'd) websocket layer" where
  "websocket_layer hl wl nl = layered websocket_next websocket_put_next nl (websocket_ops hl wl nl)"

section \<open>Layers are channels\<close>

text \<open>
  What the adapters rely on of a stream: a read delivers at least one byte of what is still to come,
  or reports the end; a write takes at least one byte of what it is given; a handshake, and opening
  the layer below, does not touch either.
\<close>

definition touches_nothing :: "('s \<Rightarrow> bytes) \<Rightarrow> ('s \<Rightarrow> bytes) \<Rightarrow> ('s \<Rightarrow> bool) \<Rightarrow> ('s, unit) io \<Rightarrow> bool" where
  "touches_nothing content written ok f \<longleftrightarrow>
     (\<forall>s. ok s \<longrightarrow> (\<exists>s'. f s = (Inr (), s') \<and> content s' = content s \<and> written s' = written s \<and> ok s'))"

definition stream_laws ::
  "('s \<Rightarrow> 'n) \<Rightarrow> ('n \<Rightarrow> 's \<Rightarrow> 's) \<Rightarrow> 'n layer \<Rightarrow> 's stream_ops \<Rightarrow> ('s \<Rightarrow> bytes) \<Rightarrow> ('s \<Rightarrow> bytes) \<Rightarrow> ('s \<Rightarrow> bool) \<Rightarrow> bool" where
  "stream_laws get put nl ops content written ok \<longleftrightarrow>
     (\<forall>s n. ok s \<longrightarrow> 0 < n \<longrightarrow> content s \<noteq> [] \<longrightarrow> (\<exists>bs s'. so_read_some ops n s = (Inr bs, s') \<and> bs \<noteq> [] \<and> length bs \<le> n)) \<and>
     (\<forall>s n. ok s \<longrightarrow> 0 < n \<longrightarrow> content s = [] \<longrightarrow> (\<exists>ec msg s'. so_read_some ops n s = (Inl (SystemError ec msg), s'))) \<and>
     (\<forall>s n r s'. ok s \<longrightarrow> so_read_some ops n s = (r, s') \<longrightarrow>
        content s = (case r of Inl e \<Rightarrow> [] | Inr bs \<Rightarrow> bs) @ content s' \<and> written s' = written s \<and> ok s') \<and>
     (\<forall>s bs. ok s \<longrightarrow> (\<exists>m s'. so_write_some ops bs s = (Inr m, s') \<and> m \<le> length bs \<and> (bs \<noteq> [] \<longrightarrow> 0 < m) \<and>
        content s' = content s \<and> written s' = written s @ take m bs \<and> ok s')) \<and>
     touches_nothing content written ok (so_accept ops) \<and> touches_nothing content written ok (so_handshake ops) \<and>
     touches_nothing content written ok (on_next get put (ly_accept nl)) \<and>
     (\<forall>ep. touches_nothing content written ok (on_next get put (ly_connect nl ep)))"

lemma stream_lawsD:
  assumes "stream_laws get put nl ops content written ok"
  shows "ok s \<Longrightarrow> 0 < n \<Longrightarrow> content s \<noteq> [] \<Longrightarrow> \<exists>bs s'. so_read_some ops n s = (Inr bs, s') \<and> bs \<noteq> [] \<and> length bs \<le> n"
    and "ok s \<Longrightarrow> 0 < n \<Longrightarrow> content s = [] \<Longrightarrow> \<exists>ec msg s'. so_read_some ops n s = (Inl (SystemError ec msg), s')"
    and "ok s \<Longrightarrow> so_read_some ops n s = (r, s') \<Longrightarrow>
      content s = (case r of Inl e \<Rightarrow> [] | Inr bs \<Rightarrow> bs) @ content s' \<and> written s' = written s \<and> ok s'"
    and "ok s \<Longrightarrow> \<exists>m s'. so_write_some ops bs s = (Inr m, s') \<and> m \<le> length bs \<and> (bs \<noteq> [] \<longrightarrow> 0 < m) \<and>
      content s' = content s \<and> written s' = written s @ take m bs \<and> ok s'"
    and "touches_nothing content written ok (so_accept ops)" "touches_nothing content written ok (so_handshake ops)"
    and "touches_nothing content written ok (on_next get put (ly_accept nl))"
    and "touches_nothing content written ok (on_next get put (ly_connect nl ep))"
  using assms unfolding stream_laws_def by blast+

lemma touches_nothing_bind:
  assumes f: "touches_nothing content written ok f" and g: "touches_nothing content written ok g" and s: "ok s"
  shows "\<exists>s'. iobind f (\<lambda>_. g) s = (Inr (), s') \<and> content s' = content s \<and> written s' = written s \<and> ok s'"
proof -
  obtain s1 where s1: "f s = (Inr (), s1)" "content s1 = content s" "written s1 = written s" "ok s1"
    using f s unfolding touches_nothing_def by blast
  then obtain s2 where "g s1 = (Inr (), s2)" "content s2 = content s1" "written s2 = written s1" "ok s2"
    using g unfolding touches_nothing_def by blast
  with s1 show ?thesis by simp
qed

lemma layered_read_all:
  assumes laws: "stream_laws get put nl ops content written ok"
  shows "ok s \<Longrightarrow> (n \<le> length (content s) \<longrightarrow> (\<exists>s'. layered_read (so_read_some ops) n s = (Inr (take n (content s)), s') \<and>
      content s' = drop n (content s) \<and> written s' = written s \<and> ok s')) \<and>
    (length (content s) < n \<longrightarrow> (\<exists>ec msg s'. layered_read (so_read_some ops) n s = (Inl (SystemError ec msg), s') \<and>
      written s' = written s))"
proof (induction n arbitrary: s rule: less_induct)
  case (less n)
  consider "n = 0" | "0 < n" "content s = []" | "0 < n" "content s \<noteq> []" by blast
  then show ?case
  proof cases
    case 1
    then show ?thesis using less.prems by (simp add: layered_read.simps)
  next
    case 2
    then obtain ec msg s' where r: "so_read_some ops n s = (Inl (SystemError ec msg), s')"
      using stream_lawsD(2) [OF laws less.prems] by blast
    then show ?thesis using 2 stream_lawsD(3) [OF laws less.prems r] by (simp add: layered_read.simps [of _ n])
  next
    case 3
    then obtain bs s1 where r: "so_read_some ops n s = (Inr bs, s1)" "bs \<noteq> []" "length bs \<le> n"
      using stream_lawsD(1) [OF laws less.prems] by blast
    have c: "content s = bs @ content s1" "written s1 = written s" "ok s1"
      using stream_lawsD(3) [OF laws less.prems r(1)] by simp_all
    have "0 < length bs" using r(2) by simp
    then have "n - length bs < n" using 3(1) by simp
    note ih = less.IH [OF this c(3)]
    show ?thesis
    proof (intro conjI impI)
      assume "n \<le> length (content s)"
      then obtain s2 where "layered_read (so_read_some ops) (n - length bs) s1 = (Inr (take (n - length bs) (content s1)), s2)"
          "content s2 = drop (n - length bs) (content s1)" "written s2 = written s1" "ok s2" using ih c(1) by auto
      then show "\<exists>s'. layered_read (so_read_some ops) n s = (Inr (take n (content s)), s') \<and>
          content s' = drop n (content s) \<and> written s' = written s \<and> ok s'"
        using 3(1) r c by (simp add: layered_read.simps [of _ n])
    next
      assume "length (content s) < n"
      then obtain ec msg s2 where "layered_read (so_read_some ops) (n - length bs) s1 = (Inl (SystemError ec msg), s2)"
          "written s2 = written s1" using ih c(1) by auto
      then show "\<exists>ec msg s'. layered_read (so_read_some ops) n s = (Inl (SystemError ec msg), s') \<and> written s' = written s"
        using 3(1) r c by (simp add: layered_read.simps [of _ n])
    qed
  qed
qed

lemma layered_write_all:
  assumes laws: "stream_laws get put nl ops content written ok"
  shows "ok s \<Longrightarrow> \<exists>s'. layered_write (so_write_some ops) bs s = (Inr (), s') \<and> content s' = content s \<and>
    written s' = written s @ bs \<and> ok s'"
proof (induction "length bs" arbitrary: bs s rule: less_induct)
  case less
  obtain m s1 where w: "so_write_some ops (take 65536 bs) s = (Inr m, s1)" "m \<le> length (take 65536 bs)"
      "take 65536 bs \<noteq> [] \<Longrightarrow> 0 < m" "content s1 = content s" "written s1 = written s @ take m (take 65536 bs)" "ok s1"
    using stream_lawsD(4) [OF laws less.prems, of "take 65536 bs"] by blast
  have m: "m \<le> length bs" "take m (take 65536 bs) = take m bs" using w(2) by (auto simp: min_def split: if_splits)
  show ?case
  proof (cases "m = 0 \<or> length bs \<le> m")
    case True
    then have "take m bs = bs" using w(3) m by auto
    then show ?thesis using True w m by (simp add: layered_write.simps [of _ bs])
  next
    case False
    then have "length (drop m bs) < length bs" by auto
    from less.hyps [OF this w(6)] obtain s2 where
      "layered_write (so_write_some ops) (drop m bs) s1 = (Inr (), s2)" "content s2 = content s1"
      "written s2 = written s1 @ drop m bs" "ok s2" by blast
    then show ?thesis using False w m by (simp add: layered_write.simps [of _ bs])
  qed
qed

lemma layered_channel:
  assumes laws: "stream_laws get put nl ops content written ok"
  shows "byte_channel (layered get put nl ops) content written ok"
proof
  fix s s' :: 'a and n and bs :: bytes and ep and r :: "bytes result"
  assume s: "ok s"
  show "n \<le> length (content s) \<Longrightarrow> \<exists>s'. ly_read (layered get put nl ops) n s = (Inr (take n (content s)), s') \<and>
      content s' = drop n (content s) \<and> written s' = written s \<and> ok s'"
    and "length (content s) < n \<Longrightarrow> \<exists>ec msg s'. ly_read (layered get put nl ops) n s = (Inl (SystemError ec msg), s') \<and>
      written s' = written s"
    using layered_read_all [OF laws s, of n] by (simp_all add: layered_def)
  show "\<exists>s'. ly_write (layered get put nl ops) bs s = (Inr (), s') \<and> content s' = content s \<and> written s' = written s @ bs \<and> ok s'"
    using layered_write_all [OF laws s, of bs] by (simp add: layered_def)
  show "\<exists>s'. ly_accept (layered get put nl ops) s = (Inr (), s') \<and> content s' = content s \<and> written s' = written s \<and> ok s'"
    "\<exists>s'. ly_connect (layered get put nl ops) ep s = (Inr (), s') \<and> content s' = content s \<and> written s' = written s \<and> ok s'"
    using touches_nothing_bind [OF stream_lawsD(7) [OF laws] stream_lawsD(5) [OF laws] s]
      touches_nothing_bind [OF stream_lawsD(8) [OF laws] stream_lawsD(6) [OF laws] s]
    by (simp_all add: layered_def stream_accept_def stream_connect_def)
  show "content s \<noteq> [] \<Longrightarrow> 0 < n \<Longrightarrow> \<exists>bs s'. ly_read_some (layered get put nl ops) n s = (Inr bs, s') \<and> bs \<noteq> [] \<and> length bs \<le> n \<and>
      content s = bs @ content s' \<and> written s' = written s \<and> ok s'"
    using stream_lawsD(1) [OF laws s, of n] stream_lawsD(3) [OF laws s, of n] by (fastforce simp: layered_def)
  show "ly_read_some (layered get put nl ops) n s = (r, s') \<Longrightarrow>
      content s = (case r of Inl e \<Rightarrow> [] | Inr bs \<Rightarrow> bs) @ content s' \<and> written s' = written s \<and> ok s'"
    using stream_lawsD(3) [OF laws s, of n] by (simp add: layered_def)
qed

section \<open>Properties\<close>

text \<open>
  Over a TLS library that keeps its promises (a record delivers the bytes that were written, a
  write takes at least one byte, a handshake changes neither) the TLS layer, as the templates compose
  it with the layer below, is a channel: whole reads, single reads, writes of any length, accepting
  and connecting behave as they do on a socket, so that everything proved of the adapters over a
  channel holds over TLS.
\<close>

theorem tls_layer_channel:
  assumes "stream_laws tls_next tls_put_next nl (tls_ops sl) content written ok"
  shows "byte_channel (tls_layer sl nl) content written ok"
  unfolding tls_layer_def by (rule layered_channel [OF assms])

definition sample_ssl :: "(socket, unit) ssl_lib" where
  "sample_ssl = \<lparr>sl_use_cert = (\<lambda>_. Inr ()), sl_use_key = (\<lambda>_. Inr ()), sl_load_ca = (\<lambda>_. Inr ()), sl_default_paths = Inr (),
     sl_new = (\<lambda>_. ()), sl_set_sni = (\<lambda>_ x. Some x), sl_handshake = (\<lambda>_. ioret (Inr ())),
     sl_read_some = (\<lambda>n. on_fst (read_some n)),
     sl_write_some = (\<lambda>bs. iobind (on_fst (stream_write bs)) (\<lambda>_. ioret (Inr (length bs)))),
     sl_shutdown = ioret (Inr ())\<rparr>"

theorem tls_layer_channel_witness:
  "byte_channel (tls_layer sample_ssl socket_layer) (\<lambda>t. sk_content (tls_next t)) (\<lambda>t. sk_wBuf (tls_next t))
     (\<lambda>t. sk_ok (tls_next t))"
proof (rule tls_layer_channel)
  let ?c = "\<lambda>t :: (socket, unit) tls. sk_content (tls_next t)" and ?w = "\<lambda>t :: (socket, unit) tls. sk_wBuf (tls_next t)"
    and ?ok = "\<lambda>t :: (socket, unit) tls. sk_ok (tls_next t)"
  note defs = tls_ops_def tls_async_read_some_def tls_async_write_some_def tls_async_accept_def tls_async_handshake_def
    on_ssl_def sample_ssl_def on_fst_def tls_next_def tls_put_next_def on_next_def socket_layer_def
  have rd: "so_read_some (tls_ops sample_ssl) n t =
      (fst (read_some n (tls_next t)), t\<lparr>tl_stream := (snd (read_some n (tls_next t)), ())\<rparr>)" for n t
    by (simp add: defs split: prod.splits)
  have wr: "so_write_some (tls_ops sample_ssl) bs t =
      (rbind (fst (stream_write bs (tls_next t))) (\<lambda>_. Inr (length bs)), t\<lparr>tl_stream := (snd (stream_write bs (tls_next t)), ())\<rparr>)" for bs t
    by (auto simp: defs iobind_def stream_write_def)
  have nx: "tls_next (t\<lparr>tl_stream := x\<rparr>) = fst x" for t :: "(socket, unit) tls" and x by (simp add: tls_next_def)
  have 1: "\<exists>bs t'. so_read_some (tls_ops sample_ssl) n t = (Inr bs, t') \<and> bs \<noteq> [] \<and> length bs \<le> n"
    if "?ok t" "0 < n" "?c t \<noteq> []" for t n
    using read_some_ok [OF that(1,3,2)] by (auto simp: rd)
  have 2: "\<exists>ec msg t'. so_read_some (tls_ops sample_ssl) n t = (Inl (SystemError ec msg), t')"
    if "?ok t" "?c t = []" for t n using read_some_end [OF that] by (simp add: rd)
  have 3: "?c t = (case r of Inl e \<Rightarrow> [] | Inr bs \<Rightarrow> bs) @ ?c t' \<and> ?w t' = ?w t \<and> ?ok t'"
    if "?ok t" "so_read_some (tls_ops sample_ssl) n t = (r, t')" for t n r t'
    using sc.some_conserves [OF that(1), of n r "tls_next t'"] that(2) by (auto simp: rd nx socket_layer_def)
  have 4: "\<exists>m t'. so_write_some (tls_ops sample_ssl) bs t = (Inr m, t') \<and> m \<le> length bs \<and> (bs \<noteq> [] \<longrightarrow> 0 < m) \<and>
      ?c t' = ?c t \<and> ?w t' = ?w t @ take m bs \<and> ?ok t'" if "?ok t" for t bs
    using that by (auto simp: wr nx stream_write_def sk_ok_def sk_content_def)
  have 5: "touches_nothing ?c ?w ?ok (so_accept (tls_ops sample_ssl))" "touches_nothing ?c ?w ?ok (so_handshake (tls_ops sample_ssl))"
    "touches_nothing ?c ?w ?ok (on_next tls_next tls_put_next (ly_accept socket_layer))"
    "touches_nothing ?c ?w ?ok (on_next tls_next tls_put_next (ly_connect socket_layer ep))" for ep
    by (auto simp: touches_nothing_def defs)
  show "stream_laws tls_next tls_put_next socket_layer (tls_ops sample_ssl) ?c ?w ?ok"
    unfolding stream_laws_def using 1 2 3 4 5 by blast
qed

text \<open>
  Unless the configuration says \<^verbatim>\<open>insecure\<close>, an egress verifies the certificate of its peer, and it
  verifies it against the server's name exactly when no \<^verbatim>\<open>ca_file\<close> is given: with one, a certificate
  for any name is accepted that the CA has signed, whatever \<^verbatim>\<open>server_name\<close> says.
\<close>

theorem tls_verification:
  assumes "tls_context_egress sl opt sn = Inr ctx"
  shows "sx_verify_peer ctx = (\<not> te_insecure opt) \<and>
    sx_host_name ctx = (if te_insecure opt \<or> te_caFile opt \<noteq> None then None
                        else Some (case te_serverName opt of None \<Rightarrow> sn | Some n \<Rightarrow> n)) \<and>
    (sx_verify_peer ctx \<longrightarrow> sx_ca ctx = te_caFile opt \<and> sx_default_paths ctx = (te_caFile opt = None))"
  using assms
  by (auto simp: tls_context_egress_def ssl_fresh_def Let_def result_simps split: if_splits option.splits)

theorem tls_verification_witness:
  "tls_context_egress sample_ssl \<lparr>te_insecure = False, te_caFile = Some ''ca.pem'', te_serverName = Some ''host'', te_sni = None\<rparr> ''sn'' =
     Inr ((ssl_fresh False)\<lparr>sx_verify_peer := True, sx_ca := Some ''ca.pem''\<rparr>) \<and>
   sx_host_name ((ssl_fresh False)\<lparr>sx_verify_peer := True, sx_ca := Some ''ca.pem''\<rparr>) = None"
proof -
  let ?opt = "\<lparr>te_insecure = False, te_caFile = Some ''ca.pem'', te_serverName = Some ''host'', te_sni = None\<rparr>"
  let ?ctx = "(ssl_fresh False)\<lparr>sx_verify_peer := True, sx_ca := Some ''ca.pem''\<rparr>"
  have "tls_context_egress sample_ssl ?opt ''sn'' = Inr ?ctx"
    by (simp add: tls_context_egress_def sample_ssl_def Let_def)
  from tls_verification [OF this] this show ?thesis by simp
qed

text \<open>
  What has arrived behind the upgrade request of a WebSocket client is lost: as long as something
  of it is left, a read returns the contents the caller's buffer had before, and consumes as many
  bytes of what is left.
\<close>

theorem websocket_leftover_lost:
  assumes "wk_buf w \<noteq> []"
  shows "\<exists>w'. websocket_do_read wl b w = (Inr (take (length (wk_buf w)) b), w') \<and>
    wk_buf w' = drop (length b) (wk_buf w) \<and> wk_delegate w' = wk_delegate w"
  using assms by (auto simp: websocket_do_read_def Let_def overwrite_def min_def)

definition sample_ws :: "(socket, unit) ws_lib" where
  "sample_ws = \<lparr>wl_new = (), wl_accept = (\<lambda>_. ioret (Inr ())), wl_handshake = (\<lambda>_ _. ioret (Inr ())),
     wl_read_some = (\<lambda>n. on_fst (read_some n)),
     wl_write_some = (\<lambda>bs. iobind (on_fst (stream_write bs)) (\<lambda>_. ioret (Inr (length bs)))),
     wl_close = ioret (Inr ())\<rparr>"

theorem websocket_leftover_lost_witness:
  "\<exists>w'. websocket_do_read sample_ws [0, 0, 0]
      \<lparr>wk_path = '''', wk_host = '''', wk_delegate = (sample_socket [], ()), wk_buf = [1, 2]\<rparr> = (Inr [0, 0], w') \<and>
    wk_buf w' = [] \<and> wk_delegate w' = (sample_socket [], ())"
  using websocket_leftover_lost [of "\<lparr>wk_path = '''', wk_host = '''', wk_delegate = (sample_socket [], ()), wk_buf = [1, 2]\<rparr>"
      sample_ws "[0, 0, 0]"] by simp

end
