(* ===== verification/Pichi_Socks5.thy ===== *)
theory Pichi_Socks5
  imports Pichi_Stream Pichi_Egress Pichi_Ingress
begin

text \<open>
  The SOCKS5 adapters (\<^verbatim>\<open>include/pichi/adapter/tcp/socks5.hpp\<close>, \<^verbatim>\<open>src/adapter/tcp/socks5.cpp\<close>): the
  handshake of the ingress with its client and of the egress with the next proxy, with and without
  username and password, over any layer.

  An adapter's state is the layer below it and its credential, which never changes after the
  constructor; the operations pass the layer's state and take the credential as an argument.
\<close>

section \<open>Model\<close>

fun err_reply :: "byte \<Rightarrow> bytes" where
  "err_reply code = [0x05, code, 0x00, 0x01, 0x00, 0x00, 0x00, 0x00, 0x00, 0x00]"

definition socks5_err_to_buf :: "error_code \<Rightarrow> bytes" where
  "socks5_err_to_buf ec =
     (if ec = Asio_code asio_address_family_not_supported then err_reply 0x08
      else if ec = Asio_code asio_connection_refused then err_reply 0x05
      else if ec = Asio_code asio_connection_reset then err_reply 0x05
      else if ec = Asio_code asio_host_not_found then err_reply 0x04
      else if ec = Asio_code asio_host_unreachable then err_reply 0x04
      else if ec = Asio_code asio_network_down then err_reply 0x03
      else if ec = Asio_code asio_network_unreachable then err_reply 0x03
      else if ec = Asio_code asio_timed_out then err_reply 0x04
      else if ec = Pichi_code CONN_FAILURE then err_reply 0x04
      else if ec = Pichi_code BAD_AUTH_METHOD then [0x05, 0xff]
      else if ec = Pichi_code UNAUTHENTICATED then [0x01, 0xff]
      else [])"

definition read_string :: "'s layer \<Rightarrow> ('s, string) io" where
  "read_string ly =
     iobind (ly_read ly 1) (\<lambda>buf.
     iobind (ioret (assertFalse (buf ! 0 = 0) BAD_PROTO '''')) (\<lambda>_.
     iobind (ly_read ly (unat (buf ! 0))) (\<lambda>s.
     ioret (Inr (string_of s)))))"

text \<open>The bytes \<^verbatim>\<open>gen_data\<close> leaves in its 1024-byte array; it does not check that they fit.\<close>

definition gen_data :: "EgressVO \<Rightarrow> bytes result" where
  "gen_data vo =
     (case eg_credential vo of
        None \<Rightarrow> Inr []
      | Some c \<Rightarrow> rbind (get_EC_Up c) (\<lambda>(u, p).
          if 3 + length u + length p \<le> 1024
          then Inr ([0x01, of_nat (length u)] @ bytes_of u @ [of_nat (length p)] @ bytes_of p)
          else Inl UB))"

definition socks5_ingress_credential :: "IngressVO \<Rightarrow> UpIngressCredential result" where
  "socks5_ingress_credential vo =
     (case in_credential vo of None \<Rightarrow> Inr [] | Some c \<Rightarrow> get_IC_Up c)"

definition ingress_need_auth :: "UpIngressCredential \<Rightarrow> bool" where
  "ingress_need_auth data \<longleftrightarrow> data \<noteq> []"

definition credential_authenticate :: "UpIngressCredential \<Rightarrow> string \<Rightarrow> string \<Rightarrow> bool" where
  "credential_authenticate data u p = (case map_of data u of None \<Rightarrow> False | Some q \<Rightarrow> q = p)"

definition egress_need_auth :: "bytes \<Rightarrow> bool" where
  "egress_need_auth data \<longleftrightarrow> 0 < length data"

definition socks5_authenticate :: "'s layer \<Rightarrow> UpIngressCredential \<Rightarrow> ('s, unit) io" where
  "socks5_authenticate ly cred =
     iobind (ly_read ly 1) (\<lambda>ver.
     iobind (ioret (assertTrue (ver ! 0 = 0x01) BAD_PROTO '''')) (\<lambda>_.
     iobind (read_string ly) (\<lambda>u.
     iobind (read_string ly) (\<lambda>p.
     iobind (ioret (assertTrue (credential_authenticate cred u p) UNAUTHENTICATED '''')) (\<lambda>_.
     ly_write ly [0x01, 0x00])))))"

text \<open>The last part of \<^verbatim>\<open>continue_read_remote\<close>: the request itself.\<close>

definition socks5_read_request :: "ip_lib \<Rightarrow> 's layer \<Rightarrow> ('s, Endpoint) io" where
  "socks5_read_request ip ly =
     iobind (ly_read ly 3) (\<lambda>req.
     iobind (ioret (assertTrue (req ! 0 = 0x05) BAD_PROTO '''')) (\<lambda>_.
     iobind (ioret (assertTrue (req ! 1 = 0x01) BAD_PROTO '''')) (\<lambda>_.
     iobind (ioret (assertTrue (req ! 2 = 0x00) BAD_PROTO '''')) (\<lambda>_.
     parse_endpoint ip (ly_read ly)))))"

definition socks5_continue_read_remote ::
  "ip_lib \<Rightarrow> 's layer \<Rightarrow> UpIngressCredential \<Rightarrow> bytes \<Rightarrow> ('s, Endpoint) io" where
  "socks5_continue_read_remote ip ly cred b =
     iobind (ioret (assertTrue (length b = 1) MISC '''')) (\<lambda>_.
     iobind (ioret (assertTrue (b ! 0 = 0x05) BAD_PROTO '''')) (\<lambda>_.
     iobind (ly_read ly 1) (\<lambda>buf.
     iobind (ioret (assertTrue (0 < buf ! 0) BAD_PROTO '''')) (\<lambda>_.
     iobind (ly_read ly (unat (buf ! 0))) (\<lambda>methods.
     let m = (if ingress_need_auth cred then 0x02 else 0x00) in
     iobind (ioret (assertTrue (list_ex (\<lambda>b. b = m) methods) BAD_AUTH_METHOD '''')) (\<lambda>_.
     iobind (ly_write ly [0x05, m]) (\<lambda>_.
     iobind (if ingress_need_auth cred then socks5_authenticate ly cred else ioret (Inr ())) (\<lambda>_.
     socks5_read_request ip ly))))))))"

definition socks5_read_remote :: "ip_lib \<Rightarrow> 's layer \<Rightarrow> UpIngressCredential \<Rightarrow> ('s, Endpoint) io" where
  "socks5_read_remote ip ly cred =
     iobind (ly_accept ly) (\<lambda>_.
     iobind (ly_read ly 1) (\<lambda>buf.
     socks5_continue_read_remote ip ly cred buf))"

definition socks5_confirm :: "'s layer \<Rightarrow> ('s, unit) io" where
  "socks5_confirm ly = ly_write ly [0x05, 0x00, 0x00, 0x01, 0x00, 0x00, 0x00, 0x00, 0x00, 0x00]"

definition socks5_disconnect :: "'s layer \<Rightarrow> error_code \<Rightarrow> ('s, unit) io" where
  "socks5_disconnect ly ec =
     iobind (redirect_void (ly_write ly (socks5_err_to_buf ec))) (\<lambda>_. ioret (Inr ()))"

definition socks5_ingress_recv :: "'s layer \<Rightarrow> nat \<Rightarrow> ('s, bytes) io" where
  "socks5_ingress_recv ly n = ly_read_some ly n"

definition socks5_ingress_send :: "'s layer \<Rightarrow> bytes \<Rightarrow> ('s, unit) io" where
  "socks5_ingress_send ly bs = ly_write ly bs"

definition socks5_ingress_close :: "'s layer \<Rightarrow> ('s, unit) io" where
  "socks5_ingress_close ly = iobind (redirect_void (ly_close ly)) (\<lambda>_. ioret (Inr ()))"

text \<open>
  \<^verbatim>\<open>Socks5Egress::connect\<close>: the endpoint is serialised behind the first three bytes of a zeroed
  array of 512 bytes, which nothing else of the handshake has written to.
\<close>

definition socks5_connect :: "ip_lib \<Rightarrow> 's layer \<Rightarrow> bytes \<Rightarrow> Endpoint \<Rightarrow> Endpoint \<Rightarrow> ('s, unit) io" where
  "socks5_connect ip ly cred peer remote =
     iobind (ly_connect ly peer) (\<lambda>_.
     let m = (if egress_need_auth cred then 0x02 else 0x00) in
     iobind (ly_write ly [0x05, 0x01, m]) (\<lambda>_.
     iobind (ly_read ly 2) (\<lambda>r.
     iobind (ioret (assertTrue (r ! 0 = 0x05) BAD_PROTO '''')) (\<lambda>_.
     iobind (ioret (assertTrue (r ! 1 = m) BAD_AUTH_METHOD '''')) (\<lambda>_.
     iobind (if egress_need_auth cred
             then iobind (ly_write ly cred) (\<lambda>_.
                  iobind (ly_read ly 2) (\<lambda>r.
                  iobind (ioret (assertTrue (r ! 0 = 0x01) BAD_PROTO '''')) (\<lambda>_.
                  ioret (assertTrue (r ! 1 = 0x00) UNAUTHENTICATED ''''))))
             else ioret (Inr ())) (\<lambda>_.
     iobind (ioret (serializeEndpoint ip remote (replicate 509 0))) (\<lambda>(n, buf).
     iobind (ly_write ly ([0x05, 0x01, 0x00] @ take n buf)) (\<lambda>_.
     iobind (ly_read ly 3) (\<lambda>r.
     iobind (ioret (assertTrue (r ! 0 = 0x05) BAD_PROTO '''')) (\<lambda>_.
     iobind (ioret (assertTrue (r ! 1 = 0x00) CONN_FAILURE
               (''Failed to establish connection with '' @ ep_host remote @ '':'' @
                to_string_nat (unat (ep_port remote))))) (\<lambda>_.
     iobind (ioret (assertTrue (r ! 2 = 0x00) BAD_PROTO '''')) (\<lambda>_.
     iobind (parse_endpoint ip (ly_read ly)) (\<lambda>_.
     ioret (Inr ()))))))))))))))"

definition socks5_egress_recv :: "'s layer \<Rightarrow> nat \<Rightarrow> ('s, bytes) io" where
  "socks5_egress_recv ly n = ly_read_some ly n"

definition socks5_egress_send :: "'s layer \<Rightarrow> bytes \<Rightarrow> ('s, unit) io" where
  "socks5_egress_send ly bs = ly_write ly bs"

definition socks5_egress_close :: "'s layer \<Rightarrow> ('s, unit) io" where
  "socks5_egress_close ly = iobind (redirect_void (ly_close ly)) (\<lambda>_. ioret (Inr ()))"

section \<open>The conversation\<close>

text \<open>What the client side sends in a successful handshake, and what the server side answers.\<close>

definition auth_message :: "string \<Rightarrow> string \<Rightarrow> bytes" where
  "auth_message u p = [0x01, of_nat (length u)] @ bytes_of u @ [of_nat (length p)] @ bytes_of p"

definition auth_method :: "bool \<Rightarrow> byte" where
  "auth_method auth = (if auth then 0x02 else 0x00)"

definition socks5_request :: "bytes \<Rightarrow> bytes \<Rightarrow> bytes" where
  "socks5_request data ep = [0x05, 0x01, auth_method (data \<noteq> [])] @ data @ [0x05, 0x01, 0x00] @ ep"

definition socks5_answer :: "bool \<Rightarrow> bytes" where
  "socks5_answer auth = [0x05, auth_method auth] @ (if auth then [0x01, 0x00] else [])"

definition credentials_agree :: "UpIngressCredential \<Rightarrow> bytes \<Rightarrow> bool" where
  "credentials_agree cred data \<longleftrightarrow>
     (cred = [] \<and> data = []) \<or>
     (\<exists>(u, p) \<in> set cred. map_of cred u = Some p \<and> data = auth_message u p \<and>
        0 < length u \<and> length u \<le> 255 \<and> 0 < length p \<and> length p \<le> 255)"

lemma auth_method_eq: "(if auth then 0x02 else 0x00) = auth_method auth"
  by (simp add: auth_method_def)

lemma unat_length_byte: "n \<le> 255 \<Longrightarrow> unat (of_nat n :: byte) = n"
  by (simp add: unat_of_nat)

lemma length_byte_pos: "0 < n \<Longrightarrow> n \<le> 255 \<Longrightarrow> 0 < (of_nat n :: byte)"
  using unat_length_byte [of n] by (metis unat_0 word_gt_0 less_numeral_extra(3))

lemma byte_of_unat: "of_nat (unat (b :: byte)) = b"
  by simp

context byte_stream
begin

lemma read_string_ok:
  assumes "inv s" and "content s = [of_nat (length u)] @ bytes_of u @ rest"
    and "0 < length u" and "length u \<le> 255"
  shows "\<exists>s'. read_string ly s = (Inr u, s') \<and> content s' = rest \<and> written s' = written s \<and> inv s'"
proof -
  have n: "unat (of_nat (length u) :: byte) = length u" using unat_length_byte [OF assms(4)] .
  have nz: "(of_nat (length u) :: byte) \<noteq> 0" using length_byte_pos [OF assms(3,4)] by simp
  show ?thesis unfolding read_string_def
    by (rule step_read [OF assms(1,2)]) (use nz n in \<open>auto intro: step_read\<close>)
qed

lemma read_string_back:
  assumes "inv s" and "read_string ly s = (Inr u, s')"
  shows "content s = [of_nat (length u)] @ bytes_of u @ content s' \<and> written s' = written s \<and> inv s'"
proof -
  obtain b s1 bs where b: "ly_read ly 1 s = (Inr b, s1)" "ly_read ly (unat (b ! 0)) s1 = (Inr bs, s')"
    and u: "u = string_of bs"
    using assms(2) by (auto simp: read_string_def result_simps)
  note r1 = read_back [OF assms(1) b(1)] and r2 = read_back [OF _ b(2)]
  obtain c where "b = [c]" using r1 by (cases b) auto
  then show ?thesis using r1 r2 u by (auto simp: byte_of_unat)
qed

lemma authenticate_reads:
  assumes "inv s" and "content s = auth_message u p @ rest"
    and "0 < length u" "length u \<le> 255" "0 < length p" "length p \<le> 255"
  shows "\<exists>s'. socks5_authenticate ly cred s =
      iobind (ioret (assertTrue (map_of cred u = Some p) UNAUTHENTICATED '''')) (\<lambda>_.
      ly_write ly [0x01, 0x00]) s' \<and> content s' = rest \<and> written s' = written s \<and> inv s'"
proof -
  obtain s1 where s1: "ly_read ly 1 s = (Inr [0x01], s1)" "written s1 = written s" "inv s1"
      "content s1 = [of_nat (length u)] @ bytes_of u @ [of_nat (length p)] @ bytes_of p @ rest"
    using read_append [OF assms(1), of "[0x01]" _ 1] assms(2) by (auto simp: auth_message_def)
  obtain s2 where s2: "read_string ly s1 = (Inr u, s2)" "written s2 = written s" "inv s2"
      "content s2 = [of_nat (length p)] @ bytes_of p @ rest"
    using read_string_ok [OF s1(3,4) assms(3,4)] s1(2) by auto
  obtain s3 where s3: "read_string ly s2 = (Inr p, s3)" "written s3 = written s" "inv s3" "content s3 = rest"
    using read_string_ok [OF s2(3,4) assms(5,6)] s2(2) by auto
  have "credential_authenticate cred u p \<longleftrightarrow> map_of cred u = Some p"
    by (auto simp: credential_authenticate_def split: option.splits)
  then show ?thesis using s1(1) s2(1) s3 by (auto simp: socks5_authenticate_def)
qed

lemma authenticate_ok:
  assumes "inv s" and "content s = auth_message u p @ rest"
    and "0 < length u" "length u \<le> 255" "0 < length p" "length p \<le> 255" and "map_of cred u = Some p"
  shows "\<exists>s'. socks5_authenticate ly cred s = (Inr (), s') \<and> content s' = rest \<and>
    written s' = written s @ [0x01, 0x00] \<and> inv s'"
  using authenticate_reads [OF assms(1-6), of cred] assms(7) write_ok [of _ "[0x01, 0x00]"] by fastforce

lemma authenticate_refuses:
  assumes "inv s" and "content s = auth_message u p @ rest"
    and "0 < length u" "length u \<le> 255" "0 < length p" "length p \<le> 255" and "map_of cred u \<noteq> Some p"
  shows "\<exists>s'. socks5_authenticate ly cred s = (fail_with UNAUTHENTICATED '''', s') \<and>
    written s' = written s \<and> inv s'"
  using authenticate_reads [OF assms(1-6), of cred] assms(7) by (auto simp: fail_with_def)

lemma authenticate_back:
  assumes "inv s" and "socks5_authenticate ly cred s = (Inr x, s')"
  shows "\<exists>u p. content s = auth_message u p @ content s' \<and> map_of cred u = Some p \<and> inv s'"
proof -
  obtain v s1 u s2 p s3 where
    v: "ly_read ly 1 s = (Inr v, s1)" "v ! 0 = 0x01" and
    u: "read_string ly s1 = (Inr u, s2)" and p: "read_string ly s2 = (Inr p, s3)" and
    a: "credential_authenticate cred u p" "ly_write ly [0x01, 0x00] s3 = (Inr x, s')"
    using assms(2) by (auto simp: socks5_authenticate_def result_simps)
  note r1 = read_back [OF assms(1) v(1)]
  note r2 = read_string_back [OF _ u] and r3 = read_string_back [OF _ p]
  have "v = [0x01]" using r1 v(2) by (cases v) auto
  moreover have "map_of cred u = Some p"
    using a(1) by (auto simp: credential_authenticate_def split: option.splits)
  ultimately show ?thesis using r1 r2 r3 write_back [OF _ a(2)] by (auto simp: auth_message_def)
qed

text \<open>The greeting: version, number of methods, methods.\<close>

lemma greeting_ok:
  assumes "inv s" and "content s = [0x05, of_nat (length ms)] @ ms @ rest"
    and "0 < length ms" "length ms \<le> 255" and "auth_method (cred \<noteq> []) \<in> set ms"
  shows "\<exists>s'. socks5_read_remote ip ly cred s =
      iobind (if cred \<noteq> [] then socks5_authenticate ly cred else ioret (Inr ())) (\<lambda>_.
      socks5_read_request ip ly) s' \<and>
    content s' = rest \<and> written s' = written s @ [0x05, auth_method (cred \<noteq> [])] \<and> inv s'"
proof -
  have n: "unat (of_nat (length ms) :: byte) = length ms" using unat_length_byte [OF assms(4)] .
  note nz = length_byte_pos [OF assms(3,4)]
  obtain s0 where s0: "ly_accept ly s = (Inr (), s0)" "written s0 = written s" "inv s0"
      "content s0 = [0x05] @ [of_nat (length ms)] @ ms @ rest"
    using accept_ok [OF assms(1)] assms(2) by auto
  obtain s1 where s1: "ly_read ly 1 s0 = (Inr [0x05], s1)" "written s1 = written s" "inv s1"
      "content s1 = [of_nat (length ms)] @ ms @ rest"
    using read_append [OF s0(3,4), of 1] s0(2) by auto
  obtain s2 where s2: "ly_read ly 1 s1 = (Inr [of_nat (length ms)], s2)" "written s2 = written s" "inv s2"
      "content s2 = ms @ rest"
    using read_append [OF s1(3,4), of 1] s1(2) by auto
  obtain s3 where s3: "ly_read ly (length ms) s2 = (Inr ms, s3)" "written s3 = written s" "inv s3"
      "content s3 = rest"
    using read_append [OF s2(3,4), of "length ms"] s2(2) by auto
  obtain s4 where s4: "ly_write ly [0x05, auth_method (cred \<noteq> [])] s3 = (Inr (), s4)" "content s4 = rest"
      "written s4 = written s @ [0x05, auth_method (cred \<noteq> [])]" "inv s4"
    using write_ok [OF s3(3)] s3(2,4) by metis
  have "list_ex (\<lambda>b. b = auth_method (cred \<noteq> [])) ms" using assms(5) by (auto simp: list_ex_iff)
  then show ?thesis
    using s0(1) s1(1) s2(1) s3(1) s4 n nz
    by (auto simp: socks5_read_remote_def socks5_continue_read_remote_def ingress_need_auth_def
        auth_method_eq Let_def)
qed

lemma request_ok:
  assumes "inv s" and "ip_laws ip" and "endpoint_bytes ip ep = Inr eb"
    and "content s = [0x05, 0x01, 0x00] @ eb @ rest"
  shows "\<exists>s'. socks5_read_request ip ly s = (Inr (canonical ip ep), s') \<and>
    content s' = rest \<and> written s' = written s \<and> inv s'"
  unfolding socks5_read_request_def
proof (rule step_read [OF assms(1,4)])
  fix s' assume "content s' = eb @ rest" "written s' = written s" "inv s'"
  then show "\<exists>s''. iobind (ioret (assertTrue ([0x05, 0x01, 0x00 :: byte] ! 0 = 0x05) BAD_PROTO '''')) (\<lambda>_.
      iobind (ioret (assertTrue ([0x05, 0x01, 0x00 :: byte] ! 1 = 0x01) BAD_PROTO '''')) (\<lambda>_.
      iobind (ioret (assertTrue ([0x05, 0x01, 0x00 :: byte] ! 2 = 0x00) BAD_PROTO '''')) (\<lambda>_.
      parse_endpoint ip (ly_read ly)))) s' = (Inr (canonical ip ep), s'') \<and>
    content s'' = rest \<and> written s'' = written s \<and> inv s''"
    using parse_serialized [OF _ assms(2,3), of s' rest] by (simp add: parse_endpoint_def)
qed simp

lemma ingress_handshake:
  assumes "inv s" and "ip_laws ip" and "endpoint_bytes ip ep = Inr eb" and "credentials_agree cred data"
    and "content s = socks5_request data eb @ rest"
  shows "\<exists>s'. socks5_read_remote ip ly cred s = (Inr (canonical ip ep), s') \<and> content s' = rest \<and>
    written s' = written s @ socks5_answer (cred \<noteq> []) \<and> inv s'"
proof -
  have same: "data \<noteq> [] \<longleftrightarrow> cred \<noteq> []" using assms(4) by (auto simp: credentials_agree_def auth_message_def)
  have c: "content s = [0x05, of_nat (length [auth_method (cred \<noteq> [])])] @ [auth_method (cred \<noteq> [])] @
      data @ [0x05, 0x01, 0x00] @ eb @ rest"
    using assms(5) same by (simp add: socks5_request_def)
  obtain s1 where s1: "socks5_read_remote ip ly cred s =
      iobind (if cred \<noteq> [] then socks5_authenticate ly cred else ioret (Inr ())) (\<lambda>_.
      socks5_read_request ip ly) s1"
      "content s1 = data @ [0x05, 0x01, 0x00] @ eb @ rest"
      "written s1 = written s @ [0x05, auth_method (cred \<noteq> [])]" "inv s1"
    using greeting_ok [OF assms(1) c, of cred ip] by auto
  have "\<exists>s2. (if cred \<noteq> [] then socks5_authenticate ly cred else ioret (Inr ())) s1 = (Inr (), s2) \<and>
      content s2 = [0x05, 0x01, 0x00] @ eb @ rest \<and> written s2 = written s @ socks5_answer (cred \<noteq> []) \<and> inv s2"
  proof (cases "cred = []")
    case True
    then show ?thesis using s1(2-4) same by (auto simp: socks5_answer_def)
  next
    case False
    then obtain u p where "map_of cred u = Some p" "data = auth_message u p"
      "0 < length u" "length u \<le> 255" "0 < length p" "length p \<le> 255"
      using assms(4) by (auto simp: credentials_agree_def)
    then show ?thesis
      using authenticate_ok [OF s1(4), of u p "[0x05, 0x01, 0x00] @ eb @ rest" cred] s1(2,3) False
      by (auto simp: socks5_answer_def)
  qed
  then obtain s2 where s2: "(if cred \<noteq> [] then socks5_authenticate ly cred else ioret (Inr ())) s1 = (Inr (), s2)"
      "content s2 = [0x05, 0x01, 0x00] @ eb @ rest" "written s2 = written s @ socks5_answer (cred \<noteq> [])"
      "inv s2" by blast
  show ?thesis using request_ok [OF s2(4) assms(2,3) s2(2)] s1(1) s2(1,3) by simp
qed

lemma egress_handshake:
  assumes "inv s" and "ip_laws ip" and "serializeEndpoint ip remote (replicate 509 0) = Inr (n, buf)"
    and "content s = socks5_answer (data \<noteq> []) @
      [0x05, 0x00, 0x00, 0x01, 0x00, 0x00, 0x00, 0x00, 0x00, 0x00] @ rest"
  shows "\<exists>s'. socks5_connect ip ly data peer remote s = (Inr (), s') \<and> content s' = rest \<and>
    written s' = written s @ socks5_request data (take n buf) \<and> inv s'"
proof -
  let ?m = "auth_method (data \<noteq> [])"
  let ?confirm = "[0x05, 0x00, 0x00, 0x01, 0x00, 0x00, 0x00, 0x00, 0x00, 0x00 :: byte]"
  obtain s0 where s0: "ly_connect ly peer s = (Inr (), s0)" "written s0 = written s" "inv s0"
      "content s0 = content s" using connect_ok [OF assms(1)] by blast
  obtain s1 where s1: "ly_write ly [0x05, 0x01, ?m] s0 = (Inr (), s1)" "inv s1"
      "written s1 = written s @ [0x05, 0x01, ?m]" "content s1 = content s"
    using write_ok [OF s0(3)] s0(2,4) by metis
  obtain s2 where s2: "ly_read ly 2 s1 = (Inr [0x05, ?m], s2)" "inv s2" "written s2 = written s1"
      "content s2 = (if data \<noteq> [] then [0x01, 0x00] else []) @ ?confirm @ rest"
    using read_append [OF s1(2), of "[0x05, ?m]" _ 2] s1(4) assms(4) by (auto simp: socks5_answer_def)
  have "\<exists>s3. (if data \<noteq> []
      then iobind (ly_write ly data) (\<lambda>_. iobind (ly_read ly 2) (\<lambda>r.
           iobind (ioret (assertTrue (r ! 0 = 0x01) BAD_PROTO '''')) (\<lambda>_.
           ioret (assertTrue (r ! 1 = 0x00) UNAUTHENTICATED ''''))))
      else ioret (Inr ())) s2 = (Inr (), s3) \<and> content s3 = ?confirm @ rest \<and>
      written s3 = written s2 @ data \<and> inv s3"
  proof (cases "data = []")
    case False
    obtain s3 where s3: "ly_write ly data s2 = (Inr (), s3)" "inv s3" "written s3 = written s2 @ data"
        "content s3 = [0x01, 0x00] @ ?confirm @ rest"
      using write_ok [OF s2(2), of data] s2(4) False by auto
    then show ?thesis using read_append [OF s3(2,4), of 2] False by auto
  qed (use s2 in auto)
  then obtain s3 where s3: "(if data \<noteq> []
      then iobind (ly_write ly data) (\<lambda>_. iobind (ly_read ly 2) (\<lambda>r.
           iobind (ioret (assertTrue (r ! 0 = 0x01) BAD_PROTO '''')) (\<lambda>_.
           ioret (assertTrue (r ! 1 = 0x00) UNAUTHENTICATED ''''))))
      else ioret (Inr ())) s2 = (Inr (), s3)" "content s3 = ?confirm @ rest"
      "written s3 = written s2 @ data" "inv s3" by blast
  obtain s4 where s4: "ly_write ly ([0x05, 0x01, 0x00] @ take n buf) s3 = (Inr (), s4)" "inv s4"
      "written s4 = written s3 @ [0x05, 0x01, 0x00] @ take n buf" "content s4 = ?confirm @ rest"
    using write_ok [OF s3(4)] s3(2) by metis
  obtain s5 where s5: "ly_read ly 3 s4 = (Inr [0x05, 0x00, 0x00], s5)" "inv s5" "written s5 = written s4"
      "content s5 = [0x01] @ [0, 0, 0, 0] @ hton16 0 @ rest"
    using read_append [OF s4(2), of "[0x05, 0x00, 0x00]" _ 3] s4(4)
    by (auto simp: hton16_def native_bytes16_def)
  obtain s6 ep where s6: "parse_endpoint ip (ly_read ly) s5 = (Inr ep, s6)" "content s6 = rest"
      "written s6 = written s5" "inv s6"
    using parse_ipv4 [OF s5(2,4), of ip] by (auto simp: parse_endpoint_def)
  have "written s6 = written s @ socks5_request data (take n buf)"
    using s6(3) s5(3) s4(3) s3(3) s2(3) s1(3) by (simp add: socks5_request_def)
  then show ?thesis
    using s0(1) s1(1) s2(1) s3(1) s4(1) s5(1) s6 assms(3)
    by (simp add: socks5_connect_def egress_need_auth_def auth_method_eq Let_def)
qed

lemma read_remote_back:
  assumes "inv s" and "socks5_read_remote ip ly cred s = (Inr ep, s')" and "cred \<noteq> []"
  shows "\<exists>ms u p rest. content s = [0x05, of_nat (length ms)] @ ms @ auth_message u p @ rest \<and>
    0x02 \<in> set ms \<and> map_of cred u = Some p"
proof -
  obtain a s0 v s1 n s2 ms s3 w s4 x s5 where
    a: "ly_accept ly s = (Inr a, s0)" and v: "ly_read ly 1 s0 = (Inr v, s1)" "v ! 0 = 0x05" and
    n: "ly_read ly 1 s1 = (Inr n, s2)" and ms: "ly_read ly (unat (n ! 0)) s2 = (Inr ms, s3)" and
    m: "list_ex (\<lambda>b. b = 0x02) ms" and w: "ly_write ly [0x05, 0x02] s3 = (Inr w, s4)" and
    x: "socks5_authenticate ly cred s4 = (Inr x, s5)"
    using assms(2,3) by (auto simp: socks5_read_remote_def socks5_continue_read_remote_def result_simps
        ingress_need_auth_def Let_def)
  note r0 = accept_back [OF assms(1) a]
  then have r1: "content s0 = v @ content s1" "length v = 1" "inv s1" using read_back [OF _ v(1)] by auto
  then have r2: "content s1 = n @ content s2" "length n = 1" "inv s2" using read_back [OF _ n] by auto
  then have r3: "content s2 = ms @ content s3" "length ms = unat (n ! 0)" "inv s3"
    using read_back [OF _ ms] by auto
  then have "content s4 = content s3" "inv s4" using write_back [OF _ w] by auto
  then obtain u p where up: "content s3 = auth_message u p @ content s5" "map_of cred u = Some p"
    using authenticate_back [OF _ x] by auto
  have "v = [0x05]" using r1(2) v(2) by (cases v) auto
  moreover have "n = [of_nat (length ms)]" using r2(2) r3(2) by (cases n) auto
  ultimately have "content s = [0x05, of_nat (length ms)] @ ms @ auth_message u p @ content s5"
    using r0 r1(1) r2(1) r3(1) up(1) by simp
  moreover have "0x02 \<in> set ms" using m by (auto simp: list_ex_iff)
  ultimately show ?thesis using up(2) by blast
qed

end

section \<open>Properties\<close>

definition sample_socks_egress :: EgressVO where
  "sample_socks_egress = (empty_egress SOCKS5)\<lparr>eg_credential := Some (EC_Up (''user'', ''pass''))\<rparr>"

definition sample_socks_users :: UpIngressCredential where
  "sample_socks_users = [(''other'', ''x''), (''user'', ''pass'')]"

text \<open>
  C21: A SOCKS5 egress and a SOCKS5 ingress understand each other: there is one conversation, what the
  egress sends and what the ingress answers, such that each side, fed with the other's bytes cut
  into chunks in any way, completes its handshake, says exactly its own part, and leaves unread
  what follows. The ingress learns the endpoint the egress was asked for.
\<close>

theorem socks5_interoperates:
  assumes "ip_laws ip" and "serializeEndpoint ip remote (replicate 509 0) = Inr (n, buf)"
    and "gen_data evo = Inr data" and "credentials_agree users data"
  shows "\<exists>request answer.
    (\<forall>c rest. sk_ok c \<longrightarrow> sk_content c = answer @ rest \<longrightarrow>
      (\<exists>c'. socks5_connect ip socket_layer data peer remote c = (Inr (), c') \<and>
        sk_content c' = rest \<and> sk_wBuf c' = sk_wBuf c @ request)) \<and>
    (\<forall>s rest. sk_ok s \<longrightarrow> sk_content s = request @ rest \<longrightarrow>
      (\<exists>s' s''. socks5_read_remote ip socket_layer users s = (Inr (canonical ip remote), s') \<and>
        socks5_confirm socket_layer s' = (Inr (), s'') \<and>
        sk_content s'' = rest \<and> sk_wBuf s'' = sk_wBuf s @ answer))"
proof (rule exI, rule exI, intro conjI allI impI)
  let ?confirm = "[0x05, 0x00, 0x00, 0x01, 0x00, 0x00, 0x00, 0x00, 0x00, 0x00 :: byte]"
  have same: "data \<noteq> [] \<longleftrightarrow> users \<noteq> []"
    using assms(4) by (auto simp: credentials_agree_def auth_message_def)
  show "\<exists>c'. socks5_connect ip socket_layer data peer remote c = (Inr (), c') \<and>
      sk_content c' = rest \<and> sk_wBuf c' = sk_wBuf c @ socks5_request data (take n buf)"
    if "sk_ok c" "sk_content c = (socks5_answer (data \<noteq> []) @ ?confirm) @ rest" for c rest
    using sk.egress_handshake [OF that(1) assms(1,2), of data rest peer] that(2) by auto
  show "\<exists>s' s''. socks5_read_remote ip socket_layer users s = (Inr (canonical ip remote), s') \<and>
      socks5_confirm socket_layer s' = (Inr (), s'') \<and> sk_content s'' = rest \<and>
      sk_wBuf s'' = sk_wBuf s @ socks5_answer (data \<noteq> []) @ ?confirm"
    if s: "sk_ok s" "sk_content s = socks5_request data (take n buf) @ rest" for s rest
  proof -
    obtain s' where s': "socks5_read_remote ip socket_layer users s = (Inr (canonical ip remote), s')"
        "sk_content s' = rest" "sk_wBuf s' = sk_wBuf s @ socks5_answer (users \<noteq> [])" "sk_ok s'"
      using sk.ingress_handshake [OF s(1) assms(1) serialized_prefix(1) [OF assms(1,2)] assms(4) s(2)]
      by blast
    then show ?thesis
      using sk.write_ok [OF s'(4), of ?confirm] same by (auto simp: socks5_confirm_def)
  qed
qed

theorem socks5_interoperates_witness:
  "\<exists>request answer.
    (\<forall>c rest. sk_ok c \<longrightarrow> sk_content c = answer @ rest \<longrightarrow>
      (\<exists>c'. socks5_connect sample_ip socket_layer ([1, 4, 117, 115, 101, 114, 4, 112, 97, 115, 115])
          sample_remote sample_remote c = (Inr (), c') \<and>
        sk_content c' = rest \<and> sk_wBuf c' = sk_wBuf c @ request)) \<and>
    (\<forall>s rest. sk_ok s \<longrightarrow> sk_content s = request @ rest \<longrightarrow>
      (\<exists>s' s''. socks5_read_remote sample_ip socket_layer sample_socks_users s =
          (Inr (canonical sample_ip sample_remote), s') \<and>
        socks5_confirm socket_layer s' = (Inr (), s'') \<and>
        sk_content s'' = rest \<and> sk_wBuf s'' = sk_wBuf s @ answer))"
proof -
  have g: "gen_data sample_socks_egress = Inr [1, 4, 117, 115, 101, 114, 4, 112, 97, 115, 115]"
    by code_simp
  have "auth_message ''user'' ''pass'' = [1, 4, 117, 115, 101, 114, 4, 112, 97, 115, 115]" by code_simp
  then have a: "credentials_agree sample_socks_users [1, 4, 117, 115, 101, 114, 4, 112, 97, 115, 115]"
    by (simp add: credentials_agree_def sample_socks_users_def)
  have "\<exists>n buf. serializeEndpoint sample_ip sample_remote (replicate 509 0) = Inr (n, buf)"
    by (simp add: serializeEndpoint_eq_bytes endpoint_bytes_def sample_remote_def)
  then obtain n buf where s: "serializeEndpoint sample_ip sample_remote (replicate 509 0) = Inr (n, buf)"
    by blast
  from socks5_interoperates [OF sample_ip_laws s g a, of sample_remote] show ?thesis .
qed

text \<open>
  C22: An ingress with users never yields a remote endpoint to a client that did not offer the
  username/password method and send the name and password of one of the users.
\<close>

theorem socks5_authenticated_only:
  assumes "sk_ok s" and "users \<noteq> []" and "socks5_read_remote ip socket_layer users s = (Inr ep, s')"
  shows "\<exists>methods u p rest. sk_content s = [0x05, of_nat (length methods)] @ methods @
      ([0x01, of_nat (length u)] @ bytes_of u @ [of_nat (length p)] @ bytes_of p) @ rest \<and>
    0x02 \<in> set methods \<and> map_of users u = Some p"
  using sk.read_remote_back [OF assms(1,3,2)] by (simp add: auth_message_def)

definition sample_auth_socket :: socket where
  "sample_auth_socket = \<lparr>sk_rBufs = [[5, 1], [2, 1, 4, 117, 115, 101, 114, 4, 112, 97], [115, 115, 5, 1, 0],
     [3, 1, 97, 0, 80]], sk_wBuf = [], sk_end = Asio_code asio_eof, sk_open = True\<rparr>"

theorem socks5_authenticated_only_witness:
  "\<exists>methods u p rest. sk_content sample_auth_socket = [0x05, of_nat (length methods)] @ methods @
      ([0x01, of_nat (length u)] @ bytes_of u @ [of_nat (length p)] @ bytes_of p) @ rest \<and>
    0x02 \<in> set methods \<and> map_of sample_socks_users u = Some p"
proof -
  let ?r = "socks5_read_remote sample_ip socket_layer sample_socks_users sample_auth_socket"
  have "fst ?r = Inr \<lparr>ep_type = DOMAIN_NAME, ep_host = ''a'', ep_port = 80\<rparr>" by code_simp
  then have "?r = (Inr \<lparr>ep_type = DOMAIN_NAME, ep_host = ''a'', ep_port = 80\<rparr>, snd ?r)"
    by (simp add: prod_eq_iff)
  moreover have "sk_ok sample_auth_socket" "sample_socks_users \<noteq> []"
    by (simp_all add: sk_ok_def sample_auth_socket_def sample_socks_users_def)
  ultimately show ?thesis using socks5_authenticated_only by blast
qed

text \<open>
  A client that sends a wrong name or password is told so: the handshake fails with
  \<^verbatim>\<open>UNAUTHENTICATED\<close> after the method answer, and the disconnection for that error sends the failure
  message of the authentication protocol, and nothing else is sent.
\<close>

theorem socks5_wrong_password:
  assumes "sk_ok s" and "users \<noteq> []" and "0x02 \<in> set methods" and "length methods \<le> 255"
    and "0 < length u" "length u \<le> 255" "0 < length p" "length p \<le> 255" and "map_of users u \<noteq> Some p"
    and "sk_content s = [0x05, of_nat (length methods)] @ methods @ auth_message u p @ rest"
  shows "\<exists>s' s''. socks5_read_remote ip socket_layer users s =
      (Inl (SystemError (Pichi_code UNAUTHENTICATED) ''''), s') \<and>
    socks5_disconnect socket_layer (Pichi_code UNAUTHENTICATED) s' = (Inr (), s'') \<and>
    sk_wBuf s'' = sk_wBuf s @ [0x05, 0x02] @ [0x01, 0xff]"
proof -
  have m: "0 < length methods" "auth_method (users \<noteq> []) \<in> set methods"
    using assms(2,3) by (auto simp: auth_method_def)
  obtain s1 where s1: "socks5_read_remote ip socket_layer users s =
      iobind (socks5_authenticate socket_layer users) (\<lambda>_. socks5_read_request ip socket_layer) s1"
      "sk_content s1 = auth_message u p @ rest" "sk_wBuf s1 = sk_wBuf s @ [0x05, 0x02]" "sk_ok s1"
    using sk.greeting_ok [OF assms(1,10) m(1) assms(4) m(2), of ip] assms(2) by (auto simp: auth_method_def)
  obtain s2 where s2: "socks5_authenticate socket_layer users s1 = (fail_with UNAUTHENTICATED '''', s2)"
      "sk_wBuf s2 = sk_wBuf s1" "sk_ok s2"
    using sk.authenticate_refuses [OF s1(4,2) assms(5-9)] by blast
  obtain s3 where "ly_write socket_layer [0x01, 0xff] s2 = (Inr (), s3)" "sk_wBuf s3 = sk_wBuf s2 @ [0x01, 0xff]"
    using sk.write_ok [OF s2(3)] by blast
  then show ?thesis using s1(1,3) s2(1,2)
    by (simp add: fail_with_def makeErrorCode_def socks5_disconnect_def socks5_err_to_buf_def
        redirect_void_def iobind_def)
qed

theorem socks5_wrong_password_witness:
  "let s = \<lparr>sk_rBufs = [[5, 1, 2, 1, 1, 117, 1], [120]], sk_wBuf = [], sk_end = Asio_code asio_eof, sk_open = True\<rparr> in
   \<exists>s' s''. socks5_read_remote sample_ip socket_layer sample_socks_users s =
      (Inl (SystemError (Pichi_code UNAUTHENTICATED) ''''), s') \<and>
    socks5_disconnect socket_layer (Pichi_code UNAUTHENTICATED) s' = (Inr (), s'') \<and>
    sk_wBuf s'' = sk_wBuf s @ [0x05, 0x02] @ [0x01, 0xff]"
proof -
  have "auth_message ''u'' ''x'' = [1, 1, 117, 1, 120]" by code_simp
  then show ?thesis
    unfolding Let_def
    by (intro socks5_wrong_password [of _ _ "[2]" "''u''" "''x''" "[]"])
       (simp_all add: sk_ok_def sk_content_def sample_socks_users_def)
qed

end
