(* ===== verification/Pichi_Trojan.thy ===== *)
theory Pichi_Trojan
  imports Pichi_Stream Pichi_Egress Pichi_Ingress
begin

text \<open>
  The Trojan adapters (\<^verbatim>\<open>include/pichi/adapter/tcp/trojan.hpp\<close>, \<^verbatim>\<open>src/adapter/tcp/trojan.cpp\<close>). The ingress
  reads a request into a cache of 512 bytes; when the request is not a valid one it behaves as if it
  were the decoy server, and the cached bytes are replayed to that server.

  The cache's array is kept as a list of 512 bytes with the positions of its readable part (\<open>ch_in\<close>
  to \<open>ch_out\<close>), as documented for \<^verbatim>\<open>flat_static_buffer\<close>, and the span \<^verbatim>\<open>available_\<close> of that array that
  the next read goes to. The hash of passwords (SHA-224 in hexadecimal, from Botan) is a parameter.
\<close>

section \<open>The cache\<close>

record cache =
  ch_mem :: bytes
  ch_in :: nat
  ch_out :: nat
  ch_taken :: nat
  ch_avail :: "nat \<times> nat"

definition cache_new :: "bytes \<Rightarrow> cache" where
  "cache_new mem = \<lparr>ch_mem = mem, ch_in = 0, ch_out = 0, ch_taken = 0, ch_avail = (0, 512)\<rparr>"

definition ch_data :: "cache \<Rightarrow> bytes" where
  "ch_data c = take (ch_out c - ch_in c) (drop (ch_in c) (ch_mem c))"

definition cache_size :: "cache \<Rightarrow> nat" where
  "cache_size c = (ch_out c - ch_in c) - ch_taken c"

definition cache_commit :: "nat \<Rightarrow> cache \<Rightarrow> cache" where
  "cache_commit n c = c\<lparr>ch_out := ch_out c + min n (512 - ch_out c)\<rparr>"

definition cache_consume :: "nat \<Rightarrow> cache \<Rightarrow> cache" where
  "cache_consume n c = c\<lparr>ch_in := ch_in c + min n (ch_out c - ch_in c)\<rparr>"

definition write_at :: "nat \<Rightarrow> bytes \<Rightarrow> bytes \<Rightarrow> bytes" where
  "write_at off bs mem = take off mem @ overwrite bs (drop off mem)"

text \<open>\<^verbatim>\<open>available_ += n\<close> stops at the end of the span.\<close>

definition avail_advance :: "nat \<Rightarrow> nat \<times> nat \<Rightarrow> nat \<times> nat" where
  "avail_advance n av = (fst av + min n (snd av), snd av - n)"

text \<open>What one read of \<^verbatim>\<open>read_from\<close> does to the cache, given the bytes it delivered.\<close>

definition cache_store :: "bytes \<Rightarrow> cache \<Rightarrow> cache" where
  "cache_store bs c =
     (let c1 = cache_commit (length bs) (c\<lparr>ch_mem := write_at (fst (ch_avail c)) bs (ch_mem c)\<rparr>)
      in c1\<lparr>ch_avail := avail_advance (ch_out c1 - ch_in c1) (ch_avail c1)\<rparr>)"

record 's trojan =
  tj_underlying :: 's
  tj_cache :: cache

text \<open>
  The loop of \<^verbatim>\<open>read_from\<close>, with a bound on its rounds. Every round that stores a byte shortens
  \<^verbatim>\<open>available_\<close>, so that 512 rounds exhaust it; from then on a round reads into an empty buffer,
  changes nothing, and the loop never ends.
\<close>

fun cache_read_loop :: "nat \<Rightarrow> 's layer \<Rightarrow> nat \<Rightarrow> ('s trojan, unit) io" where
  "cache_read_loop fuel ly n s =
     (if \<not> cache_size (tj_cache s) < n then (Inr (), s)
      else case fuel of
        0 \<Rightarrow> (Inl Diverges, s)
      | Suc k \<Rightarrow>
          (case ly_read_some ly (snd (ch_avail (tj_cache s))) (tj_underlying s) of
             (Inl e, u) \<Rightarrow> (Inl e, s\<lparr>tj_underlying := u\<rparr>)
           | (Inr bs, u) \<Rightarrow>
               cache_read_loop k ly n \<lparr>tj_underlying = u, tj_cache = cache_store bs (tj_cache s)\<rparr>))"

declare cache_read_loop.simps [simp del]

definition cache_read_from :: "'s layer \<Rightarrow> nat \<Rightarrow> ('s trojan, unit) io" where
  "cache_read_from = cache_read_loop 513"

definition cache_take :: "nat \<Rightarrow> ('s trojan, bytes) io" where
  "cache_take n s =
     (if n \<le> cache_size (tj_cache s)
      then (Inr (take n (drop (ch_taken (tj_cache s)) (ch_data (tj_cache s)))),
            s\<lparr>tj_cache := (tj_cache s)\<lparr>ch_taken := ch_taken (tj_cache s) + n\<rparr>\<rparr>)
      else (fail_misc '''', s))"

definition cache_take_buffer :: "nat \<Rightarrow> ('s trojan, bytes) io" where
  "cache_take_buffer n s =
     (let c = tj_cache s;
          copied = min (cache_size c) n;
          bs = take copied (drop (ch_taken c) (ch_data c))
      in (Inr bs, s\<lparr>tj_cache := (if ch_taken c = 0 then cache_consume copied c
                                 else c\<lparr>ch_taken := ch_taken c + copied\<rparr>)\<rparr>))"

definition cache_clear :: "'s trojan \<Rightarrow> 's trojan" where
  "cache_clear s = s\<lparr>tj_cache := (cache_consume (ch_taken (tj_cache s)) (tj_cache s))\<lparr>ch_taken := 0\<rparr>\<rparr>"

definition cache_rollback :: "'s trojan \<Rightarrow> 's trojan" where
  "cache_rollback s = s\<lparr>tj_cache := (tj_cache s)\<lparr>ch_taken := 0\<rparr>\<rparr>"

section \<open>The ingress\<close>

abbreviation PWD_LEN :: nat where "PWD_LEN \<equiv> 56"
abbreviation CRLF :: bytes where "CRLF \<equiv> [0x0d, 0x0a]"

definition trojan_passwords :: "(string \<Rightarrow> string) \<Rightarrow> IngressVO \<Rightarrow> string list result" where
  "trojan_passwords sha224 vo =
     rbind (deref (in_credential vo)) (\<lambda>c.
     rbind (get_IC_Trojan c) (\<lambda>pwds. Inr (map sha224 pwds)))"

definition trojan_remote :: "IngressVO \<Rightarrow> Endpoint result" where
  "trojan_remote vo =
     rbind (deref (in_opt vo)) (\<lambda>opt.
     rbind (get_IO_Trojan opt) (\<lambda>t. Inr (tj_remote t)))"

definition on_underlying :: "('s, 'a) io \<Rightarrow> ('s trojan, 'a) io" where
  "on_underlying f s = (case f (tj_underlying s) of (r, u) \<Rightarrow> (r, s\<lparr>tj_underlying := u\<rparr>))"

text \<open>The function \<^verbatim>\<open>read_remote\<close> gives to the endpoint parser.\<close>

definition trojan_demand :: "'s layer \<Rightarrow> nat \<Rightarrow> ('s trojan, bytes) io" where
  "trojan_demand ly n = iobind (cache_read_from ly n) (\<lambda>_. cache_take_buffer n)"

definition trojan_try_read :: "ip_lib \<Rightarrow> 's layer \<Rightarrow> string list \<Rightarrow> ('s trojan, Endpoint) io" where
  "trojan_try_read ip ly pwds =
     iobind (on_underlying (ly_accept ly)) (\<lambda>_.
     iobind (cache_read_from ly 1) (\<lambda>_.
     iobind (\<lambda>s. (assertTrue (PWD_LEN + 2 \<le> cache_size (tj_cache s)) BAD_PROTO '''', s)) (\<lambda>_.
     iobind (cache_take PWD_LEN) (\<lambda>pwd.
     iobind (ioret (assertTrue (string_of pwd \<in> set pwds) UNAUTHENTICATED '''')) (\<lambda>_.
     iobind (cache_take 2) (\<lambda>crlf.
     iobind (ioret (assertTrue (crlf = CRLF) BAD_PROTO '''')) (\<lambda>_.
     iobind (cache_read_from ly 1) (\<lambda>_.
     iobind (cache_take 1) (\<lambda>cmd.
     iobind (ioret (assertTrue (cmd = [0x01]) BAD_PROTO '''')) (\<lambda>_.
     iobind (parse_endpoint ip (trojan_demand ly)) (\<lambda>remote.
     iobind (cache_read_from ly 2) (\<lambda>_.
     iobind (cache_take 2) (\<lambda>crlf.
     iobind (ioret (assertTrue (crlf = CRLF) BAD_PROTO '''')) (\<lambda>_ s.
     (Inr remote, cache_clear s)))))))))))))))"

text \<open>
  The handler of \<^verbatim>\<open>read_remote\<close>: over TLS (and the socket of the tests) every exception turns into the
  decoy; over a WebSocket it goes on. \<open>decoy\<close> says which layer it is.
\<close>

definition trojan_read_remote ::
  "ip_lib \<Rightarrow> 's layer \<Rightarrow> bool \<Rightarrow> string list \<Rightarrow> Endpoint \<Rightarrow> ('s trojan, Endpoint) io" where
  "trojan_read_remote ip ly decoy pwds decoy_server s =
     (case trojan_try_read ip ly pwds s of
        (Inr remote, s') \<Rightarrow> (Inr remote, s')
      | (Inl UB, s') \<Rightarrow> (Inl UB, s')
      | (Inl Diverges, s') \<Rightarrow> (Inl Diverges, s')
      | (Inl Terminated, s') \<Rightarrow> (Inl Terminated, s')
      | (Inl e, s') \<Rightarrow> if decoy then (Inr decoy_server, cache_rollback s') else (Inl e, s'))"

definition trojan_ingress_recv :: "'s layer \<Rightarrow> nat \<Rightarrow> ('s trojan, bytes) io" where
  "trojan_ingress_recv ly n s =
     (if cache_size (tj_cache s) = 0 then on_underlying (ly_read_some ly n) s
      else cache_take_buffer n s)"

definition trojan_ingress_send :: "'s layer \<Rightarrow> bytes \<Rightarrow> ('s trojan, unit) io" where
  "trojan_ingress_send ly bs = on_underlying (ly_write ly bs)"

definition trojan_ingress_close :: "'s layer \<Rightarrow> ('s trojan, unit) io" where
  "trojan_ingress_close ly =
     iobind (on_underlying (redirect_void (ly_close ly))) (\<lambda>_. ioret (Inr ()))"

definition trojan_confirm :: "('s trojan, unit) io" where
  "trojan_confirm = ioret (Inr ())"

definition trojan_disconnect :: "error_code \<Rightarrow> ('s trojan, unit) io" where
  "trojan_disconnect ec = ioret (Inr ())"

section \<open>The egress\<close>

definition trojan_egress_credential :: "(string \<Rightarrow> string) \<Rightarrow> EgressVO \<Rightarrow> string result" where
  "trojan_egress_credential sha224 vo =
     rbind (deref (eg_credential vo)) (\<lambda>c.
     rbind (get_EC_Trojan c) (\<lambda>pwd. Inr (sha224 pwd)))"

text \<open>The array of \<^verbatim>\<open>connect\<close> has 512 bytes: a hash too long for it would be written past its end.\<close>

definition trojan_connect :: "ip_lib \<Rightarrow> 's layer \<Rightarrow> string \<Rightarrow> Endpoint \<Rightarrow> Endpoint \<Rightarrow> ('s, unit) io" where
  "trojan_connect ip ly cred peer remote =
     iobind (ly_connect ly peer) (\<lambda>_.
     if 512 < length cred + 3 + 259 then ioret (Inl UB)
     else iobind (ioret (serializeEndpoint ip remote (replicate 259 0))) (\<lambda>(n, buf).
          if 512 < length cred + 3 + n + 2 then ioret (Inl UB)
          else ly_write ly (bytes_of cred @ CRLF @ [0x01] @ take n buf @ CRLF)))"

definition trojan_egress_recv :: "'s layer \<Rightarrow> nat \<Rightarrow> ('s, bytes) io" where
  "trojan_egress_recv ly n = ly_read_some ly n"

definition trojan_egress_send :: "'s layer \<Rightarrow> bytes \<Rightarrow> ('s, unit) io" where
  "trojan_egress_send ly bs = ly_write ly bs"

definition trojan_egress_close :: "'s layer \<Rightarrow> ('s, unit) io" where
  "trojan_egress_close ly = iobind (redirect_void (ly_close ly)) (\<lambda>_. ioret (Inr ()))"

section \<open>What the cache holds\<close>

definition ch_view :: "cache \<Rightarrow> bytes" where
  "ch_view c = drop (ch_taken c) (ch_data c)"

definition cache_ok :: "cache \<Rightarrow> bool" where
  "cache_ok c \<longleftrightarrow> ch_in c \<le> ch_out c \<and> ch_out c \<le> length (ch_mem c) \<and>
     ch_taken c \<le> ch_out c - ch_in c"

text \<open>What the ingress will still hand on: the cached bytes, in front of the layer.\<close>

definition tj_pending :: "'s trojan \<Rightarrow> bytes" where
  "tj_pending s = ch_view (tj_cache s)"

lemma length_ch_view: "cache_ok c \<Longrightarrow> length (ch_view c) = cache_size c"
  by (auto simp: cache_ok_def ch_view_def ch_data_def cache_size_def)

lemma cache_read_from_enough:
  "n \<le> cache_size (tj_cache s) \<Longrightarrow> cache_read_from ly n s = (Inr (), s)"
  by (simp add: cache_read_from_def cache_read_loop.simps)

lemma cache_take_ok:
  assumes "cache_ok (tj_cache s)" and "n \<le> length (tj_pending s)"
  shows "\<exists>s'. cache_take n s = (Inr (take n (tj_pending s)), s') \<and> tj_pending s' = drop n (tj_pending s) \<and>
    ch_data (tj_cache s') = ch_data (tj_cache s) \<and>
    tj_underlying s' = tj_underlying s \<and> cache_ok (tj_cache s') \<and> ch_taken (tj_cache s') = ch_taken (tj_cache s) + n"
  using assms length_ch_view [OF assms(1)]
  by (auto simp: cache_take_def tj_pending_def ch_view_def ch_data_def cache_ok_def cache_size_def drop_drop
      add.commute)

lemma consume_data: "ch_data (cache_consume k c) = drop k (ch_data c)"
  by (cases "k \<le> ch_out c - ch_in c")
     (auto simp: ch_data_def cache_consume_def drop_take ac_simps)

lemma consume_ok: "cache_ok c \<Longrightarrow> ch_taken c = 0 \<Longrightarrow> cache_ok (cache_consume k c)"
  by (auto simp: cache_ok_def cache_consume_def)

lemma take_buffer_ok:
  assumes "cache_ok (tj_cache s)"
  shows "\<exists>s'. cache_take_buffer n s = (Inr (take n (tj_pending s)), s') \<and>
    tj_pending s' = drop n (tj_pending s) \<and> tj_underlying s' = tj_underlying s \<and> cache_ok (tj_cache s') \<and>
    (0 < ch_taken (tj_cache s) \<longrightarrow>
      0 < ch_taken (tj_cache s') \<and> ch_data (tj_cache s') = ch_data (tj_cache s))"
proof -
  let ?c = "tj_cache s" and ?v = "tj_pending s"
  let ?k = "min (cache_size ?c) n"
  have k: "take ?k ?v = take n ?v" "drop ?k ?v = drop n ?v"
    using length_ch_view [OF assms] by (auto simp: tj_pending_def min_def)
  have t: "cache_take_buffer n s = (Inr (take ?k ?v), s\<lparr>tj_cache :=
      (if ch_taken ?c = 0 then cache_consume ?k ?c else ?c\<lparr>ch_taken := ch_taken ?c + ?k\<rparr>)\<rparr>)"
    by (simp add: cache_take_buffer_def Let_def tj_pending_def ch_view_def)
  show ?thesis
  proof (cases "ch_taken ?c = 0")
    case True
    then have "ch_view (cache_consume ?k ?c) = drop ?k ?v"
      using consume_data [of ?k ?c] by (simp add: ch_view_def cache_consume_def tj_pending_def)
    then show ?thesis using t k True consume_ok [OF assms] by (simp add: tj_pending_def)
  next
    case False
    let ?c' = "?c\<lparr>ch_taken := ch_taken ?c + ?k\<rparr>"
    have "ch_view ?c' = drop ?k ?v" by (simp add: ch_view_def ch_data_def tj_pending_def ac_simps)
    moreover have "cache_ok ?c'" using assms by (auto simp: cache_ok_def cache_size_def)
    moreover have "ch_data ?c' = ch_data ?c" by (simp add: ch_data_def)
    ultimately show ?thesis using t k False by (simp add: tj_pending_def)
  qed
qed

text \<open>The endpoint parser reads from the cache as long as it holds enough.\<close>

interpretation cached: byte_source "trojan_demand ly" tj_pending
    "\<lambda>s. (tj_underlying s, ch_data (tj_cache s))"
    "\<lambda>s. cache_ok (tj_cache s) \<and> 0 < ch_taken (tj_cache s)" for ly :: "'s layer"
proof
  fix s :: "'s trojan" and n
  assume s: "cache_ok (tj_cache s) \<and> 0 < ch_taken (tj_cache s)" and n: "n \<le> length (tj_pending s)"
  then have "n \<le> cache_size (tj_cache s)" using length_ch_view by (simp add: tj_pending_def)
  then have "trojan_demand ly n s = cache_take_buffer n s"
    by (simp add: trojan_demand_def cache_read_from_enough)
  then show "\<exists>s'. trojan_demand ly n s = (Inr (take n (tj_pending s)), s') \<and>
      tj_pending s' = drop n (tj_pending s) \<and>
      (tj_underlying s', ch_data (tj_cache s')) = (tj_underlying s, ch_data (tj_cache s)) \<and>
      cache_ok (tj_cache s') \<and> 0 < ch_taken (tj_cache s')"
    using take_buffer_ok [of s n] s by auto
qed

text \<open>The first read fills the empty cache.\<close>

lemma first_read:
  assumes "tj_cache s = cache_new mem" and "length mem = 512"
    and "ly_read_some ly 512 (tj_underlying s) = (Inr bs, u)" and "0 < length bs" and "length bs \<le> 512"
  shows "\<exists>s'. cache_read_from ly 1 s = (Inr (), s') \<and> tj_pending s' = bs \<and> tj_underlying s' = u \<and>
    cache_ok (tj_cache s') \<and> ch_taken (tj_cache s') = 0 \<and> ch_data (tj_cache s') = bs"
proof -
  let ?c = "cache_store bs (cache_new mem)"
  have c: "ch_data ?c = bs" "cache_ok ?c" "ch_taken ?c = 0"
    using assms(2,5)
    by (auto simp: cache_store_def cache_new_def ch_data_def cache_ok_def cache_commit_def Let_def
        write_at_def overwrite_def min_def)
  then have sz: "\<not> cache_size ?c < 1" using length_ch_view [OF c(2)] assms(4) by (simp add: ch_view_def)
  have "cache_read_from ly 1 s = cache_read_loop 512 ly 1 \<lparr>tj_underlying = u, tj_cache = ?c\<rparr>"
    using assms(1,3) by (simp add: cache_read_from_def cache_read_loop.simps [of 513] cache_size_def
        cache_new_def)
  also have "\<dots> = (Inr (), \<lparr>tj_underlying = u, tj_cache = ?c\<rparr>)"
    using sz by (subst cache_read_loop.simps) simp
  finally show ?thesis using c by (auto simp: tj_pending_def ch_view_def)
qed

section \<open>The handshake\<close>

definition trojan_request :: "string \<Rightarrow> bytes \<Rightarrow> bytes" where
  "trojan_request cred eb = bytes_of cred @ CRLF @ [0x01] @ eb @ CRLF"

definition starts_valid :: "string list \<Rightarrow> bytes \<Rightarrow> bool" where
  "starts_valid pwds bs \<longleftrightarrow> PWD_LEN + 2 \<le> length bs \<and> string_of (take PWD_LEN bs) \<in> set pwds \<and>
     take 2 (drop PWD_LEN bs) = CRLF"

lemma on_underlying_Inr: "f (tj_underlying s) = (Inr x, u) \<Longrightarrow> on_underlying f s = (Inr x, s\<lparr>tj_underlying := u\<rparr>)"
  by (simp add: on_underlying_def)

text \<open>From the start of a session to the end of the first read.\<close>

lemma trojan_start:
  assumes "tj_cache s = cache_new mem" and "length mem = 512"
    and "ly_accept ly (tj_underlying s) = (Inr (), u1)"
    and "ly_read_some ly 512 u1 = (Inr bs, u2)" and "0 < length bs" and "length bs \<le> 512"
  obtains s1 where "on_underlying (ly_accept ly) s = (Inr (), s\<lparr>tj_underlying := u1\<rparr>)"
    "cache_read_from ly 1 (s\<lparr>tj_underlying := u1\<rparr>) = (Inr (), s1)" "tj_pending s1 = bs"
    "tj_underlying s1 = u2" "cache_ok (tj_cache s1)" "ch_taken (tj_cache s1) = 0" "ch_data (tj_cache s1) = bs"
    "cache_size (tj_cache s1) = length bs"
proof -
  obtain s1 where "cache_read_from ly 1 (s\<lparr>tj_underlying := u1\<rparr>) = (Inr (), s1) \<and> tj_pending s1 = bs \<and>
      tj_underlying s1 = u2 \<and> cache_ok (tj_cache s1) \<and> ch_taken (tj_cache s1) = 0 \<and> ch_data (tj_cache s1) = bs"
    using first_read [of "s\<lparr>tj_underlying := u1\<rparr>" mem ly bs u2] assms(1,2,4-6) by auto
  then show thesis
    using that [of s1] on_underlying_Inr [of "ly_accept ly", OF assms(3)] length_ch_view [of "tj_cache s1"]
    by (simp add: tj_pending_def)
qed

lemma trojan_accepts:
  assumes "tj_cache s = cache_new mem" and "length mem = 512"
    and "ly_accept ly (tj_underlying s) = (Inr (), u1)"
    and "ly_read_some ly 512 u1 = (Inr (trojan_request cred eb @ extra), u2)"
    and "length (trojan_request cred eb @ extra) \<le> 512"
    and "length cred = PWD_LEN" and "cred \<in> set pwds" and "ip_laws ip" and "endpoint_bytes ip ep = Inr eb"
  shows "\<exists>s'. trojan_try_read ip ly pwds s = (Inr (canonical ip ep), s') \<and> tj_pending s' = extra \<and>
    tj_underlying s' = u2 \<and> cache_ok (tj_cache s')"
proof -
  let ?bs = "trojan_request cred eb @ extra"
  have pos: "0 < length ?bs" by (simp add: trojan_request_def)
  obtain s1 where s1: "on_underlying (ly_accept ly) s = (Inr (), s\<lparr>tj_underlying := u1\<rparr>)"
      "cache_read_from ly 1 (s\<lparr>tj_underlying := u1\<rparr>) = (Inr (), s1)" "tj_pending s1 = ?bs"
      "tj_underlying s1 = u2" "cache_ok (tj_cache s1)" "cache_size (tj_cache s1) = length ?bs"
    by (rule trojan_start [OF assms(1-4) pos assms(5)])
  have c0: "PWD_LEN + 2 \<le> cache_size (tj_cache s1)"
    using s1(6) assms(6) by (simp add: trojan_request_def)
  obtain s2 where s2: "cache_take PWD_LEN s1 = (Inr (bytes_of cred), s2)"
      "tj_pending s2 = CRLF @ [0x01] @ eb @ CRLF @ extra" "tj_underlying s2 = u2" "cache_ok (tj_cache s2)"
    using cache_take_ok [OF s1(5), of PWD_LEN] s1(3,4) assms(6) by (auto simp: trojan_request_def)
  obtain s3 where s3: "cache_take 2 s2 = (Inr CRLF, s3)" "tj_pending s3 = [0x01] @ eb @ CRLF @ extra"
      "tj_underlying s3 = u2" "cache_ok (tj_cache s3)"
    using cache_take_ok [OF s2(4), of 2] s2(2,3) by auto
  have r3: "cache_read_from ly 1 s3 = (Inr (), s3)"
    using s3(2) length_ch_view [OF s3(4)] by (intro cache_read_from_enough) (simp add: tj_pending_def)
  obtain s4 where s4: "cache_take 1 s3 = (Inr [0x01], s4)" "tj_pending s4 = eb @ CRLF @ extra"
      "tj_underlying s4 = u2" "cache_ok (tj_cache s4)" "0 < ch_taken (tj_cache s4)"
    using cache_take_ok [OF s3(4), of 1] s3(2,3) by auto
  obtain s5 where s5: "parse_endpoint ip (trojan_demand ly) s4 = (Inr (canonical ip ep), s5)"
      "tj_pending s5 = CRLF @ extra" "tj_underlying s5 = u2" "cache_ok (tj_cache s5)"
    using cached.parse_serialized [OF conjI [OF s4(4,5)] assms(8,9) s4(2), of ly] s4(3)
    by (auto simp: parse_endpoint_def)
  have r5: "cache_read_from ly 2 s5 = (Inr (), s5)"
    using s5(2) length_ch_view [OF s5(4)] by (intro cache_read_from_enough) (simp add: tj_pending_def)
  obtain s6 where s6: "cache_take 2 s5 = (Inr CRLF, s6)" "tj_pending s6 = extra"
      "tj_underlying s6 = u2" "cache_ok (tj_cache s6)"
    using cache_take_ok [OF s5(4), of 2] s5(2,3) by auto
  have "trojan_try_read ip ly pwds s = (Inr (canonical ip ep), cache_clear s6)"
    using s1(1,2) c0 s2(1) s3(1) r3 s4(1) s5(1) r5 s6(1) assms(7)
    by (simp add: trojan_try_read_def)
  moreover have "tj_pending (cache_clear s6) = extra" "tj_underlying (cache_clear s6) = u2"
    "cache_ok (tj_cache (cache_clear s6))"
    using s6(2-4) by (auto simp: cache_clear_def tj_pending_def ch_view_def ch_data_def cache_consume_def
        cache_ok_def drop_take ac_simps)
  ultimately show ?thesis by blast
qed

lemma trojan_rejects:
  assumes "tj_cache s = cache_new mem" and "length mem = 512"
    and "ly_accept ly (tj_underlying s) = (Inr (), u1)"
    and "ly_read_some ly 512 u1 = (Inr bs, u2)" and "0 < length bs" and "length bs \<le> 512"
    and "\<not> starts_valid pwds bs"
  shows "\<exists>ec msg s'. trojan_try_read ip ly pwds s = (Inl (SystemError ec msg), s') \<and>
    tj_underlying s' = u2 \<and> cache_ok (tj_cache s') \<and> ch_data (tj_cache s') = bs"
proof -
  obtain s1 where s1: "on_underlying (ly_accept ly) s = (Inr (), s\<lparr>tj_underlying := u1\<rparr>)"
      "cache_read_from ly 1 (s\<lparr>tj_underlying := u1\<rparr>) = (Inr (), s1)" "tj_pending s1 = bs"
      "tj_underlying s1 = u2" "cache_ok (tj_cache s1)" "ch_data (tj_cache s1) = bs"
      "cache_size (tj_cache s1) = length bs"
    by (rule trojan_start [OF assms(1-6)])
  show ?thesis
  proof (cases "PWD_LEN + 2 \<le> length bs")
    case False
    then show ?thesis using s1 by (simp add: trojan_try_read_def fail_with_def)
  next
    case True
    obtain s2 where s2: "cache_take PWD_LEN s1 = (Inr (take PWD_LEN bs), s2)"
        "tj_pending s2 = drop PWD_LEN bs" "tj_underlying s2 = u2" "cache_ok (tj_cache s2)"
        "ch_data (tj_cache s2) = bs"
      using cache_take_ok [OF s1(5), of PWD_LEN] s1(3,4,6) True by auto
    obtain s3 where s3: "cache_take 2 s2 = (Inr (take 2 (drop PWD_LEN bs)), s3)"
        "tj_underlying s3 = u2" "cache_ok (tj_cache s3)" "ch_data (tj_cache s3) = bs"
      using cache_take_ok [OF s2(4), of 2] s2(2,3,5) True by (auto simp: le_diff_conv2)
    show ?thesis using s1(1,2,7) s2 s3 True assms(7)
      by (cases "string_of (take PWD_LEN bs) \<in> set pwds")
         (auto simp: trojan_try_read_def starts_valid_def fail_with_def)
  qed
qed

section \<open>What is handed on\<close>

lemma read_some_conserves:
  "sk_ok u \<Longrightarrow> read_some n u = (Inr bs, u') \<Longrightarrow> sk_content u = bs @ sk_content u' \<and> sk_ok u'"
  by (auto simp: read_some_def Let_def sk_ok_def sk_content_def split: if_splits list.splits)

lemma recv_conserves:
  assumes "sk_ok (tj_underlying s)" and "cache_ok (tj_cache s)"
    and "trojan_ingress_recv socket_layer n s = (Inr bs, s')"
  shows "tj_pending s @ sk_content (tj_underlying s) = bs @ tj_pending s' @ sk_content (tj_underlying s') \<and>
    sk_ok (tj_underlying s') \<and> cache_ok (tj_cache s')"
proof (cases "cache_size (tj_cache s) = 0")
  case True
  then have "tj_pending s = []" using length_ch_view [OF assms(2)] by (simp add: tj_pending_def)
  moreover obtain u where u: "read_some n (tj_underlying s) = (Inr bs, u)" "s' = s\<lparr>tj_underlying := u\<rparr>"
    using assms(3) True by (auto simp: trojan_ingress_recv_def on_underlying_def socket_layer_def
        split: prod.splits)
  ultimately show ?thesis
    using read_some_conserves [OF assms(1) u(1)] assms(2) by (simp add: tj_pending_def)
next
  case False
  then have "cache_take_buffer n s = (Inr bs, s')" using assms(3) by (simp add: trojan_ingress_recv_def)
  then show ?thesis using take_buffer_ok [OF assms(2), of n] assms(1) by auto
qed

lemma trojan_recvs:
  assumes "sk_ok (tj_underlying s)" and "cache_ok (tj_cache s)"
    and "recvs (trojan_ingress_recv socket_layer) ns s = (Inr bs, s')"
  shows "tj_pending s @ sk_content (tj_underlying s) = bs @ tj_pending s' @ sk_content (tj_underlying s')"
  using recvs_conserve [where I = "\<lambda>s. sk_ok (tj_underlying s) \<and> cache_ok (tj_cache s)"
      and pending = "\<lambda>s. tj_pending s @ sk_content (tj_underlying s)", OF _ _ assms(3)]
    recv_conserves assms(1,2) by blast

lemma socket_first_read:
  assumes "sk_ok u" and "sk_rBufs u = c # cs"
  shows "ly_accept socket_layer u = (Inr (), u)"
    and "\<exists>u'. ly_read_some socket_layer 512 u = (Inr (take 512 c), u') \<and>
      sk_content u = take 512 c @ sk_content u' \<and> sk_ok u' \<and> sk_wBuf u' = sk_wBuf u"
    and "0 < length (take 512 c)"
proof -
  show "ly_accept socket_layer u = (Inr (), u)" by (simp add: socket_layer_def)
  have "c \<noteq> []" using assms by (auto simp: sk_ok_def)
  then show "0 < length (take 512 c)" by simp
  have "read_some 512 u = (Inr (take 512 c),
      u\<lparr>sk_rBufs := (if drop 512 c = [] then cs else drop 512 c # cs)\<rparr>)"
    using assms \<open>c \<noteq> []\<close> by (auto simp: read_some_def Let_def min_def sk_ok_def)
  then show "\<exists>u'. ly_read_some socket_layer 512 u = (Inr (take 512 c), u') \<and>
      sk_content u = take 512 c @ sk_content u' \<and> sk_ok u' \<and> sk_wBuf u' = sk_wBuf u"
    using read_some_conserves [OF assms(1)] by (auto simp: socket_layer_def)
qed

section \<open>Properties\<close>

text \<open>
  C23: The request a Trojan egress sends is understood by an ingress with the same password, when the
  first read delivers it as a whole: the ingress learns the endpoint, and everything the client
  sent behind the request is handed on, whatever the sizes of the buffers.
\<close>

theorem trojan_interoperates:
  assumes "ip_laws ip" and "serializeEndpoint ip remote (replicate 259 0) = Inr (n, buf)"
    and "trojan_egress_credential sha224 evo = Inr cred" and "trojan_passwords sha224 ivo = Inr pwds"
    and "cred \<in> set pwds" and "length cred = PWD_LEN"
  shows "\<exists>request. length request \<le> 320 \<and>
    (\<forall>c. sk_ok c \<longrightarrow> (\<exists>c'. trojan_connect ip socket_layer cred peer remote c = (Inr (), c') \<and>
        sk_wBuf c' = sk_wBuf c @ request)) \<and>
    (\<forall>s extra cs mem. sk_ok s \<longrightarrow> sk_rBufs s = (request @ extra) # cs \<longrightarrow> length (request @ extra) \<le> 512 \<longrightarrow>
        length mem = 512 \<longrightarrow>
      (\<exists>t. trojan_read_remote ip socket_layer decoy pwds decoy_server
          \<lparr>tj_underlying = s, tj_cache = cache_new mem\<rparr> = (Inr (canonical ip remote), t) \<and>
        (\<forall>ns bs t'. recvs (trojan_ingress_recv socket_layer) ns t = (Inr bs, t') \<longrightarrow>
          extra @ concat cs = bs @ tj_pending t' @ sk_content (tj_underlying t'))))"
proof (rule exI [of _ "trojan_request cred (take n buf)"], intro conjI allI impI)
  note eb = serialized_prefix [OF assms(1,2)]
  then show len: "length (trojan_request cred (take n buf)) \<le> 320"
    using assms(6) by (simp add: trojan_request_def)
  show "\<exists>c'. trojan_connect ip socket_layer cred peer remote c = (Inr (), c') \<and>
      sk_wBuf c' = sk_wBuf c @ trojan_request cred (take n buf)" if c: "sk_ok c" for c
  proof -
    obtain c1 where c1: "ly_connect socket_layer peer c = (Inr (), c1)" "sk_wBuf c1 = sk_wBuf c" "sk_ok c1"
      using sk.connect_ok [OF c] by blast
    then show ?thesis
      using sk.write_ok [OF c1(3), of "trojan_request cred (take n buf)"] assms(2,6) eb(3)
      by (auto simp: trojan_connect_def trojan_request_def)
  qed
  fix s extra cs and mem :: bytes
  assume s: "sk_ok s" "sk_rBufs s = (trojan_request cred (take n buf) @ extra) # cs"
    and l: "length (trojan_request cred (take n buf) @ extra) \<le> 512" and m: "length mem = 512"
  let ?s = "\<lparr>tj_underlying = s, tj_cache = cache_new mem\<rparr>"
  obtain u' where u': "ly_read_some socket_layer 512 s = (Inr (trojan_request cred (take n buf) @ extra), u')"
      "sk_content s = (trojan_request cred (take n buf) @ extra) @ sk_content u'" "sk_ok u'"
    using socket_first_read(2) [OF s] l by auto
  have "ly_accept socket_layer (tj_underlying ?s) = (Inr (), s)" using socket_first_read(1) [OF s] by simp
  from trojan_accepts [OF _ m this u'(1) l assms(6,5,1) eb(1)]
  obtain t where t: "trojan_try_read ip socket_layer pwds ?s = (Inr (canonical ip remote), t)"
      "tj_pending t = extra" "tj_underlying t = u'" "cache_ok (tj_cache t)" by auto
  have "sk_content u' = concat cs" using u'(2) s(2) by (simp add: sk_content_def)
  then show "\<exists>t. trojan_read_remote ip socket_layer decoy pwds decoy_server ?s = (Inr (canonical ip remote), t) \<and>
      (\<forall>ns bs t'. recvs (trojan_ingress_recv socket_layer) ns t = (Inr bs, t') \<longrightarrow>
        extra @ concat cs = bs @ tj_pending t' @ sk_content (tj_underlying t'))"
    using t u'(3) trojan_recvs [of t] by (auto simp: trojan_read_remote_def)
qed

definition sample_hash :: "string \<Rightarrow> string" where
  "sample_hash pwd = take PWD_LEN (pwd @ replicate PWD_LEN CHR ''0'')"

definition sample_trojan_egress :: EgressVO where
  "sample_trojan_egress = (empty_egress TROJAN)\<lparr>eg_credential := Some (EC_Trojan ''secret'')\<rparr>"

definition sample_trojan_ingress :: IngressVO where
  "sample_trojan_ingress = (empty_ingress TROJAN [])\<lparr>in_credential := Some (IC_Trojan [''other'', ''secret''])\<rparr>"

lemma sample_remote_serialized:
  "259 \<le> k \<Longrightarrow> \<exists>n buf. serializeEndpoint sample_ip sample_remote (replicate k 0) = Inr (n, buf)"
  by (simp add: serializeEndpoint_eq_bytes endpoint_bytes_def sample_remote_def)

theorem trojan_interoperates_witness:
  "\<exists>request. length request \<le> 320 \<and>
    (\<forall>c. sk_ok c \<longrightarrow> (\<exists>c'. trojan_connect sample_ip socket_layer (sample_hash ''secret'') sample_remote
        sample_remote c = (Inr (), c') \<and> sk_wBuf c' = sk_wBuf c @ request)) \<and>
    (\<forall>s extra cs mem. sk_ok s \<longrightarrow> sk_rBufs s = (request @ extra) # cs \<longrightarrow> length (request @ extra) \<le> 512 \<longrightarrow>
        length mem = 512 \<longrightarrow>
      (\<exists>t. trojan_read_remote sample_ip socket_layer True (map sample_hash [''other'', ''secret'']) sample_remote
          \<lparr>tj_underlying = s, tj_cache = cache_new mem\<rparr> = (Inr (canonical sample_ip sample_remote), t) \<and>
        (\<forall>ns bs t'. recvs (trojan_ingress_recv socket_layer) ns t = (Inr bs, t') \<longrightarrow>
          extra @ concat cs = bs @ tj_pending t' @ sk_content (tj_underlying t'))))"
proof -
  obtain n buf where s: "serializeEndpoint sample_ip sample_remote (replicate 259 0) = Inr (n, buf)"
    using sample_remote_serialized [of 259] by auto
  have e: "trojan_egress_credential sample_hash sample_trojan_egress = Inr (sample_hash ''secret'')"
    "trojan_passwords sample_hash sample_trojan_ingress = Inr (map sample_hash [''other'', ''secret''])"
    by (simp_all add: trojan_egress_credential_def sample_trojan_egress_def trojan_passwords_def
        sample_trojan_ingress_def)
  have "length (sample_hash ''secret'') = PWD_LEN" by (simp add: sample_hash_def)
  from trojan_interoperates [OF sample_ip_laws s e _ this, of sample_remote True sample_remote]
  show ?thesis by simp
qed

text \<open>
  C24: Where the ingress has a decoy (over TLS, and over the socket of the tests, which stands for the
  stream here), a client that does not open with a known password is served by the decoy, and the decoy gets
  to see exactly the bytes of that client, from the first one on; the ingress itself answers nothing. Over a WebSocket there is no decoy: \<^verbatim>\<open>read_remote\<close> throws, without having written anything
  behind what it has read.
\<close>

theorem trojan_disguise:
  assumes "sk_ok s" and "sk_rBufs s = c # cs" and "\<not> starts_valid pwds (take 512 c)" and "length mem = 512"
  shows "(\<exists>t. trojan_read_remote ip socket_layer True pwds decoy_server
      \<lparr>tj_underlying = s, tj_cache = cache_new mem\<rparr> = (Inr decoy_server, t) \<and>
    sk_wBuf (tj_underlying t) = sk_wBuf s \<and>
    (\<forall>ns bs t'. recvs (trojan_ingress_recv socket_layer) ns t = (Inr bs, t') \<longrightarrow>
      sk_content s = bs @ tj_pending t' @ sk_content (tj_underlying t'))) \<and>
   (\<forall>ly w w1 w2 bs. ly_accept ly w = (Inr (), w1) \<longrightarrow> ly_read_some ly 512 w1 = (Inr bs, w2) \<longrightarrow>
      bs \<noteq> [] \<longrightarrow> length bs \<le> 512 \<longrightarrow> \<not> starts_valid pwds bs \<longrightarrow>
      (\<exists>ec msg t. trojan_read_remote ip ly False pwds decoy_server
         \<lparr>tj_underlying = w, tj_cache = cache_new mem\<rparr> = (Inl (SystemError ec msg), t) \<and> tj_underlying t = w2))"
proof (intro conjI allI impI)
  let ?s = "\<lparr>tj_underlying = s, tj_cache = cache_new mem\<rparr>"
  obtain u' where u': "ly_read_some socket_layer 512 s = (Inr (take 512 c), u')"
      "sk_content s = take 512 c @ sk_content u'" "sk_ok u'" "sk_wBuf u' = sk_wBuf s"
    using socket_first_read(2) [OF assms(1,2)] by blast
  have "ly_accept socket_layer (tj_underlying ?s) = (Inr (), s)"
    using socket_first_read(1) [OF assms(1,2)] by simp
  from trojan_rejects [OF _ assms(4) this u'(1) socket_first_read(3) [OF assms(1,2)] _ assms(3), of ip]
  obtain ec msg t where t: "trojan_try_read ip socket_layer pwds ?s = (Inl (SystemError ec msg), t)"
      "tj_underlying t = u'" "cache_ok (tj_cache t)" "ch_data (tj_cache t) = take 512 c" by auto
  let ?t = "cache_rollback t"
  have "tj_pending ?t = take 512 c" "tj_underlying ?t = u'" "cache_ok (tj_cache ?t)"
    using t(2-4) by (auto simp: cache_rollback_def tj_pending_def ch_view_def ch_data_def cache_ok_def)
  then show "\<exists>t. trojan_read_remote ip socket_layer True pwds decoy_server ?s = (Inr decoy_server, t) \<and>
      sk_wBuf (tj_underlying t) = sk_wBuf s \<and>
      (\<forall>ns bs t'. recvs (trojan_ingress_recv socket_layer) ns t = (Inr bs, t') \<longrightarrow>
        sk_content s = bs @ tj_pending t' @ sk_content (tj_underlying t'))"
    using t(1) u'(2-4) trojan_recvs [of ?t] by (auto simp: trojan_read_remote_def)
next
  fix ly :: "'b layer" and w w1 w2 :: 'b and bs
  assume "ly_accept ly w = (Inr (), w1)" and "ly_read_some ly 512 w1 = (Inr bs, w2)"
    and "bs \<noteq> []" and "length bs \<le> 512" and "\<not> starts_valid pwds bs"
  then obtain ec msg t where "trojan_try_read ip ly pwds \<lparr>tj_underlying = w, tj_cache = cache_new mem\<rparr> =
      (Inl (SystemError ec msg), t)" "tj_underlying t = w2"
    using trojan_rejects [of "\<lparr>tj_underlying = w, tj_cache = cache_new mem\<rparr>" mem ly w1 bs w2 pwds ip] assms(4) by auto
  then show "\<exists>ec msg t. trojan_read_remote ip ly False pwds decoy_server
      \<lparr>tj_underlying = w, tj_cache = cache_new mem\<rparr> = (Inl (SystemError ec msg), t) \<and> tj_underlying t = w2"
    by (simp add: trojan_read_remote_def)
qed

theorem trojan_disguise_witness:
  "let s = \<lparr>sk_rBufs = [[71, 69, 84], [32, 47]], sk_wBuf = [], sk_end = Asio_code asio_eof, sk_open = True\<rparr> in
   (\<exists>t. trojan_read_remote sample_ip socket_layer True [sample_hash ''secret''] sample_remote
      \<lparr>tj_underlying = s, tj_cache = cache_new (replicate 512 0)\<rparr> = (Inr sample_remote, t) \<and>
    sk_wBuf (tj_underlying t) = sk_wBuf s \<and>
    (\<forall>ns bs t'. recvs (trojan_ingress_recv socket_layer) ns t = (Inr bs, t') \<longrightarrow>
      sk_content s = bs @ tj_pending t' @ sk_content (tj_underlying t'))) \<and>
   (\<exists>ec msg t. trojan_read_remote sample_ip socket_layer False [sample_hash ''secret''] sample_remote
      \<lparr>tj_underlying = s, tj_cache = cache_new (replicate 512 0)\<rparr> = (Inl (SystemError ec msg), t) \<and>
    tj_underlying t = s\<lparr>sk_rBufs := [[32, 47]]\<rparr>)"
proof -
  let ?s = "\<lparr>sk_rBufs = [[71, 69, 84], [32, 47]], sk_wBuf = [], sk_end = Asio_code asio_eof, sk_open = True\<rparr>"
  have bad: "\<not> starts_valid [sample_hash ''secret''] [71, 69, 84]" by (simp add: starts_valid_def)
  have io: "ly_accept socket_layer ?s = (Inr (), ?s)"
    "ly_read_some socket_layer 512 ?s = (Inr [71, 69, 84], ?s\<lparr>sk_rBufs := [[32, 47]]\<rparr>)"
    by (simp_all add: socket_layer_def read_some_def Let_def)
  have ok: "sk_ok ?s" "sk_rBufs ?s = [71, 69, 84] # [[32, 47]]"
    "\<not> starts_valid [sample_hash ''secret''] (take 512 [71, 69, 84])" "length (replicate 512 (0 :: byte)) = 512"
    using bad by (simp_all add: sk_ok_def)
  note disguise = trojan_disguise [OF ok, of sample_ip sample_remote]
  show ?thesis unfolding Let_def
    by (rule conjI [OF disguise [THEN conjunct1] disguise [THEN conjunct2, rule_format, OF io _ _ bad]]) simp_all
qed

text \<open>
  A valid request that is accepted when one read delivers it is not understood when three reads
  do: \<^verbatim>\<open>available_\<close> is advanced by all that the cache holds instead of what was read last, so that
  the third piece is stored behind a gap, and the client is sent to the decoy.
\<close>

theorem trojan_split_request_lost:
  "let cred = replicate PWD_LEN CHR ''a''; request = trojan_request cred [3, 1, 120, 0, 80];
       whole = \<lparr>sk_rBufs = [request], sk_wBuf = [], sk_end = Asio_code asio_eof, sk_open = True\<rparr>;
       split = whole\<lparr>sk_rBufs := [take 58 request, [0x01], drop 59 request]\<rparr>;
       remote = \<lparr>ep_type = DOMAIN_NAME, ep_host = ''x'', ep_port = 80\<rparr>
   in sk_content split = sk_content whole \<and>
      fst (trojan_read_remote sample_ip socket_layer True [cred] sample_remote
        \<lparr>tj_underlying = whole, tj_cache = cache_new (replicate 512 0)\<rparr>) = Inr remote \<and>
      fst (trojan_read_remote sample_ip socket_layer True [cred] sample_remote
        \<lparr>tj_underlying = split, tj_cache = cache_new (replicate 512 0)\<rparr>) = Inr sample_remote"
  by code_simp

end
