(* ===== verification/Pichi_Sentry.thy ===== *)
theory Pichi_Sentry
  imports Pichi_Base
begin

text \<open>
  The replay protection of Shadowsocks (\<^verbatim>\<open>include/pichi/service/sentry.hpp\<close>, \<^verbatim>\<open>src/service/sentry.cpp\<close>)
  and the pool of local connections (\<^verbatim>\<open>src/service/clients.cpp\<close>). Their operations run on a strand, one
  after the other; what stands after \<^verbatim>\<open>switch_to(*strand_)\<close> is one step. Insertions into the pool and
  removals from it are only posted: the caller goes on, and the strand runs what was posted in that order, some time
  later.

  The sentry keeps two generations of salts. The timer moves the active generation to the
  expiring one: \<^verbatim>\<open>expiring_ = std::move(active_)\<close>. The standard leaves open what a moved-from set
  holds, so that is a parameter (\<open>left\<close>); what is proved holds for every choice, or names the one
  it needs. \<^verbatim>\<open>Botan::hex_encode\<close> is a parameter too.
\<close>

section \<open>Salts\<close>

record sentry =
  sy_strand :: bool
  sy_expiring :: "string set"
  sy_active :: "string set"

definition sentry_new :: sentry where
  "sentry_new = \<lparr>sy_strand = False, sy_expiring = {}, sy_active = {}\<rparr>"

definition sentry_initialize :: "sentry \<Rightarrow> sentry" where
  "sentry_initialize s = s\<lparr>sy_strand := True\<rparr>"

definition sentry_cancel :: "sentry \<Rightarrow> sentry" where
  "sentry_cancel s = s\<lparr>sy_strand := False\<rparr>"

definition sentry_rotate :: "(string set \<Rightarrow> string set) \<Rightarrow> (sentry, unit) io" where
  "sentry_rotate left s =
     (if \<not> sy_strand s then (Inl UB, s)
      else (Inr (), s\<lparr>sy_expiring := sy_active s, sy_active := left (sy_active s)\<rparr>))"

definition sentry_contains :: "(bytes \<Rightarrow> string) \<Rightarrow> bytes \<Rightarrow> (sentry, bool) io" where
  "sentry_contains hex salt s =
     (if \<not> sy_strand s then (Inl UB, s)
      else (let k = hex salt; inserted = (k \<notin> sy_active s)
            in (Inr (\<not> inserted \<or> k \<in> sy_expiring s),
                s\<lparr>sy_active := insert k (sy_active s)\<rparr>)))"

definition sentry_reset :: "(sentry, unit) io" where
  "sentry_reset s =
     (if \<not> sy_strand s then (Inl UB, s) else (Inr (), s\<lparr>sy_expiring := {}, sy_active := {}\<rparr>))"

section \<open>Connections\<close>

datatype 'e client_op = Emplace 'e | Erase 'e

record 'e clients =
  tc_strand :: bool
  tc_pool :: "'e set"
  tc_posted :: "'e client_op list"

definition clients_new :: "'e clients" where
  "clients_new = \<lparr>tc_strand = False, tc_pool = {}, tc_posted = []\<rparr>"

definition clients_initialize :: "'e clients \<Rightarrow> 'e clients" where
  "clients_initialize s = s\<lparr>tc_strand := True\<rparr>"

text \<open>The two functions that are posted, and the strand running the first one or all that wait.\<close>

fun client_op_run :: "'e client_op \<Rightarrow> 'e set \<Rightarrow> 'e set" where
  "client_op_run (Emplace e) pool = insert e pool"
| "client_op_run (Erase e) pool = pool - {e}"

definition clients_post :: "'e client_op \<Rightarrow> 'e clients \<Rightarrow> 'e clients" where
  "clients_post p s = s\<lparr>tc_posted := tc_posted s @ [p]\<rparr>"

definition clients_run_one :: "'e clients \<Rightarrow> 'e clients" where
  "clients_run_one s =
     (case tc_posted s of [] \<Rightarrow> s | p # ps \<Rightarrow> s\<lparr>tc_pool := client_op_run p (tc_pool s), tc_posted := ps\<rparr>)"

definition clients_run_all :: "'e clients \<Rightarrow> 'e clients" where
  "clients_run_all s = s\<lparr>tc_pool := fold client_op_run (tc_posted s) (tc_pool s), tc_posted := []\<rparr>"

definition clients_insert :: "'e \<Rightarrow> ('e clients, unit) io" where
  "clients_insert e s = (if \<not> tc_strand s then (Inl UB, s) else (Inr (), clients_post (Emplace e) s))"

definition clients_remove :: "'e \<Rightarrow> ('e clients, unit) io" where
  "clients_remove e s = (if \<not> tc_strand s then (Inl UB, s) else (Inr (), clients_post (Erase e) s))"

text \<open>\<^verbatim>\<open>contains\<close> posts itself and looks when its turn has come, behind all that was posted before it.\<close>

definition clients_contains :: "'e \<Rightarrow> ('e clients, bool) io" where
  "clients_contains e s =
     (if \<not> tc_strand s then (Inl UB, s)
      else (let s' = clients_run_all s in (Inr (e \<in> tc_pool s'), s')))"

definition clients_shutdown :: "'e clients \<Rightarrow> 'e clients" where
  "clients_shutdown s = s\<lparr>tc_pool := {}, tc_strand := False\<rparr>"

text \<open>
  What happens to the pool between two operations of one connection: others post, and the strand runs what waits. What the
  pool answers depends on what was posted only, not on how much of it has run.
\<close>

datatype 'e pool_event = Posted "'e client_op" | Strand_runs

fun clients_event :: "'e pool_event \<Rightarrow> 'e clients \<Rightarrow> 'e clients" where
  "clients_event (Posted p) s = clients_post p s"
| "clients_event Strand_runs s = clients_run_one s"

definition tc_known :: "'e clients \<Rightarrow> 'e set" where
  "tc_known s = fold client_op_run (tc_posted s) (tc_pool s)"

lemma tc_known_simps [simp]:
  "tc_known (clients_post p s) = client_op_run p (tc_known s)"
  "tc_known (clients_run_one s) = tc_known s" "tc_known (clients_run_all s) = tc_known s"
  by (auto simp: tc_known_def clients_post_def clients_run_one_def clients_run_all_def split: list.splits)

lemma tc_strand_simps [simp]:
  "tc_strand (clients_post p s) = tc_strand s" "tc_strand (clients_run_one s) = tc_strand s"
  "tc_strand (clients_event v s) = tc_strand s"
  by (cases v; auto simp: clients_post_def clients_run_one_def split: list.splits)+

lemma tc_strand_events [simp]: "tc_strand (fold clients_event vs s) = tc_strand s"
  by (induction vs arbitrary: s) simp_all

lemma clients_contains_known: "tc_strand s \<Longrightarrow> fst (clients_contains e s) = Inr (e \<in> tc_known s)"
  by (simp add: clients_contains_def clients_run_all_def tc_known_def Let_def)

lemma clients_event_known:
  "e \<in> tc_known s \<Longrightarrow> Posted (Erase e) \<noteq> v \<Longrightarrow> e \<in> tc_known (clients_event v s)"
  "e \<notin> tc_known s \<Longrightarrow> Posted (Emplace e) \<noteq> v \<Longrightarrow> e \<notin> tc_known (clients_event v s)"
  by (cases v; cases "(case v of Posted p \<Rightarrow> p | Strand_runs \<Rightarrow> Erase e)"; auto)+

lemma clients_events_known:
  "e \<in> tc_known s \<Longrightarrow> Posted (Erase e) \<notin> set vs \<Longrightarrow> e \<in> tc_known (fold clients_event vs s)"
  "e \<notin> tc_known s \<Longrightarrow> Posted (Emplace e) \<notin> set vs \<Longrightarrow> e \<notin> tc_known (fold clients_event vs s)"
  by (induction vs arbitrary: s) (simp_all add: clients_event_known)

section \<open>Schedules\<close>

datatype sentry_op = Check bytes | Rotate

fun sentry_step ::
  "(bytes \<Rightarrow> string) \<Rightarrow> (string set \<Rightarrow> string set) \<Rightarrow> sentry_op \<Rightarrow> sentry \<Rightarrow> sentry" where
  "sentry_step hex left (Check salt) s = snd (sentry_contains hex salt s)"
| "sentry_step hex left Rotate s = snd (sentry_rotate left s)"

definition sentry_run ::
  "(bytes \<Rightarrow> string) \<Rightarrow> (string set \<Rightarrow> string set) \<Rightarrow> sentry_op list \<Rightarrow> sentry \<Rightarrow> sentry" where
  "sentry_run hex left ops s = fold (sentry_step hex left) ops s"

lemma sentry_step_strand [simp]: "sy_strand (sentry_step hex left op s) = sy_strand s"
  by (cases op) (simp_all add: sentry_contains_def sentry_rotate_def Let_def)

lemma sentry_run_strand [simp]: "sy_strand (sentry_run hex left ops s) = sy_strand s"
  unfolding sentry_run_def by (induction ops arbitrary: s) simp_all

lemma sentry_run_Cons [simp]:
  "sentry_run hex left [] s = s"
  "sentry_run hex left (op # ops) s = sentry_run hex left ops (sentry_step hex left op s)"
  by (simp_all add: sentry_run_def)

lemma sentry_contains_iff: "sy_strand s \<Longrightarrow>
  fst (sentry_contains hex salt s) = Inr (hex salt \<in> sy_active s \<union> sy_expiring s)"
  by (auto simp: sentry_contains_def Let_def)

lemma sentry_keeps_active:
  "sy_strand s \<Longrightarrow> k \<in> sy_active s \<Longrightarrow> Rotate \<notin> set ops \<Longrightarrow>
   k \<in> sy_active (sentry_run hex left ops s)"
proof (induction ops arbitrary: s)
  case (Cons op ops)
  then show ?case by (cases op) (auto simp: sentry_contains_def Let_def)
qed simp

lemma sentry_keeps_expiring:
  "sy_strand s \<Longrightarrow> k \<in> sy_expiring s \<Longrightarrow> Rotate \<notin> set ops \<Longrightarrow>
   k \<in> sy_expiring (sentry_run hex left ops s)"
proof (induction ops arbitrary: s)
  case (Cons op ops)
  then show ?case by (cases op) (auto simp: sentry_contains_def Let_def)
qed simp

lemma sentry_remembers:
  "sy_strand s \<Longrightarrow> k \<in> sy_active s \<Longrightarrow> count_list ops Rotate \<le> 1 \<Longrightarrow>
   k \<in> sy_active (sentry_run hex left ops s) \<union> sy_expiring (sentry_run hex left ops s)"
proof (induction ops arbitrary: s)
  case (Cons op ops)
  show ?case
  proof (cases op)
    case (Check salt)
    then show ?thesis using Cons by (auto simp: sentry_contains_def Let_def)
  next
    case Rotate
    then have "Rotate \<notin> set ops" using Cons.prems(3) by (simp add: count_list_0_iff)
    then show ?thesis
      using Cons.prems Rotate sentry_keeps_expiring [of "sentry_step hex left Rotate s" k ops]
      by (simp add: sentry_rotate_def)
  qed
qed simp

lemma sentry_seen:
  assumes "\<And>A. left A \<subseteq> A"
  shows "sy_active (sentry_run hex left ops s) \<union> sy_expiring (sentry_run hex left ops s) \<subseteq>
    sy_active s \<union> sy_expiring s \<union> {hex salt | salt. Check salt \<in> set ops}"
proof (induction ops arbitrary: s)
  case (Cons op ops)
  have "sy_active (sentry_step hex left op s) \<union> sy_expiring (sentry_step hex left op s) \<subseteq>
      sy_active s \<union> sy_expiring s \<union> {hex salt | salt. Check salt = op}"
    using assms [of "sy_active s"]
    by (cases op) (auto simp: sentry_contains_def sentry_rotate_def Let_def)
  then show ?case using Cons [of "sentry_step hex left op s"] by fastforce
qed simp

section \<open>Properties\<close>

text \<open>
  A salt that was checked is recognised for at least one full period of the timer: when the
  same salt is checked again after any number of other checks and at most one rotation, the sentry
  reports a replay, whatever a moved-from set is left with.
\<close>

theorem replay_detected:
  assumes "sy_strand s" and "count_list ops Rotate \<le> 1"
  shows "fst (sentry_contains hex salt
    (sentry_run hex left ops (snd (sentry_contains hex salt s)))) = Inr True"
proof -
  let ?s1 = "snd (sentry_contains hex salt s)"
  have "sy_strand ?s1" "hex salt \<in> sy_active ?s1"
    using assms(1) by (simp_all add: sentry_contains_def Let_def)
  then show ?thesis
    using sentry_remembers [OF _ _ assms(2)] by (simp add: sentry_contains_iff)
qed

theorem replay_detected_witness:
  "fst (sentry_contains string_of [1, 2] (sentry_run string_of (\<lambda>_. {}) [Check [3], Rotate, Check [4]]
     (snd (sentry_contains string_of [1, 2] (sentry_initialize sentry_new))))) = Inr True"
  by (rule replay_detected) (simp_all add: sentry_initialize_def)

text \<open>
  A salt that was never checked is never reported as a replay, provided the encoding is
  injective and a moved-from set holds nothing new.
\<close>

theorem fresh_salt_accepted:
  assumes "inj hex" and "\<And>A. left A \<subseteq> A" and "Check salt \<notin> set ops"
  shows "fst (sentry_contains hex salt
    (sentry_run hex left ops (sentry_initialize sentry_new))) = Inr False"
proof -
  let ?s = "sentry_run hex left ops (sentry_initialize sentry_new)"
  have "hex salt \<notin> {hex x | x. Check x \<in> set ops}" using assms(1,3) by (auto dest: injD)
  moreover have "sy_active ?s \<union> sy_expiring ?s \<subseteq> {hex x | x. Check x \<in> set ops}"
    using sentry_seen [where left = left, OF assms(2), of hex ops "sentry_initialize sentry_new"]
    by (simp add: sentry_initialize_def sentry_new_def)
  ultimately have "hex salt \<notin> sy_active ?s \<union> sy_expiring ?s" by blast
  moreover have "sy_strand ?s" by (simp add: sentry_initialize_def)
  ultimately show ?thesis by (simp add: sentry_contains_iff)
qed

theorem fresh_salt_accepted_witness:
  "fst (sentry_contains string_of [1, 2] (sentry_run string_of (\<lambda>_. {}) [Check [3], Rotate, Check [4]]
     (sentry_initialize sentry_new))) = Inr False"
proof -
  have "inj string_of" by (metis bytes_string_inverse(2) injI)
  then show ?thesis by (rule fresh_salt_accepted) simp_all
qed

end
