(* ===== verification/Pichi_Shadowsocks.thy ===== *)
theory Pichi_Shadowsocks
  imports Pichi_Stream Pichi_Sentry Pichi_Egress Pichi_Ingress
begin

text \<open>
  The Shadowsocks stream (\<^verbatim>\<open>include/pichi/stream/shadowsocks.hpp\<close>, \<^verbatim>\<open>src/stream/shadowsocks.cpp\<close>) and the
  adapter over it (\<^verbatim>\<open>include/pichi/adapter/tcp/shadowsocks.hpp\<close>): each direction opens with a salt, then
  come frames of an encrypted length and an encrypted payload.

  Botan's authenticated ciphers, MD5, HKDF and the increment of a nonce are the parameter
  \<open>crypto_lib\<close>. A cipher started with a nonce and finished seals a message into as many bytes and a tag
  of 16, or opens such a text or throws \<^verbatim>\<open>Invalid_Authentication_Tag\<close>.
\<close>

section \<open>Ciphers\<close>

record crypto_lib =
  cl_seal :: "string \<Rightarrow> bytes \<Rightarrow> bytes \<Rightarrow> bytes \<Rightarrow> bytes"
  cl_open :: "string \<Rightarrow> bytes \<Rightarrow> bytes \<Rightarrow> bytes \<Rightarrow> bytes option"
  cl_md5 :: "bytes \<Rightarrow> bytes"
  cl_hkdf :: "nat \<Rightarrow> bytes \<Rightarrow> bytes \<Rightarrow> bytes \<Rightarrow> bytes"
  cl_increment :: "bytes \<Rightarrow> bytes"

fun ALGO_MAP :: "CryptoMethod \<Rightarrow> string" where
  "ALGO_MAP AES_128_GCM = ''AES-128/GCM''"
| "ALGO_MAP AES_192_GCM = ''AES-192/GCM''"
| "ALGO_MAP AES_256_GCM = ''AES-256/GCM''"
| "ALGO_MAP CHACHA20_IETF_POLY1305 = ''ChaCha20Poly1305''"
| "ALGO_MAP XCHACHA20_IETF_POLY1305 = ''ChaCha20Poly1305''"

fun NONCE_SIZE :: "CryptoMethod \<Rightarrow> nat" where
  "NONCE_SIZE AES_128_GCM = 12"
| "NONCE_SIZE AES_192_GCM = 12"
| "NONCE_SIZE AES_256_GCM = 12"
| "NONCE_SIZE CHACHA20_IETF_POLY1305 = 12"
| "NONCE_SIZE XCHACHA20_IETF_POLY1305 = 24"

fun KEY_SIZE :: "CryptoMethod \<Rightarrow> nat" where
  "KEY_SIZE AES_128_GCM = 16"
| "KEY_SIZE AES_192_GCM = 24"
| "KEY_SIZE AES_256_GCM = 32"
| "KEY_SIZE CHACHA20_IETF_POLY1305 = 32"
| "KEY_SIZE XCHACHA20_IETF_POLY1305 = 32"

abbreviation FRAME_SIZE :: nat where "FRAME_SIZE \<equiv> 0x3fff"
abbreviation TAG_SIZE :: nat where "TAG_SIZE \<equiv> 16"

text \<open>
  The loop of \<^verbatim>\<open>generate_psk\<close>: the digests of the previous digest and the password, one after the other.
  A digest of no length would keep the loop running.
\<close>

function psk_loop :: "crypto_lib \<Rightarrow> bytes \<Rightarrow> nat \<Rightarrow> bytes \<Rightarrow> bytes \<Rightarrow> bytes result" where
  "psk_loop lib pw sz data tmp =
     (if sz \<le> length data then Inr data
      else let d = cl_md5 lib (tmp @ pw)
           in if d = [] then Inl Diverges else psk_loop lib pw sz (data @ d) d)"
  by pat_completeness auto
termination
proof (relation "measure (\<lambda>(lib, pw, sz, data, tmp). sz - length data)")
  fix lib :: crypto_lib and pw :: bytes and sz :: nat and data tmp d :: bytes
  assume "\<not> sz \<le> length data" "d \<noteq> []"
  then have "0 < length d" "length data < sz" by simp_all
  then have "sz - (length data + length d) < sz - length data" by linarith
  then show "((lib, pw, sz, data @ d, d), (lib, pw, sz, data, tmp)) \<in>
      measure (\<lambda>(lib, pw, sz, data, tmp). sz - length data)"
    by simp
qed simp

declare psk_loop.simps [simp del]

definition generate_psk :: "crypto_lib \<Rightarrow> bytes \<Rightarrow> nat \<Rightarrow> bytes result" where
  "generate_psk lib pw sz = rbind (psk_loop lib pw sz [] []) (\<lambda>data. Inr (take sz data))"

record cryptor =
  cr_method :: CryptoMethod
  cr_key :: "bytes option"
  cr_nonce :: bytes

definition cryptor_new :: "CryptoMethod \<Rightarrow> cryptor" where
  "cryptor_new m = \<lparr>cr_method = m, cr_key = None, cr_nonce = replicate (NONCE_SIZE m) 0\<rparr>"

definition cryptor_set_psk :: "crypto_lib \<Rightarrow> bytes \<Rightarrow> bytes \<Rightarrow> cryptor \<Rightarrow> cryptor result" where
  "cryptor_set_psk lib pw salt c =
     rbind (generate_psk lib pw (length salt)) (\<lambda>psk.
     Inr (c\<lparr>cr_key := Some (cl_hkdf lib (length salt) psk salt (bytes_of ''ss-subkey''))\<rparr>))"

text \<open>
  \<^verbatim>\<open>Cryptor::process\<close> in either direction. A cipher without a key throws; when the tag is wrong the nonce is
  not advanced.
\<close>

definition process_encrypt :: "crypto_lib \<Rightarrow> bytes \<Rightarrow> cryptor \<Rightarrow> (bytes \<times> cryptor) result" where
  "process_encrypt lib orig c =
     (case cr_key c of
        None \<Rightarrow> Inl BotanError
      | Some k \<Rightarrow> Inr (cl_seal lib (ALGO_MAP (cr_method c)) k (cr_nonce c) orig,
                      c\<lparr>cr_nonce := cl_increment lib (cr_nonce c)\<rparr>))"

definition process_decrypt :: "crypto_lib \<Rightarrow> bytes \<Rightarrow> cryptor \<Rightarrow> (bytes \<times> cryptor) result" where
  "process_decrypt lib orig c =
     (case cr_key c of
        None \<Rightarrow> Inl BotanError
      | Some k \<Rightarrow>
          (case cl_open lib (ALGO_MAP (cr_method c)) k (cr_nonce c) orig of
             None \<Rightarrow> Inl InvalidTag
           | Some p \<Rightarrow> Inr (p, c\<lparr>cr_nonce := cl_increment lib (cr_nonce c)\<rparr>)))"

record encryptor =
  en_cryptor :: cryptor
  en_salt :: bytes

definition encryptor_new :: "crypto_lib \<Rightarrow> CryptoMethod \<Rightarrow> bytes \<Rightarrow> bytes \<Rightarrow> encryptor result" where
  "encryptor_new lib m pw salt =
     rbind (cryptor_set_psk lib pw salt (cryptor_new m)) (\<lambda>c. Inr \<lparr>en_cryptor = c, en_salt = salt\<rparr>)"

definition encryptor_process :: "crypto_lib \<Rightarrow> bytes \<Rightarrow> encryptor \<Rightarrow> (bytes \<times> encryptor) result" where
  "encryptor_process lib plain e =
     rbind (process_encrypt lib plain (en_cryptor e)) (\<lambda>(c, cr). Inr (c, \<lparr>en_cryptor = cr, en_salt = []\<rparr>))"

record decryptor =
  de_cryptor :: cryptor
  de_salt :: bytes

definition decryptor_new :: "CryptoMethod \<Rightarrow> decryptor" where
  "decryptor_new m = \<lparr>de_cryptor = cryptor_new m, de_salt = replicate (KEY_SIZE m) 0\<rparr>"

definition decryptor_set_psk :: "crypto_lib \<Rightarrow> bytes \<Rightarrow> decryptor \<Rightarrow> decryptor result" where
  "decryptor_set_psk lib pw d =
     rbind (cryptor_set_psk lib pw (de_salt d) (de_cryptor d)) (\<lambda>c. Inr \<lparr>de_cryptor = c, de_salt = []\<rparr>)"

definition decryptor_process :: "crypto_lib \<Rightarrow> bytes \<Rightarrow> decryptor \<Rightarrow> (bytes \<times> decryptor) result" where
  "decryptor_process lib cipher d =
     rbind (process_decrypt lib cipher (de_cryptor d)) (\<lambda>(p, cr). Inr (p, d\<lparr>de_cryptor := cr\<rparr>))"

section \<open>The stream\<close>

text \<open>
  An ingress asks the sentry for its salts; its state is passed along while the stream waits for the
  answer. An egress has none.
\<close>

record 's shadow =
  sh_pw :: bytes
  sh_cache :: bytes
  sh_sentry :: "sentry option"
  sh_socket :: 's
  sh_enc :: encryptor
  sh_dec :: decryptor

text \<open>The constructors; the random salt is an argument.\<close>

definition shadow_new ::
  "crypto_lib \<Rightarrow> CryptoMethod \<Rightarrow> bytes \<Rightarrow> bytes \<Rightarrow> sentry option \<Rightarrow> 's \<Rightarrow> 's shadow result" where
  "shadow_new lib m pw salt sy s =
     rbind (encryptor_new lib m pw salt) (\<lambda>e.
     Inr \<lparr>sh_pw = pw, sh_cache = [], sh_sentry = sy, sh_socket = s, sh_enc = e, sh_dec = decryptor_new m\<rparr>)"

definition on_socket :: "('s, 'a) io \<Rightarrow> ('s shadow, 'a) io" where
  "on_socket f s = (case f (sh_socket s) of (r, u) \<Rightarrow> (r, s\<lparr>sh_socket := u\<rparr>))"

definition ask_sentry :: "(bytes \<Rightarrow> string) \<Rightarrow> bytes \<Rightarrow> ('s shadow, unit) io" where
  "ask_sentry hex salt s =
     (case sh_sentry s of
        None \<Rightarrow> (Inr (), s)
      | Some sy \<Rightarrow>
          (case sentry_contains hex salt sy of
             (Inl e, sy') \<Rightarrow> (Inl e, s\<lparr>sh_sentry := Some sy'\<rparr>)
           | (Inr dup, sy') \<Rightarrow> (assertFalse dup BAD_PROTO '''', s\<lparr>sh_sentry := Some sy'\<rparr>)))"

definition read_salt :: "crypto_lib \<Rightarrow> (bytes \<Rightarrow> string) \<Rightarrow> 's layer \<Rightarrow> ('s shadow, unit) io" where
  "read_salt lib hex ly =
     iobind (\<lambda>s. on_socket (ly_read ly (length (de_salt (sh_dec s)))) s) (\<lambda>salt.
     iobind (\<lambda>s. (Inr (), s\<lparr>sh_dec := (sh_dec s)\<lparr>de_salt := salt\<rparr>\<rparr>)) (\<lambda>_.
     iobind (ask_sentry hex salt) (\<lambda>_ s.
     (case decryptor_set_psk lib (sh_pw s) (sh_dec s) of
        Inl e \<Rightarrow> (Inl e, s)
      | Inr d \<Rightarrow> (Inr (), s\<lparr>sh_dec := d, sh_pw := []\<rparr>)))))"

definition write_salt :: "'s layer \<Rightarrow> ('s shadow, unit) io" where
  "write_salt ly s = on_socket (ly_write ly (en_salt (sh_enc s))) s"

definition read_block :: "crypto_lib \<Rightarrow> 's layer \<Rightarrow> nat \<Rightarrow> ('s shadow, bytes) io" where
  "read_block lib ly n =
     iobind (on_socket (ly_read ly (n + TAG_SIZE))) (\<lambda>cipher s.
     (case decryptor_process lib cipher (sh_dec s) of
        Inl e \<Rightarrow> (Inl e, s)
      | Inr (p, d) \<Rightarrow> (Inr p, s\<lparr>sh_dec := d\<rparr>)))"

definition cache_copy :: "nat \<Rightarrow> ('s shadow, bytes) io" where
  "cache_copy n s = (Inr (take n (sh_cache s)), s\<lparr>sh_cache := drop n (sh_cache s)\<rparr>)"

text \<open>
  \<^verbatim>\<open>do_read\<close> into a buffer of \<open>n\<close> bytes. \<^verbatim>\<open>Cache::prepare\<close> gives the caller's buffer when the payload fits, and
  otherwise commits that many bytes of its own, whose contents nobody has set (zeroes here), before
  they are read.
\<close>

definition do_read :: "crypto_lib \<Rightarrow> (bytes \<Rightarrow> string) \<Rightarrow> 's layer \<Rightarrow> nat \<Rightarrow> ('s shadow, bytes) io" where
  "do_read lib hex ly n =
     iobind (\<lambda>s. if sh_pw s \<noteq> [] then read_salt lib hex ly s else (Inr (), s)) (\<lambda>_ s.
     if sh_cache s \<noteq> [] then cache_copy n s
     else iobind (read_block lib ly 2) (\<lambda>lb.
          iobind (ioret (ntoh16 lb)) (\<lambda>l.
          let len = unat l in
          iobind (ioret (assertTrue (len \<le> FRAME_SIZE) BAD_PROTO '''')) (\<lambda>_.
          if len \<le> n then read_block lib ly len
          else iobind (\<lambda>s. (Inr (), s\<lparr>sh_cache := replicate len 0\<rparr>)) (\<lambda>_.
               iobind (read_block lib ly len) (\<lambda>block.
               iobind (\<lambda>s. (Inr (), s\<lparr>sh_cache := block\<rparr>)) (\<lambda>_.
               cache_copy n)))))) s)"

text \<open>
  \<^verbatim>\<open>do_write\<close> returns the number of bytes it has sent: of the sealed text, not of \<^verbatim>\<open>plain\<close>.
\<close>

function write_frames :: "crypto_lib \<Rightarrow> 's layer \<Rightarrow> bytes \<Rightarrow> ('s shadow, nat) io" where
  "write_frames lib ly plain s =
     (if plain = [] then (Inr 0, s)
      else let pl = min (length plain) FRAME_SIZE in
        case encryptor_process lib (hton16 (of_nat pl)) (sh_enc s) of
          Inl e \<Rightarrow> (Inl e, s)
        | Inr (c1, e1) \<Rightarrow>
            (case encryptor_process lib (take pl plain) e1 of
               Inl e \<Rightarrow> (Inl e, s\<lparr>sh_enc := e1\<rparr>)
             | Inr (c2, e2) \<Rightarrow>
                 (case on_socket (ly_write ly (c1 @ c2)) (s\<lparr>sh_enc := e2\<rparr>) of
                    (Inl e, s') \<Rightarrow> (Inl e, s')
                  | (Inr _, s') \<Rightarrow>
                      (case write_frames lib ly (drop pl plain) s' of
                         (Inl e, s'') \<Rightarrow> (Inl e, s'')
                       | (Inr ret, s'') \<Rightarrow> (Inr (length (c1 @ c2) + ret), s'')))))"
  by pat_completeness auto
termination
  by (relation "measure (\<lambda>(lib, ly, plain, s). length plain)") (auto simp: Let_def)

declare write_frames.simps [simp del]

definition do_write :: "crypto_lib \<Rightarrow> 's layer \<Rightarrow> bytes \<Rightarrow> ('s shadow, nat) io" where
  "do_write lib ly plain =
     iobind (\<lambda>s. if en_salt (sh_enc s) \<noteq> [] then write_salt ly s else (Inr (), s)) (\<lambda>_.
     write_frames lib ly plain)"

definition shadow_read_some :: "crypto_lib \<Rightarrow> (bytes \<Rightarrow> string) \<Rightarrow> 's layer \<Rightarrow> nat \<Rightarrow> ('s shadow, bytes) io" where
  "shadow_read_some lib hex ly n = completer (do_read lib hex ly n)"

definition shadow_accept :: "crypto_lib \<Rightarrow> (bytes \<Rightarrow> string) \<Rightarrow> 's layer \<Rightarrow> ('s shadow, unit) io" where
  "shadow_accept lib hex ly =
     iobind (on_socket (ly_accept ly)) (\<lambda>_. completer (read_salt lib hex ly))"

definition do_connect ::
  "crypto_lib \<Rightarrow> ip_lib \<Rightarrow> 's layer \<Rightarrow> Endpoint \<Rightarrow> Endpoint \<Rightarrow> ('s shadow, unit) io" where
  "do_connect lib ip ly proxy peer =
     iobind (on_socket (ly_connect ly proxy)) (\<lambda>_.
     iobind (ioret (serializeEndpoint ip peer (replicate FRAME_SIZE 0))) (\<lambda>(len, plain).
     iobind (do_write lib ly (take len plain)) (\<lambda>_.
     ioret (Inr ()))))"

definition shadow_connect ::
  "crypto_lib \<Rightarrow> ip_lib \<Rightarrow> 's layer \<Rightarrow> Endpoint \<Rightarrow> Endpoint \<Rightarrow> ('s shadow, unit) io" where
  "shadow_connect lib ip ly proxy peer = completer (do_connect lib ip ly proxy peer)"

definition shadow_write_some :: "crypto_lib \<Rightarrow> 's layer \<Rightarrow> bytes \<Rightarrow> ('s shadow, nat) io" where
  "shadow_write_some lib ly bs = completer (do_write lib ly bs)"

text \<open>\<^verbatim>\<open>async_shutdown\<close> of the stream does nothing; \<^verbatim>\<open>stream::close\<close> then closes the socket.\<close>

definition shadow_close :: "'s layer \<Rightarrow> ('s shadow, unit) io" where
  "shadow_close ly = on_socket (ly_close ly)"

section \<open>The adapter\<close>

text \<open>\<^verbatim>\<open>create_stream\<close> of either side; the salt is the one \<^verbatim>\<open>random_salt\<close> draws.\<close>

definition create_stream_ingress ::
  "crypto_lib \<Rightarrow> IngressVO \<Rightarrow> bytes \<Rightarrow> sentry \<Rightarrow> 's \<Rightarrow> 's shadow result" where
  "create_stream_ingress lib vo salt sy s =
     rthen (assertTrue (has_value (in_opt vo)) MISC '''')
    (rbind (deref (in_opt vo)) (\<lambda>o'. rbind (get_IO_SS o') (\<lambda>opt.
     shadow_new lib (ss_method opt) (bytes_of (ss_password opt)) salt (Some sy) s)))"

definition create_stream_egress ::
  "crypto_lib \<Rightarrow> EgressVO \<Rightarrow> bytes \<Rightarrow> 's \<Rightarrow> ('s shadow \<times> Endpoint) result" where
  "create_stream_egress lib vo salt s =
     rthen (assertTrue (has_value (eg_opt vo)) MISC '''')
    (rbind (deref (eg_opt vo)) (\<lambda>o'. rbind (get_EO_SS o') (\<lambda>opt.
     rbind (deref (eg_server vo)) (\<lambda>server.
     rbind (shadow_new lib (ss_method opt) (bytes_of (ss_password opt)) salt None s) (\<lambda>st.
     Inr (st, server))))))"

definition ss_recv :: "crypto_lib \<Rightarrow> (bytes \<Rightarrow> string) \<Rightarrow> 's layer \<Rightarrow> nat \<Rightarrow> ('s shadow, bytes) io" where
  "ss_recv lib hex ly n = shadow_read_some lib hex ly n"

definition ss_send :: "crypto_lib \<Rightarrow> 's layer \<Rightarrow> bytes \<Rightarrow> ('s shadow, unit) io" where
  "ss_send lib ly bs = layered_write (shadow_write_some lib ly) bs"

definition ss_close :: "'s layer \<Rightarrow> ('s shadow, unit) io" where
  "ss_close ly = iobind (redirect_void (shadow_close ly)) (\<lambda>_. ioret (Inr ()))"

definition ss_read_remote ::
  "crypto_lib \<Rightarrow> (bytes \<Rightarrow> string) \<Rightarrow> ip_lib \<Rightarrow> 's layer \<Rightarrow> ('s shadow, Endpoint) io" where
  "ss_read_remote lib hex ip ly =
     iobind (shadow_accept lib hex ly) (\<lambda>_.
     parse_endpoint ip (layered_read (shadow_read_some lib hex ly)))"

definition ss_confirm :: "('s shadow, unit) io" where
  "ss_confirm = ioret (Inr ())"

definition ss_connect ::
  "crypto_lib \<Rightarrow> ip_lib \<Rightarrow> 's layer \<Rightarrow> Endpoint \<Rightarrow> Endpoint \<Rightarrow> ('s shadow, unit) io" where
  "ss_connect lib ip ly proxy peer = shadow_connect lib ip ly proxy peer"

definition ss_disconnect :: "error_code \<Rightarrow> ('s shadow, unit) io" where
  "ss_disconnect ec = ioret (Inr ())"

section \<open>Laws of the library\<close>

definition crypto_laws :: "crypto_lib \<Rightarrow> bool" where
  "crypto_laws lib \<longleftrightarrow>
     (\<forall>a k n p. length (cl_seal lib a k n p) = length p + TAG_SIZE) \<and>
     (\<forall>a k n p. cl_open lib a k n (cl_seal lib a k n p) = Some p) \<and>
     (\<forall>a k n c p. cl_open lib a k n c = Some p \<longrightarrow> length c = length p + TAG_SIZE) \<and>
     (\<forall>x. length (cl_md5 lib x) = 16)"

lemma crypto_lawsD:
  assumes "crypto_laws lib"
  shows "length (cl_seal lib a k n p) = length p + TAG_SIZE" "cl_open lib a k n (cl_seal lib a k n p) = Some p"
    "cl_open lib a k n c = Some p \<Longrightarrow> length c = length p + TAG_SIZE" "cl_md5 lib x \<noteq> []"
  using assms by (auto simp: crypto_laws_def) (metis list.size(3) zero_neq_numeral)

lemma psk_loop_total:
  assumes "crypto_laws lib"
  shows "\<exists>data'. psk_loop lib pw sz data tmp = Inr data'"
  using assms
proof (induction lib pw sz data tmp rule: psk_loop.induct)
  case (1 lib pw sz data tmp)
  show ?case
    using "1.IH" [OF _ refl] "1.prems" crypto_lawsD(4) [OF "1.prems"] by (subst psk_loop.simps) (simp add: Let_def)
qed

text \<open>The key both sides derive from the password and the salt.\<close>

definition subkey :: "crypto_lib \<Rightarrow> bytes \<Rightarrow> bytes \<Rightarrow> bytes" where
  "subkey lib pw salt =
     (case generate_psk lib pw (length salt) of
        Inl _ \<Rightarrow> []
      | Inr psk \<Rightarrow> cl_hkdf lib (length salt) psk salt (bytes_of ''ss-subkey''))"

lemma set_psk_subkey:
  "crypto_laws lib \<Longrightarrow> cryptor_set_psk lib pw salt c = Inr (c\<lparr>cr_key := Some (subkey lib pw salt)\<rparr>)"
  using psk_loop_total [of lib pw "length salt" "[]" "[]"]
  by (auto simp: cryptor_set_psk_def subkey_def generate_psk_def)

section \<open>What the frames mean\<close>

text \<open>The text that carries some payloads, and the plain text that can be read from a text.\<close>

fun seal_frames :: "crypto_lib \<Rightarrow> string \<Rightarrow> bytes \<Rightarrow> bytes \<Rightarrow> bytes list \<Rightarrow> bytes" where
  "seal_frames lib a k n [] = []"
| "seal_frames lib a k n (f # fs) =
     cl_seal lib a k n (hton16 (of_nat (length f))) @ cl_seal lib a k (cl_increment lib n) f @
     seal_frames lib a k (cl_increment lib (cl_increment lib n)) fs"

definition nonce_after :: "crypto_lib \<Rightarrow> bytes \<Rightarrow> bytes list \<Rightarrow> bytes" where
  "nonce_after lib n fs = (cl_increment lib ^^ (2 * length fs)) n"

lemma nonce_after_simps [simp]: "nonce_after lib n [] = n"
  "nonce_after lib n (f # fs) = nonce_after lib (cl_increment lib (cl_increment lib n)) fs"
  by (simp_all add: nonce_after_def funpow_swap1)

lemma seal_frames_append:
  "seal_frames lib a k n (fs @ gs) = seal_frames lib a k n fs @ seal_frames lib a k (nonce_after lib n fs) gs"
  by (induction fs arbitrary: n) simp_all

lemma nonce_after_append: "nonce_after lib n (fs @ gs) = nonce_after lib (nonce_after lib n fs) gs"
  by (induction fs arbitrary: n) simp_all

function frames_of :: "bytes \<Rightarrow> bytes list" where
  "frames_of plain = (if plain = [] then [] else take FRAME_SIZE plain # frames_of (drop FRAME_SIZE plain))"
  by pat_completeness auto
termination
  by (relation "measure length") auto

declare frames_of.simps [simp del]

lemma frames_of_concat: "concat (frames_of plain) = plain"
  by (induction plain rule: frames_of.induct) (subst frames_of.simps, simp)

definition good_frame :: "bytes \<Rightarrow> bool" where
  "good_frame f \<longleftrightarrow> f \<noteq> [] \<and> length f \<le> FRAME_SIZE"

lemma frames_of_good: "f \<in> set (frames_of plain) \<Longrightarrow> good_frame f"
proof (induction plain rule: frames_of.induct)
  case (1 plain)
  then show ?case by (subst (asm) frames_of.simps) (auto simp: good_frame_def split: if_splits)
qed

text \<open>One frame at the front of a text, its payload and its size, if it is whole and valid.\<close>

definition open_frame :: "crypto_lib \<Rightarrow> string \<Rightarrow> bytes \<Rightarrow> bytes \<Rightarrow> bytes \<Rightarrow> (bytes \<times> nat) option" where
  "open_frame lib a k n c =
     (if length c < 2 + TAG_SIZE then None
      else case cl_open lib a k n (take (2 + TAG_SIZE) c) of
        None \<Rightarrow> None
      | Some lb \<Rightarrow>
          (case ntoh16 lb of
             Inl _ \<Rightarrow> None
           | Inr l \<Rightarrow>
               (let len = unat l; d = drop (2 + TAG_SIZE) c in
                if len = 0 \<or> FRAME_SIZE < len \<or> length d < len + TAG_SIZE then None
                else map_option (\<lambda>p. (p, 2 + TAG_SIZE + len + TAG_SIZE))
                       (cl_open lib a k (cl_increment lib n) (take (len + TAG_SIZE) d)))))"

lemma open_frame_size: "open_frame lib a k n c = Some (p, m) \<Longrightarrow> 0 < m \<and> m \<le> length c"
  by (auto simp: open_frame_def Let_def split: if_splits option.splits sum.splits)

function decode :: "crypto_lib \<Rightarrow> string \<Rightarrow> bytes \<Rightarrow> bytes \<Rightarrow> bytes \<Rightarrow> bytes" where
  "decode lib a k n c =
     (case open_frame lib a k n c of
        None \<Rightarrow> []
      | Some (p, m) \<Rightarrow> p @ decode lib a k (cl_increment lib (cl_increment lib n)) (drop m c))"
  by pat_completeness auto
termination
  by (relation "measure (\<lambda>(lib, a, k, n, c). length c)") (auto dest: open_frame_size)

declare decode.simps [simp del]

lemmas hton_ntoh = ntoh16_hton16 length_hton16

lemma unat_frame_size: "n \<le> FRAME_SIZE \<Longrightarrow> unat (of_nat n :: u16) = n"
  by (simp add: unat_of_nat)

lemma open_sealed:
  assumes "crypto_laws lib" and "good_frame f"
  shows "open_frame lib a k n (cl_seal lib a k n (hton16 (of_nat (length f))) @
      cl_seal lib a k (cl_increment lib n) f @ rest) = Some (f, 2 + TAG_SIZE + length f + TAG_SIZE)"
proof -
  note l = crypto_lawsD [OF assms(1)]
  have f: "0 < length f" "length f \<le> FRAME_SIZE" using assms(2) by (auto simp: good_frame_def)
  have c: "length (cl_seal lib a k n (hton16 (of_nat (length f)))) = 2 + TAG_SIZE"
    by (simp only: l(1) hton_ntoh)
  show ?thesis
    using f by (simp add: open_frame_def c l(1) l(2) hton_ntoh unat_frame_size Let_def)
qed

lemma decode_sealed:
  assumes "crypto_laws lib" and "\<forall>f \<in> set fs. good_frame f"
  shows "decode lib a k n (seal_frames lib a k n fs @ rest) = concat fs @ decode lib a k (nonce_after lib n fs) rest"
  using assms(2)
proof (induction fs arbitrary: n)
  case (Cons f fs)
  let ?c1 = "cl_seal lib a k n (hton16 (of_nat (length f)))" and ?c2 = "cl_seal lib a k (cl_increment lib n) f"
  show ?case
    using open_sealed [OF assms(1), of f a k n] Cons
    by (subst decode.simps) (simp add: crypto_lawsD(1) [OF assms(1)] hton_ntoh)
qed simp

section \<open>Reading and writing\<close>

definition shadow_content :: "crypto_lib \<Rightarrow> ('s \<Rightarrow> bytes) \<Rightarrow> 's shadow \<Rightarrow> bytes" where
  "shadow_content lib content sh = sh_cache sh @
     (case cr_key (de_cryptor (sh_dec sh)) of
        None \<Rightarrow> []
      | Some k \<Rightarrow> decode lib (ALGO_MAP (cr_method (de_cryptor (sh_dec sh)))) k
                    (cr_nonce (de_cryptor (sh_dec sh))) (content (sh_socket sh)))"

definition keyed :: "('s \<Rightarrow> bool) \<Rightarrow> 's shadow \<Rightarrow> bool" where
  "keyed ok sh \<longleftrightarrow> ok (sh_socket sh) \<and> sh_pw sh = [] \<and> cr_key (de_cryptor (sh_dec sh)) \<noteq> None"

definition sealing :: "('s \<Rightarrow> bool) \<Rightarrow> string \<Rightarrow> bytes \<Rightarrow> bytes \<Rightarrow> 's shadow \<Rightarrow> bool" where
  "sealing ok a k n sh \<longleftrightarrow> ok (sh_socket sh) \<and> ALGO_MAP (cr_method (en_cryptor (sh_enc sh))) = a \<and>
     cr_key (en_cryptor (sh_enc sh)) = Some k \<and> cr_nonce (en_cryptor (sh_enc sh)) = n"

definition shadow_frame :: "('s \<Rightarrow> bytes) \<Rightarrow> 's shadow \<Rightarrow> bytes \<times> encryptor \<times> sentry option" where
  "shadow_frame written sh = (written (sh_socket sh), sh_enc sh, sh_sentry sh)"

lemma on_socket_step: "f (sh_socket s) = (Inr x, u) \<Longrightarrow> on_socket f s = (Inr x, s\<lparr>sh_socket := u\<rparr>)"
  by (simp add: on_socket_def)

context byte_stream
begin

text \<open>One block: its text is read whole and opened.\<close>

lemma read_block_ok:
  assumes "inv (sh_socket s)" and "content (sh_socket s) = c @ rest" and "length c = n + TAG_SIZE"
    and "cr_key (de_cryptor (sh_dec s)) = Some k"
    and "cl_open lib (ALGO_MAP (cr_method (de_cryptor (sh_dec s)))) k (cr_nonce (de_cryptor (sh_dec s))) c = Some p"
  obtains u where "read_block lib ly n s = (Inr p, s\<lparr>sh_socket := u, sh_dec := (sh_dec s)\<lparr>de_cryptor :=
      (de_cryptor (sh_dec s))\<lparr>cr_nonce := cl_increment lib (cr_nonce (de_cryptor (sh_dec s)))\<rparr>\<rparr>\<rparr>)"
    "content u = rest" "written u = written (sh_socket s)" "inv u"
proof -
  obtain u where u: "ly_read ly (n + TAG_SIZE) (sh_socket s) = (Inr c, u)" "content u = rest"
      "written u = written (sh_socket s)" "inv u"
    using read_append [OF assms(1,2), of "n + TAG_SIZE"] assms(3) by auto
  have "read_block lib ly n s = (Inr p, s\<lparr>sh_socket := u, sh_dec := (sh_dec s)\<lparr>de_cryptor :=
      (de_cryptor (sh_dec s))\<lparr>cr_nonce := cl_increment lib (cr_nonce (de_cryptor (sh_dec s)))\<rparr>\<rparr>\<rparr>)"
    using assms(4,5) on_socket_step [of "ly_read ly (n + TAG_SIZE)", OF u(1)]
    by (simp add: read_block_def decryptor_process_def process_decrypt_def)
  then show thesis using u(2-4) by (rule that)
qed

text \<open>A read while there is something to read: at least one byte, from the front of it.\<close>

lemma do_read_ok:
  assumes laws: "crypto_laws lib" and s: "keyed inv s" and c: "shadow_content lib content s \<noteq> []" and n: "0 < n"
  shows "\<exists>bs s'. do_read lib hex ly n s = (Inr bs, s') \<and> bs \<noteq> [] \<and> length bs \<le> n \<and>
    shadow_content lib content s = bs @ shadow_content lib content s' \<and>
    shadow_frame written s' = shadow_frame written s \<and> keyed inv s'"
proof (cases "sh_cache s = []")
  case False
  have "do_read lib hex ly n s = (Inr (take n (sh_cache s)), s\<lparr>sh_cache := drop n (sh_cache s)\<rparr>)"
    using False s by (simp add: do_read_def cache_copy_def keyed_def iobind_def)
  moreover have "take n (sh_cache s) \<noteq> []" using False n by simp
  ultimately show ?thesis using s by (auto simp: shadow_content_def shadow_frame_def keyed_def)
next
  case True
  let ?d = "de_cryptor (sh_dec s)" and ?b = "content (sh_socket s)"
  let ?a = "ALGO_MAP (cr_method ?d)"
  obtain k where k: "cr_key ?d = Some k" using s by (auto simp: keyed_def)
  obtain p m where of: "open_frame lib ?a k (cr_nonce ?d) ?b = Some (p, m)"
    using c True k by (simp add: shadow_content_def Let_def, subst (asm) decode.simps) (auto split: option.splits)
  obtain lb l where lb: "2 + TAG_SIZE \<le> length ?b" "cl_open lib ?a k (cr_nonce ?d) (take (2 + TAG_SIZE) ?b) = Some lb"
      "ntoh16 lb = Inr l" "0 < unat l" "unat l \<le> FRAME_SIZE" "unat l + TAG_SIZE \<le> length (drop (2 + TAG_SIZE) ?b)"
      "cl_open lib ?a k (cl_increment lib (cr_nonce ?d)) (take (unat l + TAG_SIZE) (drop (2 + TAG_SIZE) ?b)) = Some p"
      "m = 2 + TAG_SIZE + unat l + TAG_SIZE"
    using of by (auto simp: open_frame_def Let_def not_less split: if_splits option.splits sum.splits)
  have p: "length p = unat l" using crypto_lawsD(3) [OF laws lb(7)] lb(6) by simp
  obtain u1 where u1: "read_block lib ly 2 s = (Inr lb, s\<lparr>sh_socket := u1, sh_dec := (sh_dec s)\<lparr>de_cryptor :=
        ?d\<lparr>cr_nonce := cl_increment lib (cr_nonce ?d)\<rparr>\<rparr>\<rparr>)"
      "content u1 = drop (2 + TAG_SIZE) ?b" "written u1 = written (sh_socket s)" "inv u1"
    by (rule read_block_ok [OF _ _ _ k lb(2), of "drop (2 + TAG_SIZE) ?b" 2]) (use s lb(1) in \<open>auto simp: keyed_def\<close>)
  let ?d1 = "?d\<lparr>cr_nonce := cl_increment lib (cr_nonce ?d)\<rparr>"
  let ?d2 = "?d\<lparr>cr_nonce := cl_increment lib (cl_increment lib (cr_nonce ?d))\<rparr>"
  have blk: "\<exists>u2. read_block lib ly (unat l) t =
        (Inr p, t\<lparr>sh_socket := u2, sh_dec := (sh_dec s)\<lparr>de_cryptor := ?d2\<rparr>\<rparr>) \<and>
      content u2 = drop m ?b \<and> written u2 = written (sh_socket s) \<and> inv u2"
    if t: "sh_socket t = u1" "sh_dec t = (sh_dec s)\<lparr>de_cryptor := ?d1\<rparr>" for t
  proof -
    have "drop m ?b = drop (unat l + TAG_SIZE) (drop (2 + TAG_SIZE) ?b)" using lb(8) by (simp add: ac_simps)
    then have 1: "content (sh_socket t) = take (unat l + TAG_SIZE) (drop (2 + TAG_SIZE) ?b) @ drop m ?b"
      using u1(2) t(1) by (simp only: append_take_drop_id)
    obtain u2 where "read_block lib ly (unat l) t = (Inr p, t\<lparr>sh_socket := u2, sh_dec := (sh_dec t)\<lparr>de_cryptor :=
        (de_cryptor (sh_dec t))\<lparr>cr_nonce := cl_increment lib (cr_nonce (de_cryptor (sh_dec t)))\<rparr>\<rparr>\<rparr>)"
        "content u2 = drop m ?b" "written u2 = written (sh_socket t)" "inv u2"
      by (rule read_block_ok [OF _ 1, of "unat l" k lib p]) (use u1(4) lb(6,7) k t in auto)
    then show ?thesis using u1(3) t by (intro exI [of _ u2]) simp
  qed
  have content': "shadow_content lib content s = p @ decode lib ?a k (cr_nonce ?d2) (drop m ?b)"
    using True k of by (simp add: shadow_content_def) (subst decode.simps, simp)
  have lenok: "assertTrue (unat l \<le> FRAME_SIZE) BAD_PROTO '''' = Inr ()" using lb(5) by simp
  show ?thesis
  proof (cases "unat l \<le> n")
    case le: True
    let ?s1 = "s\<lparr>sh_socket := u1, sh_dec := (sh_dec s)\<lparr>de_cryptor := ?d1\<rparr>\<rparr>"
    obtain u2 where u2: "read_block lib ly (unat l) ?s1 =
        (Inr p, ?s1\<lparr>sh_socket := u2, sh_dec := (sh_dec s)\<lparr>de_cryptor := ?d2\<rparr>\<rparr>)"
        "content u2 = drop m ?b" "written u2 = written (sh_socket s)" "inv u2" using blk [of ?s1] by auto
    have "do_read lib hex ly n s = (Inr p, ?s1\<lparr>sh_socket := u2, sh_dec := (sh_dec s)\<lparr>de_cryptor := ?d2\<rparr>\<rparr>)"
      using s True u1(1) u2(1) lb(3) le lenok by (simp add: do_read_def keyed_def iobind_def Let_def)
    then show ?thesis
      using content' True k p le lb(4) s u2(2-4)
      by (auto simp: shadow_content_def shadow_frame_def keyed_def)
  next
    case False
    let ?s1 = "s\<lparr>sh_socket := u1, sh_dec := (sh_dec s)\<lparr>de_cryptor := ?d1\<rparr>, sh_cache := replicate (unat l) 0\<rparr>"
    obtain u2 where u2: "read_block lib ly (unat l) ?s1 =
        (Inr p, ?s1\<lparr>sh_socket := u2, sh_dec := (sh_dec s)\<lparr>de_cryptor := ?d2\<rparr>\<rparr>)"
        "content u2 = drop m ?b" "written u2 = written (sh_socket s)" "inv u2" using blk [of ?s1] by auto
    have "do_read lib hex ly n s = (Inr (take n p),
        ?s1\<lparr>sh_socket := u2, sh_dec := (sh_dec s)\<lparr>de_cryptor := ?d2\<rparr>, sh_cache := drop n p\<rparr>)"
      using s True u1(1) u2(1) lb(3) False lenok
      by (simp add: do_read_def keyed_def iobind_def Let_def cache_copy_def)
    moreover have "take n p \<noteq> []" using n p False by auto
    ultimately show ?thesis
      using content' True k s u2(2-4) by (auto simp: shadow_content_def shadow_frame_def keyed_def)
  qed
qed

text \<open>Hence reads of a whole buffer, and repeated reads.\<close>

lemma layered_read_ok:
  assumes "crypto_laws lib"
  shows "keyed inv s \<Longrightarrow> n \<le> length (shadow_content lib content s) \<Longrightarrow>
    \<exists>s'. layered_read (shadow_read_some lib hex ly) n s = (Inr (take n (shadow_content lib content s)), s') \<and>
      shadow_content lib content s' = drop n (shadow_content lib content s) \<and>
      shadow_frame written s' = shadow_frame written s \<and> keyed inv s'"
proof (induction n arbitrary: s rule: less_induct)
  case (less n)
  show ?case
  proof (cases "n = 0")
    case True
    then show ?thesis using less.prems by (subst layered_read.simps) simp
  next
    case False
    then have "shadow_content lib content s \<noteq> []" using less.prems(2) by auto
    with False obtain bs s1 where r: "do_read lib hex ly n s = (Inr bs, s1)" "bs \<noteq> []" "length bs \<le> n"
      and c: "shadow_content lib content s = bs @ shadow_content lib content s1"
        "shadow_frame written s1 = shadow_frame written s" "keyed inv s1"
      using do_read_ok [OF assms less.prems(1)] by blast
    then have "n - length bs < n" "n - length bs \<le> length (shadow_content lib content s1)"
      using less.prems(2) False by (cases bs; auto)+
    from less.IH [OF this(1) c(3) this(2)] obtain s2 where
      s2: "layered_read (shadow_read_some lib hex ly) (n - length bs) s1 =
          (Inr (take (n - length bs) (shadow_content lib content s1)), s2)"
        "shadow_content lib content s2 = drop (n - length bs) (shadow_content lib content s1)"
        "shadow_frame written s2 = shadow_frame written s1" "keyed inv s2" by blast
    have "layered_read (shadow_read_some lib hex ly) n s = (Inr (bs @ take (n - length bs) (shadow_content lib content s1)), s2)"
      using False r(1,2) s2(1) by (subst layered_read.simps) (simp add: shadow_read_some_def)
    then show ?thesis using s2(2-4) c r(3) by simp
  qed
qed

lemma recvs_ok:
  assumes "crypto_laws lib"
  shows "keyed inv s \<Longrightarrow> \<forall>n \<in> set ns. 0 < n \<Longrightarrow> sum_list ns \<le> length (shadow_content lib content s) \<Longrightarrow>
    \<exists>bs s'. recvs (ss_recv lib hex ly) ns s = (Inr bs, s') \<and> length ns \<le> length bs \<and>
      length bs \<le> sum_list ns \<and> shadow_content lib content s = bs @ shadow_content lib content s'"
proof (induction ns arbitrary: s)
  case (Cons n ns)
  then have "shadow_content lib content s \<noteq> []" "0 < n" by auto
  then obtain b s1 where r: "do_read lib hex ly n s = (Inr b, s1)" "length b \<le> n" "keyed inv s1"
      "shadow_content lib content s = b @ shadow_content lib content s1" and b: "1 \<le> length b"
    using do_read_ok [OF assms Cons.prems(1)] by (metis One_nat_def Suc_leI length_greater_0_conv)
  then have "sum_list ns \<le> length (shadow_content lib content s1)" using Cons.prems(3) r(2,4) by simp
  then obtain bs s2 where "recvs (ss_recv lib hex ly) ns s1 = (Inr bs, s2)" "length ns \<le> length bs" "length bs \<le> sum_list ns"
      "shadow_content lib content s1 = bs @ shadow_content lib content s2"
    using Cons.IH [OF r(3)] Cons.prems(2) by auto
  moreover have "ss_recv lib hex ly n s = (Inr b, s1)" using r(1) by (simp add: ss_recv_def shadow_read_some_def)
  ultimately show ?case using r(2,4) b by simp
qed simp

text \<open>A write sends the frames of its text.\<close>

lemma write_frames_ok:
  assumes "crypto_laws lib"
  shows "inv (sh_socket s) \<Longrightarrow> cr_key (en_cryptor (sh_enc s)) = Some k \<Longrightarrow>
    \<exists>u. write_frames lib ly plain s = (Inr (length plain + (2 + 2 * TAG_SIZE) * length (frames_of plain)),
        s\<lparr>sh_socket := u, sh_enc := \<lparr>en_cryptor = (en_cryptor (sh_enc s))\<lparr>cr_nonce :=
            nonce_after lib (cr_nonce (en_cryptor (sh_enc s))) (frames_of plain)\<rparr>,
          en_salt = (if plain = [] then en_salt (sh_enc s) else [])\<rparr>\<rparr>) \<and>
      written u = written (sh_socket s) @
        seal_frames lib (ALGO_MAP (cr_method (en_cryptor (sh_enc s)))) k (cr_nonce (en_cryptor (sh_enc s))) (frames_of plain) \<and>
      content u = content (sh_socket s) \<and> inv u"
proof (induction plain arbitrary: s rule: length_induct)
  case (1 plain)
  show ?case
  proof (cases "plain = []")
    case True
    then show ?thesis using "1.prems"
      by (intro exI [of _ "sh_socket s"], subst write_frames.simps, cases s, cases "sh_enc s") (simp add: frames_of.simps)
  next
    case False
    let ?e = "en_cryptor (sh_enc s)" and ?pl = "min (length plain) FRAME_SIZE"
    let ?a = "ALGO_MAP (cr_method ?e)" and ?inc = "cl_increment lib"
    have pl: "take ?pl plain = take FRAME_SIZE plain" "drop ?pl plain = drop FRAME_SIZE plain"
      "length (take FRAME_SIZE plain) = ?pl" by (simp_all add: min_def)
    let ?c = "cl_seal lib ?a k (cr_nonce ?e) (hton16 (of_nat ?pl)) @
      cl_seal lib ?a k (?inc (cr_nonce ?e)) (take FRAME_SIZE plain)"
    obtain u where u: "ly_write ly ?c (sh_socket s) = (Inr (), u)" "content u = content (sh_socket s)"
        "written u = written (sh_socket s) @ ?c" "inv u"
      using write_ok [OF "1.prems"(1)] by blast
    let ?s1 = "s\<lparr>sh_enc := \<lparr>en_cryptor = ?e\<lparr>cr_nonce := ?inc (?inc (cr_nonce ?e))\<rparr>, en_salt = []\<rparr>, sh_socket := u\<rparr>"
    have "length (drop FRAME_SIZE plain) < length plain" using False by simp
    from "1.IH" [rule_format, OF this, of ?s1] obtain v where
      v: "write_frames lib ly (drop FRAME_SIZE plain) ?s1 =
          (Inr (length (drop FRAME_SIZE plain) + (2 + 2 * TAG_SIZE) * length (frames_of (drop FRAME_SIZE plain))),
           ?s1\<lparr>sh_socket := v, sh_enc := \<lparr>en_cryptor = ?e\<lparr>cr_nonce :=
             nonce_after lib (?inc (?inc (cr_nonce ?e))) (frames_of (drop FRAME_SIZE plain))\<rparr>, en_salt = []\<rparr>\<rparr>)"
        "written v = written u @ seal_frames lib ?a k (?inc (?inc (cr_nonce ?e))) (frames_of (drop FRAME_SIZE plain))"
        "content v = content u" "inv v"
      using "1.prems"(2) u(4) by (auto cong: if_cong)
    have len: "length ?c + (length (drop FRAME_SIZE plain) + (2 + 2 * TAG_SIZE) * length (frames_of (drop FRAME_SIZE plain))) =
        length plain + (2 + 2 * TAG_SIZE) * length (frames_of plain)"
      using False by (subst (2) frames_of.simps) (simp add: crypto_lawsD(1) [OF assms] min_def)
    have fr: "frames_of plain = take FRAME_SIZE plain # frames_of (drop FRAME_SIZE plain)"
      using False by (subst frames_of.simps) simp
    have "write_frames lib ly plain s = (Inr (length plain + (2 + 2 * TAG_SIZE) * length (frames_of plain)),
        ?s1\<lparr>sh_socket := v, sh_enc := \<lparr>en_cryptor = ?e\<lparr>cr_nonce :=
          nonce_after lib (?inc (?inc (cr_nonce ?e))) (frames_of (drop FRAME_SIZE plain))\<rparr>, en_salt = []\<rparr>\<rparr>)"
      unfolding len [symmetric]
      using False "1.prems"(2) u(1) v(1)
      by (subst write_frames.simps)
         (simp add: Let_def encryptor_process_def process_encrypt_def on_socket_def pl del: length_append)
    then show ?thesis using v(2-4) u(2,3) False fr pl(3) by (intro exI [of _ v]) simp
  qed
qed

text \<open>One call of \<^verbatim>\<open>do_write\<close>: the salt if it has not been sent, then the frames.\<close>

lemma do_write_ok:
  assumes "crypto_laws lib" and s: "sealing inv a k n s" and "plain \<noteq> []"
  shows "\<exists>m s'. do_write lib ly plain s = (Inr m, s') \<and>
    m = length plain + (2 + 2 * TAG_SIZE) * length (frames_of plain) \<and>
    written (sh_socket s') = written (sh_socket s) @ en_salt (sh_enc s) @ seal_frames lib a k n (frames_of plain) \<and>
    en_salt (sh_enc s') = [] \<and> sealing inv a k (nonce_after lib n (frames_of plain)) s'"
proof -
  let ?salt = "\<lambda>s. if en_salt (sh_enc s) \<noteq> [] then write_salt ly s else (Inr (), s)"
  obtain u where u: "?salt s = (Inr (), s\<lparr>sh_socket := u\<rparr>)" "inv u"
      "written u = written (sh_socket s) @ en_salt (sh_enc s)"
  proof (cases "en_salt (sh_enc s) = []")
    case True
    then show thesis using s that [of "sh_socket s"] by (simp add: sealing_def)
  next
    case False
    obtain u where "ly_write ly (en_salt (sh_enc s)) (sh_socket s) = (Inr (), u)" "inv u"
        "written u = written (sh_socket s) @ en_salt (sh_enc s)"
      using write_ok [of "sh_socket s" "en_salt (sh_enc s)"] s by (auto simp: sealing_def)
    then show thesis using False that [of u] by (simp add: write_salt_def on_socket_def)
  qed
  have "cr_key (en_cryptor (sh_enc (s\<lparr>sh_socket := u\<rparr>))) = Some k" "inv (sh_socket (s\<lparr>sh_socket := u\<rparr>))"
    using s u(2) by (simp_all add: sealing_def)
  from write_frames_ok [OF assms(1) this(2,1), of plain] show ?thesis
    using u s assms(3) by (auto simp: do_write_def sealing_def iobind_def)
qed

text \<open>\<^verbatim>\<open>send\<close> of at most 65536 bytes is one call of \<^verbatim>\<open>do_write\<close>, since that reports at least as many bytes.\<close>

lemma ss_send_ok:
  assumes "crypto_laws lib" and "sealing inv a k n s" and "plain \<noteq> []"
    and "length plain \<le> 65536 + (2 + 2 * TAG_SIZE) * length (frames_of (take 65536 plain))"
  shows "\<exists>s'. ss_send lib ly plain s = (Inr (), s') \<and>
    written (sh_socket s') = written (sh_socket s) @ en_salt (sh_enc s) @
      seal_frames lib a k n (frames_of (take 65536 plain)) \<and>
    en_salt (sh_enc s') = [] \<and> sealing inv a k (nonce_after lib n (frames_of (take 65536 plain))) s'"
proof -
  have "take 65536 plain \<noteq> []" using assms(3) by simp
  from do_write_ok [OF assms(1,2) this] obtain m s' where
    w: "do_write lib ly (take 65536 plain) s = (Inr m, s')"
    and m: "m = length (take 65536 plain) + (2 + 2 * TAG_SIZE) * length (frames_of (take 65536 plain))"
    and s': "written (sh_socket s') = written (sh_socket s) @ en_salt (sh_enc s) @
        seal_frames lib a k n (frames_of (take 65536 plain))" "en_salt (sh_enc s') = []"
      "sealing inv a k (nonce_after lib n (frames_of (take 65536 plain))) s'" by blast
  have "length plain \<le> m" using m assms(4) by (cases "length plain \<le> 65536") (simp_all add: min_def)
  then have "ss_send lib ly plain s = (Inr (), s')"
    using w by (simp add: ss_send_def layered_write.simps [of _ plain] shadow_write_some_def)
  with s' show ?thesis by blast
qed

lemma sends_ok:
  assumes "crypto_laws lib"
  shows "sealing inv a k n s \<Longrightarrow> en_salt (sh_enc s) = [] \<Longrightarrow> \<forall>w \<in> set ws. w \<noteq> [] \<and> length w \<le> 65536 \<Longrightarrow>
    \<exists>s'. sends (ss_send lib ly) ws s = (Inr (), s') \<and>
      written (sh_socket s') = written (sh_socket s) @ seal_frames lib a k n (concat (map frames_of ws))"
proof (induction ws arbitrary: s n)
  case (Cons w ws)
  then have w: "w \<noteq> []" "take 65536 w = w" "length w \<le> 65536" by simp_all
  obtain s1 where s1: "ss_send lib ly w s = (Inr (), s1)" "en_salt (sh_enc s1) = []"
      "written (sh_socket s1) = written (sh_socket s) @ seal_frames lib a k n (frames_of w)"
      "sealing inv a k (nonce_after lib n (frames_of w)) s1"
    using ss_send_ok [OF assms Cons.prems(1) w(1)] w(2,3) Cons.prems(2) by auto
  from Cons.IH [OF s1(4,2)] show ?case using Cons.prems(3) s1(1,3) by (auto simp: seal_frames_append)
qed simp

lemma ss_connect_ok:
  assumes "crypto_laws lib" and s: "sealing inv a k n s"
    and "serializeEndpoint ip remote (replicate FRAME_SIZE 0) = Inr (l, buf)" and "take l buf \<noteq> []"
  shows "\<exists>s'. ss_connect lib ip ly proxy remote s = (Inr (), s') \<and>
    written (sh_socket s') = written (sh_socket s) @ en_salt (sh_enc s) @ seal_frames lib a k n (frames_of (take l buf)) \<and>
    en_salt (sh_enc s') = [] \<and> sealing inv a k (nonce_after lib n (frames_of (take l buf))) s'"
proof -
  obtain u where u: "ly_connect ly proxy (sh_socket s) = (Inr (), u)" "written u = written (sh_socket s)" "inv u"
    using connect_ok [of "sh_socket s"] s by (auto simp: sealing_def)
  have "sealing inv a k n (s\<lparr>sh_socket := u\<rparr>)" using s u(3) by (simp add: sealing_def)
  from do_write_ok [OF assms(1) this assms(4)] obtain m s' where
    "do_write lib ly (take l buf) (s\<lparr>sh_socket := u\<rparr>) = (Inr m, s')" "en_salt (sh_enc s') = []"
    "written (sh_socket s') = written u @ en_salt (sh_enc s) @ seal_frames lib a k n (frames_of (take l buf))"
    "sealing inv a k (nonce_after lib n (frames_of (take l buf))) s'" by auto
  then show ?thesis
    using u(1,2) assms(3) by (simp add: ss_connect_def shadow_connect_def do_connect_def on_socket_def iobind_def completer_def)
qed

text \<open>Accepting: the salt is read, shown to the sentry, and gives the key.\<close>

lemma shadow_accept_ok:
  assumes "crypto_laws lib" and "inv (sh_socket s)" and c: "content (sh_socket s) = salt @ rest"
    and l: "length (de_salt (sh_dec s)) = length salt"
  shows "\<exists>u. written u = written (sh_socket s) \<and> content u = rest \<and> inv u \<and>
    shadow_accept lib hex ly s =
     (let s1 = s\<lparr>sh_socket := u, sh_dec := (sh_dec s)\<lparr>de_salt := salt\<rparr>\<rparr> in
      case ask_sentry hex salt s1 of
        (Inl e, s2) \<Rightarrow> (Inl (complete_exn e), s2)
      | (Inr _, s2) \<Rightarrow> (case decryptor_set_psk lib (sh_pw s2) (sh_dec s2) of
                         Inl e \<Rightarrow> (Inl (complete_exn e), s2)
                       | Inr d \<Rightarrow> (Inr (), s2\<lparr>sh_dec := d, sh_pw := []\<rparr>)))"
proof -
  obtain u1 where u1: "ly_accept ly (sh_socket s) = (Inr (), u1)" "content u1 = salt @ rest"
      "written u1 = written (sh_socket s)" "inv u1" using accept_ok [OF assms(2)] c by auto
  obtain u where u: "ly_read ly (length salt) u1 = (Inr salt, u)" "content u = rest" "written u = written u1" "inv u"
    using read_append [OF u1(4,2), of "length salt"] by auto
  have "read_salt lib hex ly (s\<lparr>sh_socket := u1\<rparr>) =
     (let s1 = s\<lparr>sh_socket := u, sh_dec := (sh_dec s)\<lparr>de_salt := salt\<rparr>\<rparr> in
      case ask_sentry hex salt s1 of
        (Inl e, s2) \<Rightarrow> (Inl e, s2)
      | (Inr _, s2) \<Rightarrow> (case decryptor_set_psk lib (sh_pw s2) (sh_dec s2) of
                         Inl e \<Rightarrow> (Inl e, s2)
                       | Inr d \<Rightarrow> (Inr (), s2\<lparr>sh_dec := d, sh_pw := []\<rparr>)))"
    using u(1) l by (auto simp: read_salt_def iobind_def on_socket_def Let_def split: sum.splits prod.splits)
  then show ?thesis
    using u u1 by (intro exI [of _ u])
      (simp add: shadow_accept_def iobind_def on_socket_def completer_def Let_def split: sum.splits prod.splits)
qed

text \<open>An ingress reads the endpoint of an egress that seals with the key of the same salt.\<close>

lemma ss_read_remote_ok:
  assumes laws: "crypto_laws lib" "ip_laws ip" and "inv (sh_socket s)" and "endpoint_bytes ip remote = Inr bs"
    and c: "content (sh_socket s) = salt @ rest" and l: "length (de_salt (sh_dec s)) = length salt"
    and q: "\<And>s1 :: 's shadow. sh_sentry s1 = sh_sentry s \<Longrightarrow> ask_sentry hex salt s1 = (Inr (), s1\<lparr>sh_sentry := sy'\<rparr>)"
    and d: "sh_cache s = []" "decode lib (ALGO_MAP (cr_method (de_cryptor (sh_dec s)))) (subkey lib (sh_pw s) salt)
        (cr_nonce (de_cryptor (sh_dec s))) rest = bs @ text"
  shows "\<exists>t. ss_read_remote lib hex ip ly s = (Inr (canonical ip remote), t) \<and> keyed inv t \<and>
    shadow_content lib content t = text \<and> sh_sentry t = sy'"
proof -
  obtain u where u: "content u = rest" "inv u" and acc: "shadow_accept lib hex ly s =
     (let s1 = s\<lparr>sh_socket := u, sh_dec := (sh_dec s)\<lparr>de_salt := salt\<rparr>\<rparr> in
      case ask_sentry hex salt s1 of
        (Inl e, s2) \<Rightarrow> (Inl (complete_exn e), s2)
      | (Inr _, s2) \<Rightarrow> (case decryptor_set_psk lib (sh_pw s2) (sh_dec s2) of
                         Inl e \<Rightarrow> (Inl (complete_exn e), s2)
                       | Inr d \<Rightarrow> (Inr (), s2\<lparr>sh_dec := d, sh_pw := []\<rparr>)))"
    using shadow_accept_ok [OF laws(1) assms(3) c l] by blast
  let ?s1 = "s\<lparr>sh_socket := u, sh_dec := (sh_dec s)\<lparr>de_salt := salt\<rparr>\<rparr>"
  define t0 where "t0 = ?s1\<lparr>sh_sentry := sy', sh_dec := \<lparr>de_cryptor = (de_cryptor (sh_dec s))\<lparr>cr_key := Some (subkey lib (sh_pw s) salt)\<rparr>,
      de_salt = []\<rparr>, sh_pw := []\<rparr>"
  have a: "shadow_accept lib hex ly s = (Inr (), t0)"
    unfolding acc using q [of ?s1] laws(1) by (simp add: t0_def Let_def decryptor_set_psk_def set_psk_subkey)
  have t0: "keyed inv t0" "shadow_content lib content t0 = bs @ text" "sh_sentry t0 = sy'"
    using u d by (simp_all add: t0_def keyed_def shadow_content_def)
  have "byte_source (layered_read (shadow_read_some lib hex ly)) (shadow_content lib content) (shadow_frame written) (keyed inv)"
    by unfold_locales (rule layered_read_ok [OF laws(1)])
  from byte_source.parse_serialized [OF this t0(1) laws(2) assms(4) t0(2)] obtain t where
    "parseEndpoint ip (layered_read (shadow_read_some lib hex ly)) t0 = (Inr (canonical ip remote), t)"
    "shadow_content lib content t = text" "shadow_frame written t = shadow_frame written t0" "keyed inv t" by blast
  then show ?thesis
    using a t0(3) by (simp add: ss_read_remote_def parse_endpoint_def iobind_def shadow_frame_def)
qed

end

section \<open>Properties\<close>

lemma endpoint_bytes_nonempty: "endpoint_bytes ip ep = Inr bs \<Longrightarrow> bs \<noteq> []"
  by (auto simp: endpoint_bytes_def result_simps) (metis length_hton16 list.size(3) zero_neq_numeral)

lemma shadow_new_eq:
  assumes "crypto_laws lib"
  shows "shadow_new lib m pw salt sy s = Inr \<lparr>sh_pw = pw, sh_cache = [], sh_sentry = sy, sh_socket = s,
    sh_enc = \<lparr>en_cryptor = \<lparr>cr_method = m, cr_key = Some (subkey lib pw salt), cr_nonce = replicate (NONCE_SIZE m) 0\<rparr>,
      en_salt = salt\<rparr>, sh_dec = decryptor_new m\<rparr>"
  by (simp add: shadow_new_def encryptor_new_def set_psk_subkey [OF assms] cryptor_new_def)

lemma ask_sentry_eq:
  assumes "sh_sentry s = Some sy" and "sy_strand sy"
  shows "ask_sentry hex salt s =
    (if hex salt \<in> sy_active sy \<union> sy_expiring sy then Inl (SystemError (Pichi_code BAD_PROTO) '''') else Inr (),
     s\<lparr>sh_sentry := Some (sy\<lparr>sy_active := insert (hex salt) (sy_active sy)\<rparr>)\<rparr>)"
  using assms by (auto simp: ask_sentry_def sentry_contains_def Let_def)

text \<open>What an egress sends: the salt, then the frames of everything that is written.\<close>

definition shadow_text :: "crypto_lib \<Rightarrow> ShadowsocksOption \<Rightarrow> bytes \<Rightarrow> bytes list \<Rightarrow> bytes" where
  "shadow_text lib opt salt plains = salt @
     seal_frames lib (ALGO_MAP (ss_method opt)) (subkey lib (bytes_of (ss_password opt)) salt)
       (replicate (NONCE_SIZE (ss_method opt)) 0) (concat (map frames_of plains))"

lemma frames_of_all: "concat (concat (map frames_of plains)) = concat plains"
  "\<forall>f \<in> set (concat (map frames_of plains)). good_frame f"
  by (induction plains) (auto simp: frames_of_concat intro: frames_of_good)

lemma shadow_egress_sends:
  assumes "crypto_laws lib" and "serializeEndpoint ip remote (replicate FRAME_SIZE 0) = Inr (n, buf)"
    and "take n buf \<noteq> []" and "eg_opt evo = Some (EO_SS opt)" and "eg_server evo = Some proxy"
    and ws: "\<forall>w \<in> set ws. w \<noteq> [] \<and> length w \<le> 65536" and c: "sk_ok c"
  shows "\<exists>st st1 st2. create_stream_egress lib evo salt c = Inr (st, proxy) \<and>
      ss_connect lib ip socket_layer proxy remote st = (Inr (), st1) \<and>
      sends (ss_send lib socket_layer) ws st1 = (Inr (), st2) \<and>
      sk_wBuf (sh_socket st2) = sk_wBuf c @ shadow_text lib opt salt (take n buf # ws)"
proof -
  let ?a = "ALGO_MAP (ss_method opt)" and ?k = "subkey lib (bytes_of (ss_password opt)) salt"
  let ?n0 = "replicate (NONCE_SIZE (ss_method opt)) (0 :: byte)"
  obtain st where st: "create_stream_egress lib evo salt c = Inr (st, proxy)" "sealing sk_ok ?a ?k ?n0 st"
      "sh_socket st = c" "en_salt (sh_enc st) = salt"
    using assms(4,5) c by (simp add: create_stream_egress_def shadow_new_eq [OF assms(1)] sealing_def)
  obtain st1 where st1: "ss_connect lib ip socket_layer proxy remote st = (Inr (), st1)"
      "sk_wBuf (sh_socket st1) = sk_wBuf c @ salt @ seal_frames lib ?a ?k ?n0 (frames_of (take n buf))"
      "en_salt (sh_enc st1) = []" "sealing sk_ok ?a ?k (nonce_after lib ?n0 (frames_of (take n buf))) st1"
    using sk.ss_connect_ok [OF assms(1) st(2) assms(2,3)] st(3,4) by blast
  from sk.sends_ok [OF assms(1) st1(4,3) ws] show ?thesis
    using st(1) st1(1,2) by (auto simp: seal_frames_append shadow_text_def)
qed

lemma shadow_ingress_reads:
  assumes laws: "ip_laws ip" "crypto_laws lib" and eb: "endpoint_bytes ip remote = Inr bs"
    and "in_opt ivo = Some (IO_SS opt)" and salt: "length salt = KEY_SIZE (ss_method opt)"
    and sy: "sy_strand sy" "hex salt \<notin> sy_active sy \<union> sy_expiring sy"
    and s: "sk_ok s" "sk_content s = shadow_text lib opt salt (bs # ws)"
  shows "\<exists>st t more. create_stream_ingress lib ivo salt' sy s = Inr st \<and>
      ss_read_remote lib hex ip socket_layer st = (Inr (canonical ip remote), t) \<and> keyed sk_ok t \<and>
      shadow_content lib sk_content t = concat ws @ more"
proof -
  let ?m = "ss_method opt" and ?k = "subkey lib (bytes_of (ss_password opt)) salt"
  let ?n0 = "replicate (NONCE_SIZE ?m) (0 :: byte)" and ?fs = "concat (map frames_of (bs # ws))"
  let ?rest = "seal_frames lib (ALGO_MAP ?m) ?k ?n0 ?fs"
  let ?more = "decode lib (ALGO_MAP ?m) ?k (nonce_after lib ?n0 ?fs) []"
  have dec: "decode lib (ALGO_MAP ?m) ?k ?n0 ?rest = bs @ concat ws @ ?more"
    using decode_sealed [OF laws(2) frames_of_all(2), of "ALGO_MAP ?m" ?k ?n0 "bs # ws" "[]"]
    unfolding frames_of_all(1) by simp
  obtain st where st: "create_stream_ingress lib ivo salt' sy s = Inr st" "sh_socket st = s"
      "sh_sentry st = Some sy" "sh_cache st = []" "sh_pw st = bytes_of (ss_password opt)"
      "sh_dec st = decryptor_new ?m"
    using assms(4) by (simp add: create_stream_ingress_def shadow_new_eq [OF laws(2)])
  have "\<exists>t. ss_read_remote lib hex ip socket_layer st = (Inr (canonical ip remote), t) \<and> keyed sk_ok t \<and>
      shadow_content lib sk_content t = concat ws @ ?more \<and>
      sh_sentry t = Some (sy\<lparr>sy_active := insert (hex salt) (sy_active sy)\<rparr>)"
    by (rule sk.ss_read_remote_ok [OF laws(2,1) _ eb, where salt = salt and rest = ?rest])
       (use s st salt sy dec in \<open>simp_all add: decryptor_new_def cryptor_new_def ask_sentry_eq shadow_text_def\<close>)
  then show ?thesis using st(1) by blast
qed


definition sample_tag :: "bytes \<Rightarrow> bytes \<Rightarrow> bytes" where
  "sample_tag k n = take TAG_SIZE (k @ n @ replicate TAG_SIZE 0)"

lemma length_sample_tag: "length (sample_tag k n) = TAG_SIZE"
  by (simp only: sample_tag_def length_take length_append length_replicate)

definition sample_crypto :: crypto_lib where
  "sample_crypto = \<lparr>cl_seal = (\<lambda>a k n p. p @ sample_tag k n),
     cl_open = (\<lambda>a k n c. if TAG_SIZE \<le> length c \<and> drop (length c - TAG_SIZE) c = sample_tag k n
        then Some (take (length c - TAG_SIZE) c) else None),
     cl_md5 = (\<lambda>x. sample_tag x []),
     cl_hkdf = (\<lambda>l psk salt info. take l (psk @ salt @ info)),
     cl_increment = (\<lambda>n. case n of [] \<Rightarrow> [] | b # bs \<Rightarrow> (b + 1) # bs)\<rparr>"

lemma sample_crypto_laws: "crypto_laws sample_crypto"
  by (auto simp: crypto_laws_def sample_crypto_def length_sample_tag)

definition sample_ss :: ShadowsocksOption where
  "sample_ss = \<lparr>ss_password = ''secret'', ss_method = AES_128_GCM\<rparr>"

definition sample_ss_egress :: EgressVO where
  "sample_ss_egress = (empty_egress SS)\<lparr>eg_opt := Some (EO_SS sample_ss), eg_server := Some sample_remote\<rparr>"

definition sample_ss_ingress :: IngressVO where
  "sample_ss_ingress = (empty_ingress SS [])\<lparr>in_opt := Some (IO_SS sample_ss)\<rparr>"


text \<open>A read never touches the sentry once the salt has been read.\<close>

definition salted :: "sentry option \<Rightarrow> 's shadow \<Rightarrow> bool" where
  "salted sy s \<longleftrightarrow> sh_pw s = [] \<and> sh_sentry s = sy"

lemma on_socket_salted [keeping]: "keeps (salted sy) (on_socket f)"
  by (auto simp: keeps_def on_socket_def salted_def split: prod.splits)

lemma read_block_salted [keeping]: "keeps (salted sy) (read_block lib ly n)"
  unfolding read_block_def
  by (intro keeping) (auto simp: keeps_def salted_def split: sum.splits prod.splits)

lemma do_read_salted: "keeps (salted sy) (do_read lib hex ly n)"
proof -
  have 1: "keeps (salted sy) (\<lambda>s. if sh_pw s \<noteq> [] then read_salt lib hex ly s else (Inr (), s))"
    "keeps (salted sy) (\<lambda>s. (Inr (), s\<lparr>sh_cache := c\<rparr>))" "keeps (salted sy) (cache_copy n)" for c
    by (auto simp: keeps_def salted_def cache_copy_def)
  have 2: "keeps (salted sy) (\<lambda>s. if sh_cache s \<noteq> [] then f s else g s)" if "keeps (salted sy) f" "keeps (salted sy) g"
    for f g :: "('a shadow, 'c) io"
    using that unfolding keeps_def by meson
  show ?thesis
    unfolding do_read_def Let_def
    by (rule keeps_iobind [OF 1(1)], rule 2 [OF 1(3)]) (intro keeping 1(2,3))
qed

lemma shadow_read_some_salted [keeping]: "keeps (salted sy) (shadow_read_some lib hex ly n)"
  using do_read_salted [of sy lib hex ly n]
  unfolding keeps_def shadow_read_some_def completer_def by (fastforce split: prod.splits sum.splits)

lemma shadow_accept_remembers:
  assumes "crypto_laws lib" and "sh_sentry st = Some sy" and "sy_strand sy" and "sk_ok (sh_socket st)"
    and "sk_content (sh_socket st) = salt @ rest" and "length (de_salt (sh_dec st)) = length salt"
  obtains r st1 where "shadow_accept lib hex socket_layer st = (r, st1)"
    "sh_sentry st1 = Some (sy\<lparr>sy_active := insert (hex salt) (sy_active sy)\<rparr>)"
    "hex salt \<in> sy_active sy \<union> sy_expiring sy \<Longrightarrow> r = Inl (SystemError (Pichi_code BAD_PROTO) '''')"
    "sk_wBuf (sh_socket st1) = sk_wBuf (sh_socket st)" "r = Inr () \<Longrightarrow> sh_pw st1 = []"
proof -
  obtain u where u: "sk_wBuf u = sk_wBuf (sh_socket st)" and acc: "shadow_accept lib hex socket_layer st =
     (let s1 = st\<lparr>sh_socket := u, sh_dec := (sh_dec st)\<lparr>de_salt := salt\<rparr>\<rparr> in
      case ask_sentry hex salt s1 of
        (Inl e, s2) \<Rightarrow> (Inl (complete_exn e), s2)
      | (Inr _, s2) \<Rightarrow> (case decryptor_set_psk lib (sh_pw s2) (sh_dec s2) of
                         Inl e \<Rightarrow> (Inl (complete_exn e), s2)
                       | Inr d \<Rightarrow> (Inr (), s2\<lparr>sh_dec := d, sh_pw := []\<rparr>)))"
    using sk.shadow_accept_ok [where hex = hex, OF assms(1,4-6)] by blast
  show thesis
    using acc u assms(2,3)
    by (intro that [of "fst (shadow_accept lib hex socket_layer st)" "snd (shadow_accept lib hex socket_layer st)"])
       (auto simp: ask_sentry_eq Let_def complete_exn_def split: sum.splits)
qed

text \<open>
  C36: A recorded connection cannot be replayed: once an ingress has seen a salt, whatever came of that
  connection, a connection that opens with the same salt is refused with \<^verbatim>\<open>BAD_PROTO\<close> before anything
  of it is decrypted and without an answer, after any number of other connections and at most one
  turn of the sentry's timer.
\<close>

theorem shadow_replay_refused:
  assumes "crypto_laws lib" and "in_opt ivo = Some (IO_SS opt)" and "length salt = KEY_SIZE (ss_method opt)"
    and "sk_ok s" and "sk_content s = salt @ rest" and "sk_ok s'" and "sk_content s' = salt @ rest'" and "sy_strand sy"
    and "create_stream_ingress lib ivo salt1 sy s = Inr st" and "ss_read_remote lib hex ip socket_layer st = (r, t)"
    and "count_list ops Rotate \<le> 1"
  shows "\<exists>sy1 st' t'. sh_sentry t = Some sy1 \<and>
    create_stream_ingress lib ivo salt2 (sentry_run hex left ops sy1) s' = Inr st' \<and>
    ss_read_remote lib hex ip socket_layer st' = (Inl (SystemError (Pichi_code BAD_PROTO) ''''), t') \<and>
    sk_wBuf (sh_socket t') = sk_wBuf s'"
proof -
  have created: "\<exists>st. create_stream_ingress lib ivo x sy0 s0 = Inr st \<and> sh_socket st = s0 \<and> sh_sentry st = Some sy0 \<and>
      length (de_salt (sh_dec st)) = length salt" for x sy0 and s0 :: socket
    using assms(2,3) by (simp add: create_stream_ingress_def shadow_new_eq [OF assms(1)] decryptor_new_def)
  have st: "sh_socket st = s" "sh_sentry st = Some sy" "length (de_salt (sh_dec st)) = length salt"
    using created [of salt1 sy s] assms(9) by auto
  let ?sy1 = "sy\<lparr>sy_active := insert (hex salt) (sy_active sy)\<rparr>"
  obtain ra st1 where a: "shadow_accept lib hex socket_layer st = (ra, st1)" "sh_sentry st1 = Some ?sy1"
      "ra = Inr () \<Longrightarrow> sh_pw st1 = []"
    using shadow_accept_remembers [OF assms(1) st(2) assms(8), of salt rest hex] st assms(4,5) by metis
  have "sh_sentry t = Some ?sy1"
  proof (cases ra)
    case (Inl e)
    then show ?thesis using a(1,2) assms(10) by (simp add: ss_read_remote_def)
  next
    case (Inr u)
    then have "salted (Some ?sy1) st1" using a(2,3) by (simp add: salted_def)
    then have "salted (Some ?sy1) t"
    proof (rule keepsD [where P = "salted (Some ?sy1)", rotated])
      show "keeps (salted (Some ?sy1)) (parse_endpoint ip (layered_read (shadow_read_some lib hex socket_layer)))"
        by (intro keeping)
      show "parse_endpoint ip (layered_read (shadow_read_some lib hex socket_layer)) st1 = (r, t)"
        using a(1) Inr assms(10) by (simp add: ss_read_remote_def)
    qed
    then show ?thesis by (simp add: salted_def)
  qed
  moreover have run: "sy_strand (sentry_run hex left ops ?sy1)" "hex salt \<in>
      sy_active (sentry_run hex left ops ?sy1) \<union> sy_expiring (sentry_run hex left ops ?sy1)"
    using sentry_remembers [OF _ _ assms(11), of ?sy1 "hex salt" hex left] assms(8) by auto
  moreover obtain st' where st': "create_stream_ingress lib ivo salt2 (sentry_run hex left ops ?sy1) s' = Inr st'"
      "sh_socket st' = s'" "sh_sentry st' = Some (sentry_run hex left ops ?sy1)" "length (de_salt (sh_dec st')) = length salt"
    using created by blast
  moreover obtain r2 st2 where "shadow_accept lib hex socket_layer st' = (r2, st2)" "sk_wBuf (sh_socket st2) = sk_wBuf s'"
      "r2 = Inl (SystemError (Pichi_code BAD_PROTO) '''')"
    by (rule shadow_accept_remembers [OF assms(1) st'(3) run(1), of salt rest' hex]) (use st'(2,4) assms(6,7) run(2) in simp_all)
  then have "ss_read_remote lib hex ip socket_layer st' = (Inl (SystemError (Pichi_code BAD_PROTO) ''''), st2) \<and>
      sk_wBuf (sh_socket st2) = sk_wBuf s'" by (simp add: ss_read_remote_def)
  ultimately show ?thesis by (intro exI [of _ ?sy1] exI [of _ st'] exI [of _ st2]) simp
qed

theorem shadow_replay_refused_witness:
  "\<exists>st r t sy1 st' t'.
    create_stream_ingress sample_crypto sample_ss_ingress [] (sentry_initialize sentry_new) (sample_socket [replicate 16 7, [1, 2]]) = Inr st \<and>
    ss_read_remote sample_crypto string_of sample_ip socket_layer st = (r, t) \<and> sh_sentry t = Some sy1 \<and>
    create_stream_ingress sample_crypto sample_ss_ingress [] (sentry_run string_of (\<lambda>_. {}) [Check [3], Rotate] sy1)
      (sample_socket [replicate 16 7 @ [5]]) = Inr st' \<and>
    ss_read_remote sample_crypto string_of sample_ip socket_layer st' = (Inl (SystemError (Pichi_code BAD_PROTO) ''''), t') \<and>
    sk_wBuf (sh_socket t') = []"
proof -
  let ?s = "sample_socket [replicate 16 7, [1, 2]]" and ?s' = "sample_socket [replicate 16 7 @ [5]]"
  have ok: "sk_ok ?s" "sk_content ?s = replicate 16 7 @ [1, 2]" "sk_ok ?s'" "sk_content ?s' = replicate 16 7 @ [5]"
    "sk_wBuf ?s' = []"
    by (simp_all add: sample_socket_def sk_ok_def sk_content_def)
  have opt: "in_opt sample_ss_ingress = Some (IO_SS sample_ss)" "length (replicate 16 (7 :: byte)) = KEY_SIZE (ss_method sample_ss)"
    "sy_strand (sentry_initialize sentry_new)" "count_list [Check [3], Rotate] Rotate \<le> 1"
    by (simp_all add: sample_ss_ingress_def sample_ss_def sentry_initialize_def)
  obtain st where st: "create_stream_ingress sample_crypto sample_ss_ingress [] (sentry_initialize sentry_new) ?s = Inr st"
    using opt(1) by (simp add: create_stream_ingress_def shadow_new_eq [OF sample_crypto_laws])
  obtain r t where t: "ss_read_remote sample_crypto string_of sample_ip socket_layer st = (r, t)" by fastforce
  from shadow_replay_refused [OF sample_crypto_laws opt(1,2) ok(1-4) opt(3) st t opt(4), of "[]" "\<lambda>_. {}"]
  obtain sy1 st' t' where "sh_sentry t = Some sy1"
    "create_stream_ingress sample_crypto sample_ss_ingress [] (sentry_run string_of (\<lambda>_. {}) [Check [3], Rotate] sy1) ?s' = Inr st'"
    "ss_read_remote sample_crypto string_of sample_ip socket_layer st' = (Inl (SystemError (Pichi_code BAD_PROTO) ''''), t')"
    "sk_wBuf (sh_socket t') = []" using ok(5) by auto
  with st t show ?thesis
    by (intro exI [of _ st] exI [of _ r] exI [of _ t] exI [of _ sy1] exI [of _ st'] exI [of _ t']) simp
qed

text \<open>
  C30: A write of more than 65536 bytes loses data. \<^verbatim>\<open>do_write\<close> reports the length of the sealed text it has
  sent instead of the number of bytes it has taken; \<^verbatim>\<open>asio::async_write\<close>, which hands it 65536 bytes at a
  time, then skips as many bytes as it reports. Of 65537 to 65706 bytes only the first 65536 are
  sent, and the write succeeds.
\<close>

theorem shadow_long_write_drops:
  assumes "crypto_laws lib" and "sealing sk_ok a k n s" and "65536 < length plain" and "length plain \<le> 65706"
  shows "\<exists>s'. ss_send lib socket_layer plain s = (Inr (), s') \<and>
    sk_wBuf (sh_socket s') = sk_wBuf (sh_socket s) @ en_salt (sh_enc s) @
      seal_frames lib a k n (frames_of (take 65536 plain))"
proof -
  have "length (frames_of p) = (length p + (FRAME_SIZE - 1)) div FRAME_SIZE" for p
  proof (induction p rule: frames_of.induct)
    case (1 p)
    show ?case
    proof (cases "p = []")
      case False
      then have "FRAME_SIZE \<le> length p + (FRAME_SIZE - 1)" by (cases p) auto
      then have "(length p + (FRAME_SIZE - 1)) div FRAME_SIZE = Suc ((length p + (FRAME_SIZE - 1) - FRAME_SIZE) div FRAME_SIZE)"
        by (intro le_div_geq) simp_all
      with 1 [OF False] show ?thesis
        using False by (subst frames_of.simps, cases "FRAME_SIZE \<le> length p") simp_all
    qed (simp add: frames_of.simps)
  qed
  then have "length (frames_of (take 65536 plain)) = 5" using assms(3) by simp
  moreover have "plain \<noteq> []" using assms(3) by auto
  ultimately show ?thesis
    using sk.ss_send_ok [OF assms(1,2), of plain] assms(4) by auto
qed

theorem shadow_long_write_drops_witness:
  "\<exists>st s'. shadow_new sample_crypto AES_128_GCM [1] (replicate 16 7) None (sample_socket []) = Inr st \<and>
    ss_send sample_crypto socket_layer (replicate 65537 42) st = (Inr (), s') \<and>
    sk_wBuf (sh_socket s') = replicate 16 7 @ seal_frames sample_crypto ''AES-128/GCM'' (subkey sample_crypto [1] (replicate 16 7))
      (replicate 12 0) (frames_of (take 65536 (replicate 65537 42)))"
proof -
  obtain st where st: "shadow_new sample_crypto AES_128_GCM [1] (replicate 16 7) None (sample_socket []) = Inr st"
      "sealing sk_ok ''AES-128/GCM'' (subkey sample_crypto [1] (replicate 16 7)) (replicate 12 0) st"
      "sh_socket st = sample_socket []" "en_salt (sh_enc st) = replicate 16 7"
    by (simp add: shadow_new_eq [OF sample_crypto_laws] sealing_def sample_socket_def sk_ok_def)
  from shadow_long_write_drops [OF sample_crypto_laws st(2), of "replicate 65537 42"] obtain s' where
    "ss_send sample_crypto socket_layer (replicate 65537 42) st = (Inr (), s')"
    "sk_wBuf (sh_socket s') = replicate 16 7 @ seal_frames sample_crypto ''AES-128/GCM'' (subkey sample_crypto [1] (replicate 16 7))
      (replicate 12 0) (frames_of (take 65536 (replicate 65537 42)))"
    unfolding st(3,4) by (simp only: length_replicate) (auto simp: sample_socket_def)
  with st(1) show ?thesis by (intro exI [of _ st] exI [of _ s']) simp
qed

end
