(* ===== verification/Pichi_Balancer.thy ===== *)
theory Pichi_Balancer
  imports Pichi_Ingress "HOL-Library.Multiset"
begin

text \<open>
  The balancers of tunnel ingresses (\<^verbatim>\<open>include/pichi/service/balancer.hpp\<close>,
  \<^verbatim>\<open>src/service/balancer.cpp\<close>): random choice, round robin and least connections, the variant that
  holds one of them, and the service that keeps them by ingress name.

  Every operation of a balancer runs on its strand, one after the other: \<open>select\<close> is the code after
  \<^verbatim>\<open>switch_to(strand_)\<close>, \<open>release\<close> is the function that is posted to it. Both are steps on the
  balancer's state.

  The least-connections balancer keeps a \<^verbatim>\<open>std::multimap\<close> from the number of connections to the
  position of the peer and, per position, the iterator of its node. A node has an address
  (\<open>nd_id\<close>), an iterator is an address, and using the address of a node that is gone is undefined.
  The invariant shows that this never happens.
\<close>

section \<open>Random choice\<close>

text \<open>
  \<open>rb_draw k b\<close> is the \<open>k\<close>-th number the generator yields through the distribution over
  \<^verbatim>\<open>[0, b]\<close>.
\<close>

record Random =
  rb_peers :: "Endpoint list"
  rb_draw :: "nat \<Rightarrow> nat \<Rightarrow> nat"
  rb_drawn :: nat

definition random_new :: "(nat \<Rightarrow> nat \<Rightarrow> nat) \<Rightarrow> TunnelOption \<Rightarrow> Random" where
  "random_new draw opt = \<lparr>rb_peers = tn_destinations opt, rb_draw = draw, rb_drawn = 0\<rparr>"

definition nth_checked :: "'a list \<Rightarrow> nat \<Rightarrow> 'a result" where
  "nth_checked xs i = (if i < length xs then Inr (xs ! i) else Inl UB)"

definition random_select :: "(Random, Endpoint) io" where
  "random_select s =
     (let i = rb_draw s (rb_drawn s) (unat (of_nat (length (rb_peers s)) - 1 :: size_t))
      in (nth_checked (rb_peers s) i, s\<lparr>rb_drawn := Suc (rb_drawn s)\<rparr>))"

definition random_release :: "Endpoint \<Rightarrow> (Random, unit) io" where
  "random_release peer s = (Inr (), s)"

section \<open>Round robin\<close>

record RoundRobin =
  rr_peers :: "Endpoint list"
  rr_pos :: size_t

definition rr_new :: "TunnelOption \<Rightarrow> RoundRobin" where
  "rr_new opt = \<lparr>rr_peers = tn_destinations opt, rr_pos = 0\<rparr>"

definition rr_select :: "(RoundRobin, Endpoint) io" where
  "rr_select s =
     (case nth_checked (rr_peers s) (unat (rr_pos s)) of
        Inl e \<Rightarrow> (Inl e, s)
      | Inr ret \<Rightarrow> (Inr ret, s\<lparr>rr_pos := (rr_pos s + 1) mod of_nat (length (rr_peers s))\<rparr>))"

definition rr_release :: "Endpoint \<Rightarrow> (RoundRobin, unit) io" where
  "rr_release peer s = (Inr (), s)"

section \<open>Least connections\<close>

record node =
  nd_id :: nat
  nd_conn :: size_t
  nd_pos :: nat

record LeastConn =
  lc_index :: "node list"
  lc_iters :: "nat \<Rightarrow> nat option"
  lc_peers :: "Endpoint list"
  lc_next :: nat

text \<open>\<^verbatim>\<open>multimap::emplace\<close>: behind all elements with the same key; the iterator is stored for \<open>pos\<close>.\<close>

definition insert_node :: "node \<Rightarrow> node list \<Rightarrow> node list" where
  "insert_node nd xs = takeWhile (\<lambda>x. nd_conn x \<le> nd_conn nd) xs @ [nd] @
     dropWhile (\<lambda>x. nd_conn x \<le> nd_conn nd) xs"

definition lc_emplace :: "size_t \<Rightarrow> nat \<Rightarrow> LeastConn \<Rightarrow> LeastConn" where
  "lc_emplace conn pos s =
     s\<lparr>lc_index := insert_node \<lparr>nd_id = lc_next s, nd_conn = conn, nd_pos = pos\<rparr> (lc_index s),
       lc_iters := (lc_iters s)(pos \<mapsto> lc_next s), lc_next := Suc (lc_next s)\<rparr>"

definition lc_erase :: "nat \<Rightarrow> LeastConn \<Rightarrow> LeastConn" where
  "lc_erase it s = s\<lparr>lc_index := filter (\<lambda>x. nd_id x \<noteq> it) (lc_index s)\<rparr>"

definition lc_deref :: "nat option \<Rightarrow> LeastConn \<Rightarrow> node result" where
  "lc_deref it s =
     (case it of
        None \<Rightarrow> Inl UB
      | Some a \<Rightarrow> (case find (\<lambda>x. nd_id x = a) (lc_index s) of None \<Rightarrow> Inl UB | Some nd \<Rightarrow> Inr nd))"

definition lc_new :: "TunnelOption \<Rightarrow> LeastConn" where
  "lc_new opt = foldl (\<lambda>s i. lc_emplace 0 i s)
     \<lparr>lc_index = [], lc_iters = Map.empty, lc_peers = tn_destinations opt, lc_next = 0\<rparr>
     [0..<length (tn_destinations opt)]"

definition lc_select :: "(LeastConn, Endpoint) io" where
  "lc_select s =
     (case lc_index s of
        [] \<Rightarrow> (Inl UB, s)
      | it # _ \<Rightarrow>
          (let conn = nd_conn it; pos = nd_pos it;
               s1 = lc_erase (nd_id it) s;
               s2 = lc_emplace (conn + 1) pos s1
           in (nth_checked (lc_peers s2) pos, s2)))"

text \<open>One turn of the loop of \<open>release\<close>, for position \<open>pos\<close>.\<close>

definition lc_release_at :: "Endpoint \<Rightarrow> nat \<Rightarrow> (LeastConn, unit) io" where
  "lc_release_at peer pos s =
     (if \<not> endpoint_eq (lc_peers s ! pos) peer then (Inr (), s)
      else case lc_deref (lc_iters s pos) s of
             Inl e \<Rightarrow> (Inl e, s)
           | Inr it \<Rightarrow> (Inr (), lc_emplace (nd_conn it - 1) pos (lc_erase (nd_id it) s)))"

fun lc_release_from :: "Endpoint \<Rightarrow> nat list \<Rightarrow> (LeastConn, unit) io" where
  "lc_release_from peer [] = ioret (Inr ())"
| "lc_release_from peer (pos # ps) = iobind (lc_release_at peer pos) (\<lambda>_. lc_release_from peer ps)"

definition lc_release :: "Endpoint \<Rightarrow> (LeastConn, unit) io" where
  "lc_release peer s = lc_release_from peer [0..<length (lc_peers s)] s"

section \<open>The balancer\<close>

datatype Balancer = B_Random Random | B_RoundRobin RoundRobin | B_LeastConn LeastConn

definition balancer_initialize :: "(nat \<Rightarrow> nat \<Rightarrow> nat) \<Rightarrow> IngressVO \<Rightarrow> Balancer result" where
  "balancer_initialize draw vo =
     rthen (assertTrue (in_type vo = TUNNEL) MISC '''')
    (rbind (deref (in_opt vo)) (\<lambda>o'. rbind (get_IO_Tunnel o') (\<lambda>opt.
     rthen (assertFalse (tn_destinations opt = []) MISC '''')
    (case tn_balance opt of
       BalanceType.RANDOM \<Rightarrow> Inr (B_Random (random_new draw opt))
     | ROUND_ROBIN \<Rightarrow> Inr (B_RoundRobin (rr_new opt))
     | LEAST_CONN \<Rightarrow> Inr (B_LeastConn (lc_new opt))))))"

fun balancer_select :: "(Balancer, Endpoint) io" where
  "balancer_select (B_Random s) = (let (r, s') = random_select s in (r, B_Random s'))"
| "balancer_select (B_RoundRobin s) = (let (r, s') = rr_select s in (r, B_RoundRobin s'))"
| "balancer_select (B_LeastConn s) = (let (r, s') = lc_select s in (r, B_LeastConn s'))"

fun balancer_release :: "Endpoint \<Rightarrow> (Balancer, unit) io" where
  "balancer_release peer (B_Random s) = (let (r, s') = random_release peer s in (r, B_Random s'))"
| "balancer_release peer (B_RoundRobin s) = (let (r, s') = rr_release peer s in (r, B_RoundRobin s'))"
| "balancer_release peer (B_LeastConn s) = (let (r, s') = lc_release peer s in (r, B_LeastConn s'))"

section \<open>The service\<close>

text \<open>
  The table maps a name to a shared pointer: an address in a store of balancers. A session keeps
  the pointer it got, so an entry that is replaced or erased does not take the balancer away.
\<close>

record balancer_service =
  bs_strand :: bool
  bs_table :: "nat value_map"
  bs_heap :: "Balancer list"

definition service_new :: balancer_service where
  "service_new = \<lparr>bs_strand = False, bs_table = [], bs_heap = []\<rparr>"

definition service_initialize :: "balancer_service \<Rightarrow> balancer_service" where
  "service_initialize s = s\<lparr>bs_strand := True\<rparr>"

definition service_create ::
  "(nat \<Rightarrow> nat \<Rightarrow> nat) \<Rightarrow> IngressVO \<Rightarrow> (balancer_service, unit) io" where
  "service_create draw vo s =
     (if \<not> bs_strand s then (Inl UB, s)
      else case balancer_initialize draw vo of
             Inl e \<Rightarrow> (Inl e, s)
           | Inr b \<Rightarrow> (Inr (), s\<lparr>bs_heap := bs_heap s @ [b],
                              bs_table := AList.update (in_name vo) (length (bs_heap s)) (bs_table s)\<rparr>))"

definition service_get :: "string \<Rightarrow> (balancer_service, nat) io" where
  "service_get name s =
     (if \<not> bs_strand s then (Inl UB, s)
      else (rthen (assertTrue (map_contains (bs_table s) name) MISC '''') (map_at (bs_table s) name), s))"

text \<open>\<^verbatim>\<open>remove\<close> posts the erasure to the strand, which must exist by then.\<close>

definition service_erase :: "string \<Rightarrow> balancer_service \<Rightarrow> balancer_service" where
  "service_erase name s = s\<lparr>bs_table := AList.delete name (bs_table s)\<rparr>"

definition service_remove :: "string \<Rightarrow> (balancer_service, unit) io" where
  "service_remove name s = (if \<not> bs_strand s then (Inl UB, s) else (Inr (), service_erase name s))"

definition service_shutdown :: "balancer_service \<Rightarrow> balancer_service" where
  "service_shutdown s = s\<lparr>bs_table := [], bs_strand := False\<rparr>"

definition create_balancer ::
  "(nat \<Rightarrow> nat \<Rightarrow> nat) \<Rightarrow> IngressVO \<Rightarrow> (balancer_service, unit) io" where
  "create_balancer draw vo s = service_create draw vo (service_initialize s)"

definition remove_balancer :: "string \<Rightarrow> (balancer_service, unit) io" where
  "remove_balancer name = service_remove name"

definition get_balancer :: "string \<Rightarrow> (balancer_service, nat) io" where
  "get_balancer name = service_get name"

section \<open>The contract of a balancer\<close>

text \<open>Any schedule of requests: \<open>None\<close> selects, \<open>Some ep\<close> gives \<open>ep\<close> back.\<close>

fun serve :: "('s, Endpoint) io \<Rightarrow> (Endpoint \<Rightarrow> ('s, unit) io) \<Rightarrow> Endpoint option list \<Rightarrow>
  ('s, Endpoint list) io" where
  "serve sel rel [] = ioret (Inr [])"
| "serve sel rel (None # ops) =
     iobind sel (\<lambda>ep. iobind (serve sel rel ops) (\<lambda>eps. ioret (Inr (ep # eps))))"
| "serve sel rel (Some ep # ops) = iobind (rel ep) (\<lambda>_. serve sel rel ops)"

text \<open>
  What a tunnel relies on: a balancer always has a peer to offer, one of the configured
  destinations, and giving a peer back cannot fail.
\<close>

locale balancer =
  fixes sel :: "('s, Endpoint) io"
    and rel :: "Endpoint \<Rightarrow> ('s, unit) io"
    and inv :: "'s \<Rightarrow> bool"
    and peers :: "'s \<Rightarrow> Endpoint list"
  assumes sel_ok: "inv s \<Longrightarrow>
      \<exists>ep s'. sel s = (Inr ep, s') \<and> ep \<in> set (peers s) \<and> inv s' \<and> peers s' = peers s"
    and rel_ok: "inv s \<Longrightarrow> \<exists>s'. rel ep s = (Inr (), s') \<and> inv s' \<and> peers s' = peers s"
begin

lemma serve_ok: "inv s \<Longrightarrow> \<exists>eps s'. serve sel rel ops s = (Inr eps, s') \<and>
  set eps \<subseteq> set (peers s) \<and> length eps = count_list ops None \<and> inv s' \<and> peers s' = peers s"
proof (induction ops arbitrary: s)
  case (Cons r ops)
  show ?case
  proof (cases r)
    case None
    obtain ep s1 where s1: "sel s = (Inr ep, s1)" "ep \<in> set (peers s)" "inv s1" "peers s1 = peers s"
      using sel_ok [OF Cons.prems] by blast
    obtain eps s2 where "serve sel rel ops s1 = (Inr eps, s2)" "set eps \<subseteq> set (peers s1)"
        "length eps = count_list ops None" "inv s2" "peers s2 = peers s1"
      using Cons.IH [OF s1(3)] by blast
    with s1 None show ?thesis by (simp add: iobind_def)
  next
    case (Some ep)
    obtain s1 where s1: "rel ep s = (Inr (), s1)" "inv s1" "peers s1 = peers s"
      using rel_ok [OF Cons.prems] by blast
    with Cons.IH [OF s1(2)] Some show ?thesis by (simp add: iobind_def)
  qed
qed simp

end

section \<open>Random choice and round robin\<close>

definition random_inv :: "Random \<Rightarrow> bool" where
  "random_inv s \<longleftrightarrow> rb_peers s \<noteq> [] \<and> length (rb_peers s) < 2 ^ 64 \<and> (\<forall>k b. rb_draw s k b \<le> b)"

lemma unat_length_pred: "0 < n \<Longrightarrow> n < 2 ^ 64 \<Longrightarrow> unat (of_nat n - 1 :: size_t) = n - 1"
proof -
  assume n: "0 < n" "n < 2 ^ 64"
  then have "(of_nat n - 1 :: size_t) = of_nat (n - 1)" by (cases n) simp_all
  then show ?thesis using n by (simp add: unat_of_nat del: of_nat_diff)
qed

interpretation rnd: balancer random_select random_release random_inv rb_peers
proof
  show "\<exists>ep s'. random_select s = (Inr ep, s') \<and> ep \<in> set (rb_peers s) \<and> random_inv s' \<and>
      rb_peers s' = rb_peers s" if inv: "random_inv s" for s
  proof -
    let ?n = "length (rb_peers s)"
    let ?b = "unat (of_nat ?n - 1 :: size_t)"
    have n: "0 < ?n" "?n < 2 ^ 64" using inv by (simp_all add: random_inv_def)
    then have "?b = ?n - 1" by (rule unat_length_pred)
    moreover have "rb_draw s (rb_drawn s) ?b \<le> ?b" using inv unfolding random_inv_def by blast
    ultimately have "rb_draw s (rb_drawn s) ?b < ?n" using n by linarith
    then show ?thesis using inv
      by (auto simp: random_select_def Let_def nth_checked_def random_inv_def)
  qed
qed (simp add: random_release_def)

definition rr_inv :: "RoundRobin \<Rightarrow> bool" where
  "rr_inv s \<longleftrightarrow> unat (rr_pos s) < length (rr_peers s) \<and> length (rr_peers s) < 2 ^ 64"

lemma unat_next_pos:
  assumes "unat (p :: size_t) < n" and "n < 2 ^ 64"
  shows "unat ((p + 1) mod of_nat n) = (unat p + 1) mod n"
proof -
  have "unat (p + 1) = unat p + 1"
    using assms by (subst unat_plus_simple [THEN iffD1]) (auto simp: word_le_nat_alt unat_word_ariths)
  moreover have "unat (of_nat n :: size_t) = n" using assms(2) by (simp add: unat_of_nat)
  ultimately show ?thesis by (simp add: unat_mod_distrib)
qed

lemma rr_select_ok: "rr_inv s \<Longrightarrow>
  \<exists>s'. rr_select s = (Inr (rr_peers s ! unat (rr_pos s)), s') \<and> rr_peers s' = rr_peers s \<and>
    unat (rr_pos s') = (unat (rr_pos s) + 1) mod length (rr_peers s) \<and> rr_inv s'"
  using unat_next_pos [of "rr_pos s" "length (rr_peers s)"]
  by (auto simp: rr_inv_def rr_select_def nth_checked_def intro!: mod_less_divisor)

interpretation rr: balancer rr_select rr_release rr_inv rr_peers
proof
  show "\<exists>ep s'. rr_select s = (Inr ep, s') \<and> ep \<in> set (rr_peers s) \<and> rr_inv s' \<and>
      rr_peers s' = rr_peers s" if "rr_inv s" for s
    using rr_select_ok [OF that] that by (auto simp: rr_inv_def)
qed (simp add: rr_release_def)

text \<open>Consecutive choices walk through the destinations in order, again and again.\<close>

fun rr_selects :: "nat \<Rightarrow> (RoundRobin, Endpoint list) io" where
  "rr_selects 0 = ioret (Inr [])"
| "rr_selects (Suc n) = iobind rr_select (\<lambda>ep. iobind (rr_selects n) (\<lambda>eps. ioret (Inr (ep # eps))))"

lemma rr_selects_ok: "rr_inv s \<Longrightarrow>
  \<exists>s'. rr_selects n s =
    (Inr (map (\<lambda>k. rr_peers s ! ((unat (rr_pos s) + k) mod length (rr_peers s))) [0..<n]), s')"
proof (induction n arbitrary: s)
  case (Suc n)
  let ?N = "length (rr_peers s)"
  obtain s1 where s1: "rr_select s = (Inr (rr_peers s ! unat (rr_pos s)), s1)"
      "rr_peers s1 = rr_peers s" "unat (rr_pos s1) = (unat (rr_pos s) + 1) mod ?N" "rr_inv s1"
    using rr_select_ok [OF Suc.prems] by blast
  obtain s2 where "rr_selects n s1 =
      (Inr (map (\<lambda>k. rr_peers s ! (((unat (rr_pos s) + 1) mod ?N + k) mod ?N)) [0..<n]), s2)"
    using Suc.IH [OF s1(4)] s1 by auto
  moreover have "((unat (rr_pos s) + 1) mod ?N + k) mod ?N = (unat (rr_pos s) + Suc k) mod ?N" for k
    by (simp add: mod_simps)
  moreover have "unat (rr_pos s) mod ?N = unat (rr_pos s)"
    using Suc.prems by (simp add: rr_inv_def)
  ultimately show ?case using s1(1)
    by (simp add: iobind_def upt_conv_Cons map_Suc_upt [symmetric] comp_def del: upt_Suc)
qed simp

section \<open>Least connections\<close>

text \<open>Every position has exactly one node, the nodes are sorted, and every iterator is valid.\<close>

definition lc_inv :: "LeastConn \<Rightarrow> bool" where
  "lc_inv s \<longleftrightarrow>
     mset (map nd_pos (lc_index s)) = mset [0..<length (lc_peers s)] \<and>
     distinct (map nd_id (lc_index s)) \<and> (\<forall>x \<in> set (lc_index s). nd_id x < lc_next s) \<and>
     sorted_wrt (\<lambda>x y. nd_conn x \<le> nd_conn y) (lc_index s) \<and>
     (\<forall>x \<in> set (lc_index s). lc_iters s (nd_pos x) = Some (nd_id x))"

text \<open>The abstract state: the number of connections per position.\<close>

definition lc_counts :: "LeastConn \<Rightarrow> nat \<rightharpoonup> size_t" where
  "lc_counts s = map_of (map (\<lambda>x. (nd_pos x, nd_conn x)) (lc_index s))"

lemma set_insert_node [simp]: "set (insert_node nd xs) = insert nd (set xs)"
  unfolding insert_node_def by (metis Un_insert_right append_Cons append_Nil list.simps(15) set_append takeWhile_dropWhile_id)

lemma mset_insert_node: "mset (insert_node nd xs) = add_mset nd (mset xs)"
proof -
  have "mset xs = mset (takeWhile (\<lambda>x. nd_conn x \<le> nd_conn nd) xs) +
      mset (dropWhile (\<lambda>x. nd_conn x \<le> nd_conn nd) xs)"
    by (metis mset_append takeWhile_dropWhile_id)
  then show ?thesis by (simp add: insert_node_def)
qed

lemma sorted_insert_node: "sorted_wrt (\<lambda>x y. nd_conn x \<le> nd_conn y) xs \<Longrightarrow>
  sorted_wrt (\<lambda>x y. nd_conn x \<le> nd_conn y) (insert_node nd xs)"
proof (induction xs)
  case (Cons x xs)
  have eq: "insert_node nd (x # xs) =
      (if nd_conn x \<le> nd_conn nd then x # insert_node nd xs else nd # x # xs)"
    by (simp add: insert_node_def)
  show ?case using Cons by (auto simp: eq)
qed (simp add: insert_node_def)

text \<open>Moving the node of one position to a new count keeps the invariant.\<close>

lemma lc_move:
  assumes inv: "lc_inv s" and nd: "nd \<in> set (lc_index s)"
    and s': "s' = lc_emplace c (nd_pos nd) (lc_erase (nd_id nd) s)"
  shows "lc_inv s'" and "lc_counts s' = (lc_counts s)(nd_pos nd \<mapsto> c)" and "lc_peers s' = lc_peers s"
proof -
  let ?f = "filter (\<lambda>x. nd_id x \<noteq> nd_id nd) (lc_index s)"
  let ?nd = "\<lparr>nd_id = lc_next s, nd_conn = c, nd_pos = nd_pos nd\<rparr>"
  have idx: "lc_index s' = insert_node ?nd ?f" by (simp add: s' lc_emplace_def lc_erase_def)
  have rest: "lc_iters s' = (lc_iters s)(nd_pos nd \<mapsto> lc_next s)" "lc_next s' = Suc (lc_next s)"
    "lc_peers s' = lc_peers s" by (simp_all add: s' lc_emplace_def lc_erase_def)
  have ids: "distinct (map nd_id (lc_index s))" and lt: "\<forall>x \<in> set (lc_index s). nd_id x < lc_next s"
    and pos: "mset (map nd_pos (lc_index s)) = mset [0..<length (lc_peers s)]"
    and it: "\<forall>x \<in> set (lc_index s). lc_iters s (nd_pos x) = Some (nd_id x)"
    and srt: "sorted_wrt (\<lambda>x y. nd_conn x \<le> nd_conn y) (lc_index s)"
    using inv by (simp_all add: lc_inv_def)
  have dpos: "distinct (map nd_pos (lc_index s))"
    using pos by (metis distinct_upt mset_eq_imp_distinct_iff)
  have only: "x = nd" if "x \<in> set (lc_index s)" "nd_id x = nd_id nd" for x
    using ids nd that by (metis distinct_map inj_onD)
  have onlyp: "x = nd" if "x \<in> set (lc_index s)" "nd_pos x = nd_pos nd" for x
    using dpos nd that by (metis distinct_map inj_onD)
  have split: "mset (lc_index s) = add_mset nd (mset ?f)"
  proof -
    have "?f = filter (\<lambda>x. nd \<noteq> x) (lc_index s)"
      by (rule filter_cong) (auto dest: only)
    also have "\<dots> = remove1 nd (lc_index s)"
      using ids by (simp add: distinct_remove1_removeAll removeAll_filter_not_eq distinct_map)
    finally have "mset ?f = mset (lc_index s) - {#nd#}" by simp
    then show ?thesis using nd by simp
  qed
  show "lc_peers s' = lc_peers s" by (fact rest)
  show "lc_inv s'" unfolding lc_inv_def
  proof (intro conjI)
    have "mset (map nd_pos (lc_index s')) = mset (map nd_pos (lc_index s))"
      unfolding idx mset_map mset_insert_node split by simp
    then show "mset (map nd_pos (lc_index s')) = mset [0..<length (lc_peers s')]"
      using pos rest by simp
    have "mset (map nd_id (lc_index s')) = mset (lc_next s # map nd_id ?f)"
      unfolding idx mset_map mset_insert_node by simp
    moreover have "distinct (lc_next s # map nd_id ?f)"
      using ids lt by (auto simp: distinct_map inj_on_def)
    ultimately show "distinct (map nd_id (lc_index s'))" by (metis mset_eq_imp_distinct_iff)
    show "\<forall>x \<in> set (lc_index s'). nd_id x < lc_next s'" using lt by (auto simp: idx rest)
    show "sorted_wrt (\<lambda>x y. nd_conn x \<le> nd_conn y) (lc_index s')"
      unfolding idx by (intro sorted_insert_node sorted_wrt_filter srt)
    show "\<forall>x \<in> set (lc_index s'). lc_iters s' (nd_pos x) = Some (nd_id x)"
      using it onlyp by (auto simp: idx rest)
  qed
  then have "distinct (map nd_pos (lc_index s'))"
    by (metis distinct_upt lc_inv_def mset_eq_imp_distinct_iff)
  then show "lc_counts s' = (lc_counts s)(nd_pos nd \<mapsto> c)"
  proof -
    assume d: "distinct (map nd_pos (lc_index s'))"
    have "lc_counts s' p = ((lc_counts s)(nd_pos nd \<mapsto> c)) p" for p
    proof (cases "p = nd_pos nd")
      case True
      have "lc_counts s' p = Some c"
        unfolding lc_counts_def using d by (intro map_of_is_SomeI) (auto simp: idx True comp_def)
      then show ?thesis using True by simp
    next
      case False
      have "(p, n) \<in> (\<lambda>x. (nd_pos x, nd_conn x)) ` set (lc_index s') \<longleftrightarrow>
          (p, n) \<in> (\<lambda>x. (nd_pos x, nd_conn x)) ` set (lc_index s)" for n
        using False only by (auto simp: idx)
      then have "lc_counts s' p = Some n \<longleftrightarrow> lc_counts s p = Some n" for n
        using d dpos by (simp add: lc_counts_def map_of_eq_Some_iff comp_def)
      then show ?thesis using False by (metis fun_upd_other not_None_eq)
    qed
    then show ?thesis ..
  qed
qed

lemma lc_inv_distinct: "lc_inv s \<Longrightarrow> distinct (map nd_pos (lc_index s))"
  by (metis distinct_upt lc_inv_def mset_eq_imp_distinct_iff)

lemma lc_inv_positions: "lc_inv s \<Longrightarrow> nd_pos ` set (lc_index s) = {..<length (lc_peers s)}"
proof -
  assume "lc_inv s"
  then have "set (map nd_pos (lc_index s)) = set [0..<length (lc_peers s)]"
    unfolding lc_inv_def by (metis mset_eq_setD)
  then show ?thesis by (simp add: atLeast0LessThan)
qed

lemma lc_counts_Some: "lc_inv s \<Longrightarrow>
  lc_counts s p = Some c \<longleftrightarrow> (\<exists>x \<in> set (lc_index s). nd_pos x = p \<and> nd_conn x = c)"
  using lc_inv_distinct [of s] by (auto simp: lc_counts_def map_of_eq_Some_iff comp_def)

lemma lc_select_ok:
  assumes inv: "lc_inv s" and ne: "lc_peers s \<noteq> []"
  shows "\<exists>pos c s'. lc_select s = (Inr (lc_peers s ! pos), s') \<and> pos < length (lc_peers s) \<and>
    lc_counts s pos = Some c \<and> (\<forall>p n. lc_counts s p = Some n \<longrightarrow> c \<le> n) \<and>
    lc_counts s' = (lc_counts s)(pos \<mapsto> c + 1) \<and> lc_inv s' \<and> lc_peers s' = lc_peers s"
proof -
  obtain it rest where idx: "lc_index s = it # rest"
    using lc_inv_positions [OF inv] ne by (cases "lc_index s") auto
  let ?s' = "lc_emplace (nd_conn it + 1) (nd_pos it) (lc_erase (nd_id it) s)"
  have it: "it \<in> set (lc_index s)" by (simp add: idx)
  have pos: "nd_pos it < length (lc_peers s)" using lc_inv_positions [OF inv] it by blast
  have "nd_conn it \<le> nd_conn x" if "x \<in> set (lc_index s)" for x
    using inv that by (auto simp: lc_inv_def idx)
  then have "\<forall>p n. lc_counts s p = Some n \<longrightarrow> nd_conn it \<le> n"
    by (auto simp: lc_counts_Some [OF inv])
  moreover have "lc_counts s (nd_pos it) = Some (nd_conn it)"
    using it by (auto simp: lc_counts_Some [OF inv])
  moreover have "lc_select s = (Inr (lc_peers s ! nd_pos it), ?s')"
    using pos by (simp add: lc_select_def idx Let_def nth_checked_def lc_emplace_def lc_erase_def)
  ultimately show ?thesis using lc_move [OF inv it refl] pos by blast
qed

lemma lc_deref_ok:
  assumes inv: "lc_inv s" and pos: "pos < length (lc_peers s)"
  shows "\<exists>nd. lc_deref (lc_iters s pos) s = Inr nd \<and> nd \<in> set (lc_index s) \<and> nd_pos nd = pos \<and>
    lc_counts s pos = Some (nd_conn nd)"
proof -
  have "pos \<in> nd_pos ` set (lc_index s)" using lc_inv_positions [OF inv] pos by simp
  then obtain nd where nd: "nd \<in> set (lc_index s)" "nd_pos nd = pos" by auto
  have ids: "inj_on nd_id (set (lc_index s))"
    and its: "\<forall>x \<in> set (lc_index s). lc_iters s (nd_pos x) = Some (nd_id x)"
    using inv by (simp_all add: lc_inv_def distinct_map)
  have "lc_iters s pos = Some (nd_id nd)" using bspec [OF its nd(1)] nd(2) by simp
  moreover have "find (\<lambda>x. nd_id x = nd_id nd) (lc_index s) = Some nd"
  proof (cases "find (\<lambda>x. nd_id x = nd_id nd) (lc_index s)")
    case None
    then show ?thesis using nd(1) by (auto simp: find_None_iff)
  next
    case (Some y)
    then have "y \<in> set (lc_index s)" "nd_id y = nd_id nd" by (auto simp: find_Some_iff)
    then have "y = nd" using inj_onD [OF ids _ _ nd(1)] by blast
    with Some show ?thesis by simp
  qed
  ultimately show ?thesis using nd by (auto simp: lc_deref_def lc_counts_Some [OF inv])
qed

definition lower_counts :: "(nat \<Rightarrow> bool) \<Rightarrow> (nat \<rightharpoonup> size_t) \<Rightarrow> nat \<rightharpoonup> size_t" where
  "lower_counts P m p = (if P p then map_option (\<lambda>c. c - 1) (m p) else m p)"

lemma lc_release_at_ok:
  assumes inv: "lc_inv s" and pos: "pos < length (lc_peers s)"
  shows "\<exists>s'. lc_release_at peer pos s = (Inr (), s') \<and> lc_inv s' \<and> lc_peers s' = lc_peers s \<and>
    lc_counts s' = lower_counts (\<lambda>p. p = pos \<and> lc_peers s ! p = peer) (lc_counts s)"
proof (cases "lc_peers s ! pos = peer")
  case False
  then have "lower_counts (\<lambda>p. p = pos \<and> lc_peers s ! p = peer) (lc_counts s) = lc_counts s"
    by (auto simp: lower_counts_def)
  then show ?thesis using False inv by (simp add: lc_release_at_def endpoint_eq_iff)
next
  case True
  obtain nd where nd: "lc_deref (lc_iters s pos) s = Inr nd" "nd \<in> set (lc_index s)"
      "nd_pos nd = pos" "lc_counts s pos = Some (nd_conn nd)"
    using lc_deref_ok [OF assms] by blast
  have "(lc_counts s)(pos \<mapsto> nd_conn nd - 1) =
      lower_counts (\<lambda>p. p = pos \<and> lc_peers s ! p = peer) (lc_counts s)"
    using True nd(4) by (auto simp: lower_counts_def)
  then show ?thesis using True nd lc_move [OF inv nd(2) refl]
    by (simp add: lc_release_at_def endpoint_eq_iff)
qed

lemma lc_release_from_ok:
  assumes "lc_inv s" and "distinct ps" and "set ps \<subseteq> {..<length (lc_peers s)}"
  shows "\<exists>s'. lc_release_from peer ps s = (Inr (), s') \<and> lc_inv s' \<and> lc_peers s' = lc_peers s \<and>
    lc_counts s' = lower_counts (\<lambda>p. p \<in> set ps \<and> lc_peers s ! p = peer) (lc_counts s)"
  using assms
proof (induction ps arbitrary: s)
  case (Cons pos ps)
  have pos: "pos < length (lc_peers s)" using Cons.prems by auto
  obtain s1 where s1: "lc_release_at peer pos s = (Inr (), s1)" "lc_inv s1"
      "lc_peers s1 = lc_peers s"
      "lc_counts s1 = lower_counts (\<lambda>p. p = pos \<and> lc_peers s ! p = peer) (lc_counts s)"
    using lc_release_at_ok [OF Cons.prems(1) pos] by blast
  obtain s2 where s2: "lc_release_from peer ps s1 = (Inr (), s2)" "lc_inv s2"
      "lc_peers s2 = lc_peers s"
      "lc_counts s2 = lower_counts (\<lambda>p. p \<in> set ps \<and> lc_peers s ! p = peer) (lc_counts s1)"
    using Cons.IH [OF s1(2)] Cons.prems s1(3) by auto
  have "lc_counts s2 = lower_counts (\<lambda>p. p \<in> set (pos # ps) \<and> lc_peers s ! p = peer) (lc_counts s)"
    using Cons.prems(2) by (auto simp: s2(4) s1(4) lower_counts_def)
  then show ?case using s1 s2 by (simp add: iobind_def)
qed (auto simp: lower_counts_def)

lemma lc_release_ok:
  assumes inv: "lc_inv s"
  shows "\<exists>s'. lc_release peer s = (Inr (), s') \<and> lc_inv s' \<and> lc_peers s' = lc_peers s \<and>
    lc_counts s' = lower_counts (\<lambda>p. p < length (lc_peers s) \<and> lc_peers s ! p = peer) (lc_counts s)"
  using lc_release_from_ok [OF inv, of "[0..<length (lc_peers s)]"]
  by (simp add: lc_release_def atLeast0LessThan)

interpretation lc: balancer lc_select lc_release "\<lambda>s. lc_inv s \<and> lc_peers s \<noteq> []" lc_peers
proof
  show "\<exists>ep s'. lc_select s = (Inr ep, s') \<and> ep \<in> set (lc_peers s) \<and>
      (lc_inv s' \<and> lc_peers s' \<noteq> []) \<and> lc_peers s' = lc_peers s" if "lc_inv s \<and> lc_peers s \<noteq> []" for s
    using lc_select_ok [of s] that by (metis nth_mem)
  show "\<exists>s'. lc_release ep s = (Inr (), s') \<and> (lc_inv s' \<and> lc_peers s' \<noteq> []) \<and>
      lc_peers s' = lc_peers s" if "lc_inv s \<and> lc_peers s \<noteq> []" for s ep
    using lc_release_ok [of s ep] that by auto
qed

subsection \<open>A new balancer\<close>

definition lc_start :: "TunnelOption \<Rightarrow> nat \<Rightarrow> LeastConn" where
  "lc_start opt k = foldl (\<lambda>s i. lc_emplace 0 i s)
     \<lparr>lc_index = [], lc_iters = Map.empty, lc_peers = tn_destinations opt, lc_next = 0\<rparr> [0..<k]"

lemma lc_start_shape:
  "lc_index (lc_start opt k) = map (\<lambda>i. \<lparr>nd_id = i, nd_conn = 0, nd_pos = i\<rparr>) [0..<k] \<and>
   lc_iters (lc_start opt k) = (\<lambda>p. if p < k then Some p else None) \<and>
   lc_peers (lc_start opt k) = tn_destinations opt \<and> lc_next (lc_start opt k) = k"
proof (induction k)
  case (Suc k)
  have "takeWhile (\<lambda>x. nd_conn x \<le> 0) (map (\<lambda>i. \<lparr>nd_id = i, nd_conn = 0, nd_pos = i\<rparr>) xs) =
      map (\<lambda>i. \<lparr>nd_id = i, nd_conn = 0, nd_pos = i\<rparr>) xs"
    "dropWhile (\<lambda>x. nd_conn x \<le> 0) (map (\<lambda>i. \<lparr>nd_id = i, nd_conn = 0, nd_pos = i\<rparr>) xs) = []" for xs
    by (induction xs) simp_all
  then show ?case using Suc
    by (auto simp: lc_start_def lc_emplace_def insert_node_def)
qed (simp add: lc_start_def)

lemma lc_new_start: "lc_new opt = lc_start opt (length (tn_destinations opt))"
  by (simp add: lc_new_def lc_start_def)

lemma lc_new_inv: "lc_inv (lc_new opt)" "lc_peers (lc_new opt) = tn_destinations opt"
  using lc_start_shape [of opt "length (tn_destinations opt)"]
  by (auto simp: lc_new_start lc_inv_def comp_def sorted_wrt_map sorted_wrt_true
      intro: sorted_wrt_mono_rel [OF _ sorted_wrt_upt])

lemma lc_new_counts:
  "lc_counts (lc_new opt) p = (if p < length (tn_destinations opt) then Some 0 else None)"
proof -
  have "lc_counts (lc_new opt) = map_of (map (\<lambda>i. (i, 0)) [0..<length (tn_destinations opt)])"
    using lc_start_shape [of opt "length (tn_destinations opt)"]
    by (simp add: lc_counts_def lc_new_start comp_def)
  then show ?thesis by (simp add: map_of_map_restrict restrict_map_def)
qed

section \<open>The balancer of an ingress\<close>

fun balancer_inv :: "Balancer \<Rightarrow> bool" where
  "balancer_inv (B_Random s) = random_inv s"
| "balancer_inv (B_RoundRobin s) = rr_inv s"
| "balancer_inv (B_LeastConn s) = (lc_inv s \<and> lc_peers s \<noteq> [])"

fun balancer_peers :: "Balancer \<Rightarrow> Endpoint list" where
  "balancer_peers (B_Random s) = rb_peers s"
| "balancer_peers (B_RoundRobin s) = rr_peers s"
| "balancer_peers (B_LeastConn s) = lc_peers s"

interpretation bal: balancer balancer_select balancer_release balancer_inv balancer_peers
proof
  show "\<exists>ep b'. balancer_select b = (Inr ep, b') \<and> ep \<in> set (balancer_peers b) \<and>
      balancer_inv b' \<and> balancer_peers b' = balancer_peers b" if "balancer_inv b" for b
  proof (cases b)
    case (B_Random s)
    then show ?thesis using rnd.sel_ok [of s] that by auto
  next
    case (B_RoundRobin s)
    then show ?thesis using rr.sel_ok [of s] that by auto
  next
    case (B_LeastConn s)
    then show ?thesis using lc.sel_ok [of s] that by auto
  qed
  show "\<exists>b'. balancer_release ep b = (Inr (), b') \<and> balancer_inv b' \<and>
      balancer_peers b' = balancer_peers b" if "balancer_inv b" for b ep
  proof (cases b)
    case (B_Random s)
    then show ?thesis using rnd.rel_ok [of s ep] that by auto
  next
    case (B_RoundRobin s)
    then show ?thesis using rr.rel_ok [of s ep] that by auto
  next
    case (B_LeastConn s)
    then show ?thesis using lc.rel_ok [of s ep] that by auto
  qed
qed

lemma balancer_initialize_ok:
  assumes "wf_Ingress ip vo" and "in_type vo = TUNNEL" and "\<forall>k b. draw k b \<le> b"
    and "in_opt vo = Some (IO_Tunnel opt)" and "length (tn_destinations opt) < 2 ^ 64"
  shows "\<exists>b. balancer_initialize draw vo = Inr b \<and> balancer_inv b \<and>
    balancer_peers b = tn_destinations opt"
proof -
  have "wf_TunnelOption ip opt"
    using wf_Ingress_TUNNEL [OF assms(1,2)] assms(4) by auto
  then have ne: "tn_destinations opt \<noteq> []" by (simp add: wf_TunnelOption_def)
  have init: "balancer_initialize draw vo = (case tn_balance opt of
       BalanceType.RANDOM \<Rightarrow> Inr (B_Random (random_new draw opt))
     | ROUND_ROBIN \<Rightarrow> Inr (B_RoundRobin (rr_new opt))
     | LEAST_CONN \<Rightarrow> Inr (B_LeastConn (lc_new opt)))"
    using assms(2,4) ne by (simp add: balancer_initialize_def)
  have "random_inv (random_new draw opt)" "rr_inv (rr_new opt)"
    using assms(3,5) ne by (simp_all add: random_inv_def random_new_def rr_inv_def rr_new_def)
  then show ?thesis using ne lc_new_inv [of opt]
    by (cases "tn_balance opt") (simp_all add: init random_new_def rr_new_def)
qed

section \<open>Outstanding connections\<close>

text \<open>
  The runs of a least-connections balancer with the multiset of the peers that are handed out and
  not yet given back. Only a peer that was handed out is given back, as the tunnel does, and there
  are fewer connections than a \<^verbatim>\<open>size_t\<close> counts.
\<close>

inductive lc_run :: "TunnelOption \<Rightarrow> LeastConn \<Rightarrow> Endpoint multiset \<Rightarrow> bool" for opt where
  start: "lc_run opt (lc_new opt) {#}"
| select: "lc_run opt s M \<Longrightarrow> size M < 2 ^ 64 - 1 \<Longrightarrow> lc_select s = (Inr ep, s') \<Longrightarrow>
    lc_run opt s' (add_mset ep M)"
| release: "lc_run opt s M \<Longrightarrow> ep \<in># M \<Longrightarrow> lc_release ep s = (Inr (), s') \<Longrightarrow>
    lc_run opt s' (M - {#ep#})"

definition lc_tracks :: "TunnelOption \<Rightarrow> LeastConn \<Rightarrow> Endpoint multiset \<Rightarrow> bool" where
  "lc_tracks opt s M \<longleftrightarrow> lc_inv s \<and> lc_peers s = tn_destinations opt \<and>
     (\<forall>p < length (tn_destinations opt).
        \<exists>c. lc_counts s p = Some c \<and> unat c = count M (tn_destinations opt ! p))"

lemma unat_Suc_word: "unat (c :: size_t) < 2 ^ 64 - 1 \<Longrightarrow> unat (c + 1) = unat c + 1"
  by (simp add: unat_word_ariths)

lemma unat_pred_word: "0 < unat (c :: size_t) \<Longrightarrow> unat (c - 1) = unat c - 1"
  by (metis One_nat_def unat_gt_0 unat_minus_one)

lemma lc_run_tracks:
  assumes run: "lc_run opt s M" and d: "distinct (tn_destinations opt)" "tn_destinations opt \<noteq> []"
  shows "lc_tracks opt s M"
  using run
proof (induction rule: lc_run.induct)
  case start
  show ?case using lc_new_inv [of opt] by (simp add: lc_tracks_def lc_new_counts)
next
  case (select s M ep s')
  then have inv: "lc_inv s" and ps: "lc_peers s = tn_destinations opt" by (auto simp: lc_tracks_def)
  obtain pos c where r: "ep = tn_destinations opt ! pos" "pos < length (tn_destinations opt)"
      "lc_counts s pos = Some c" "lc_counts s' = (lc_counts s)(pos \<mapsto> c + 1)" "lc_inv s'"
      "lc_peers s' = tn_destinations opt"
    using lc_select_ok [OF inv] select.hyps(3) d(2) ps by auto
  have "unat c \<le> size M"
    using select.IH r by (auto simp: lc_tracks_def count_le_size dest!: spec [of _ pos])
  then have "unat (c + 1) = unat c + 1" using select.hyps(2) by (intro unat_Suc_word) simp
  then show ?case
    using select.IH r d(1) by (auto simp: lc_tracks_def nth_eq_iff_index_eq)
next
  case (release s M ep s')
  then have inv: "lc_inv s" and ps: "lc_peers s = tn_destinations opt" by (auto simp: lc_tracks_def)
  have s': "lc_inv s'" "lc_peers s' = tn_destinations opt" "lc_counts s' =
      lower_counts (\<lambda>p. p < length (tn_destinations opt) \<and> tn_destinations opt ! p = ep) (lc_counts s)"
    using lc_release_ok [OF inv, of ep] release.hyps(3) ps by auto
  have "unat (c - 1) = unat c - 1" if "unat c = count M ep" for c :: size_t
    using that release.hyps(2) by (intro unat_pred_word) simp
  then show ?case
    using release.IH s' by (fastforce simp: lc_tracks_def lower_counts_def)
qed

lemma lc_run_minimal:
  assumes run: "lc_run opt s M" and d: "distinct (tn_destinations opt)" "tn_destinations opt \<noteq> []"
  shows "\<exists>ep s'. lc_select s = (Inr ep, s') \<and> ep \<in> set (tn_destinations opt) \<and>
    (\<forall>ep' \<in> set (tn_destinations opt). count M ep \<le> count M ep')"
proof -
  have tr: "lc_inv s" "lc_peers s = tn_destinations opt"
    "\<And>p. p < length (tn_destinations opt) \<Longrightarrow>
       \<exists>c. lc_counts s p = Some c \<and> unat c = count M (tn_destinations opt ! p)"
    using lc_run_tracks [OF assms] by (auto simp: lc_tracks_def)
  obtain pos c s' where sel: "lc_select s = (Inr (tn_destinations opt ! pos), s')"
      "pos < length (tn_destinations opt)" "lc_counts s pos = Some c"
      "\<forall>p n. lc_counts s p = Some n \<longrightarrow> c \<le> n"
    using lc_select_ok [OF tr(1)] d(2) tr(2) by auto
  have "count M (tn_destinations opt ! pos) \<le> count M ep'" if ep': "ep' \<in> set (tn_destinations opt)" for ep'
  proof -
    obtain p where p: "p < length (tn_destinations opt)" "ep' = tn_destinations opt ! p"
      using ep' by (metis in_set_conv_nth)
    obtain n where n: "lc_counts s p = Some n" "unat n = count M ep'" using tr(3) [OF p(1)] p(2) by auto
    moreover have "unat c = count M (tn_destinations opt ! pos)" using tr(3) [OF sel(2)] sel(3) by auto
    moreover have "c \<le> n" using sel(4) n(1) by blast
    ultimately show ?thesis by (metis word_le_nat_alt)
  qed
  with sel show ?thesis by auto
qed

section \<open>Properties\<close>

definition sample_peer :: "char \<Rightarrow> Endpoint" where
  "sample_peer c = \<lparr>ep_type = DOMAIN_NAME, ep_host = [c], ep_port = 80\<rparr>"

definition sample_tunnel :: TunnelOption where
  "sample_tunnel = \<lparr>tn_destinations = [sample_peer CHR ''a'', sample_peer CHR ''b''], tn_balance = LEAST_CONN\<rparr>"

text \<open>
  C12: A tunnel ingress that the API accepted always gets its balancer, and then every schedule of
  selections and releases is served: each selection yields one of the configured destinations and
  nothing ever fails. In particular no iterator of the least-connections index is used after its
  node is gone.
\<close>

theorem tunnel_always_served:
  assumes "parse_Ingress ip v = Inr vo" and "in_type vo = TUNNEL"
    and "in_opt vo = Some (IO_Tunnel opt)" and "length (tn_destinations opt) < 2 ^ 64"
    and "\<forall>k b. draw k b \<le> b"
  shows "\<exists>b. balancer_initialize draw vo = Inr b \<and>
    (\<forall>ops. \<exists>eps b'. serve balancer_select balancer_release ops b = (Inr eps, b') \<and>
       set eps \<subseteq> set (tn_destinations opt) \<and> length eps = count_list ops None)"
proof -
  obtain b where b: "balancer_initialize draw vo = Inr b" "balancer_inv b"
      "balancer_peers b = tn_destinations opt"
    using balancer_initialize_ok [OF ingress.parse_wf [OF assms(1)] assms(2,5,3,4)] by blast
  have "\<exists>eps b'. serve balancer_select balancer_release ops b = (Inr eps, b') \<and>
      set eps \<subseteq> set (tn_destinations opt) \<and> length eps = count_list ops None" for ops
    using bal.serve_ok [OF b(2), of ops] b(3) by auto
  with b(1) show ?thesis by blast
qed

definition sample_tunnel_json :: json where
  "sample_tunnel_json = JObject
     [(ingress_TYPE, JString ''tunnel''),
      (ingress_BIND, JArray [JObject [(endpoint_HOST, JString ''127.0.0.1''), (endpoint_PORT, JInt 1080)]]),
      (ingress_OPTION, JObject
         [(option_DESTINATIONS, JArray
             [JObject [(endpoint_HOST, JString ''a''), (endpoint_PORT, JInt 80)],
              JObject [(endpoint_HOST, JString ''b''), (endpoint_PORT, JInt 80)]]),
          (option_BALANCE, JString ''least_conn'')])]"

lemma sample_tunnel_parses: "parse_Ingress sample_ip sample_tunnel_json = Inr
  ((empty_ingress TUNNEL [\<lparr>ep_type = IPV4, ep_host = ''127.0.0.1'', ep_port = 1080\<rparr>])
     \<lparr>in_opt := Some (IO_Tunnel sample_tunnel)\<rparr>)"
  by code_simp

theorem tunnel_always_served_witness:
  "\<exists>b. balancer_initialize (\<lambda>_ _. 0)
      ((empty_ingress TUNNEL [\<lparr>ep_type = IPV4, ep_host = ''127.0.0.1'', ep_port = 1080\<rparr>])
         \<lparr>in_opt := Some (IO_Tunnel sample_tunnel)\<rparr>) = Inr b \<and>
    (\<forall>ops. \<exists>eps b'. serve balancer_select balancer_release ops b = (Inr eps, b') \<and>
       set eps \<subseteq> set (tn_destinations sample_tunnel) \<and> length eps = count_list ops None)"
  using tunnel_always_served [OF sample_tunnel_parses, of sample_tunnel "\<lambda>_ _. 0"]
  by (simp add: empty_ingress_def sample_tunnel_def)

text \<open>
  Round robin is fair: starting anywhere, \<open>n\<close> consecutive selections are the destinations in
  cyclic order, so that among any \<open>N\<close> consecutive ones each of the \<open>N\<close> positions occurs once.
\<close>

theorem round_robin_cyclic:
  assumes "rr_inv s"
  shows "fst (rr_selects n s) =
    Inr (map (\<lambda>k. rr_peers s ! ((unat (rr_pos s) + k) mod length (rr_peers s))) [0..<n])"
  using rr_selects_ok [OF assms, of n] by auto

theorem round_robin_cyclic_witness:
  "fst (rr_selects 3 (rr_new sample_tunnel)) =
    Inr [sample_peer CHR ''a'', sample_peer CHR ''b'', sample_peer CHR ''a'']"
proof -
  have "rr_inv (rr_new sample_tunnel)" by (simp add: rr_inv_def rr_new_def sample_tunnel_def)
  from round_robin_cyclic [OF this, of 3] show ?thesis
    by (simp add: rr_new_def sample_tunnel_def upt_rec numeral_3_eq_3)
qed

text \<open>
  C13: The least-connections balancer does what its name says. With pairwise different destinations,
  after any run of selections and releases its counters are the numbers of connections handed out
  and not yet given back, and a selection yields a destination with the fewest of them.
\<close>

theorem least_conn_minimal:
  assumes "lc_run opt s M" and "distinct (tn_destinations opt)" and "tn_destinations opt \<noteq> []"
  shows "\<exists>ep s'. lc_select s = (Inr ep, s') \<and> ep \<in> set (tn_destinations opt) \<and>
    (\<forall>ep' \<in> set (tn_destinations opt). count M ep \<le> count M ep') \<and>
    (\<forall>p < length (tn_destinations opt). \<exists>c. lc_counts s p = Some c \<and>
       unat c = count M (tn_destinations opt ! p))"
  using lc_run_minimal [OF assms] lc_run_tracks [OF assms] unfolding lc_tracks_def by blast

theorem least_conn_minimal_witness:
  "\<exists>s ep s'. lc_run sample_tunnel s {#sample_peer CHR ''a''#} \<and> lc_select s = (Inr ep, s') \<and>
     ep \<in> set (tn_destinations sample_tunnel) \<and>
     (\<forall>ep' \<in> set (tn_destinations sample_tunnel).
        count {#sample_peer CHR ''a''#} ep \<le> count {#sample_peer CHR ''a''#} ep')"
proof -
  define s where "s = snd (lc_select (lc_new sample_tunnel))"
  have "fst (lc_select (lc_new sample_tunnel)) = Inr (sample_peer CHR ''a'')" by code_simp
  then have "lc_select (lc_new sample_tunnel) = (Inr (sample_peer CHR ''a''), s)"
    by (simp add: s_def prod_eq_iff)
  then have run: "lc_run sample_tunnel s {#sample_peer CHR ''a''#}"
    using lc_run.select [OF lc_run.start] by simp
  have "distinct (tn_destinations sample_tunnel)" "tn_destinations sample_tunnel \<noteq> []"
    by (simp_all add: sample_tunnel_def sample_peer_def)
  from least_conn_minimal [OF run this] show ?thesis using run by blast
qed

text \<open>
  C14: Destinations that are listed twice break the least-connections balancer: \<^verbatim>\<open>release\<close> lowers the
  counter of every position with that endpoint, so that a position without connections wraps
  around to the largest \<^verbatim>\<open>size_t\<close> and is not chosen again while any other is below it.
\<close>

theorem least_conn_duplicate_wraps:
  assumes "lc_inv s" and "p < length (lc_peers s)" and "lc_peers s ! p = ep"
    and "lc_counts s p = Some 0"
  shows "\<exists>s'. lc_release ep s = (Inr (), s') \<and> lc_counts s' p = Some (2 ^ 64 - 1)"
  using lc_release_ok [OF assms(1), of ep] assms(2-4) by (auto simp: lower_counts_def)

definition duplicate_tunnel :: TunnelOption where
  "duplicate_tunnel = \<lparr>tn_destinations = [sample_peer CHR ''a'', sample_peer CHR ''a''], tn_balance = LEAST_CONN\<rparr>"

theorem least_conn_duplicate_wraps_witness:
  "\<exists>s'. lc_release (sample_peer CHR ''a'') (snd (lc_select (lc_new duplicate_tunnel))) = (Inr (), s') \<and>
     lc_counts s' 1 = Some (2 ^ 64 - 1)"
proof -
  let ?s = "snd (lc_select (lc_new duplicate_tunnel))"
  have inv: "lc_inv ?s" "lc_peers ?s = tn_destinations duplicate_tunnel"
    using lc_select_ok [OF lc_new_inv(1), of duplicate_tunnel] lc_new_inv(2) [of duplicate_tunnel]
    by (auto simp: duplicate_tunnel_def)
  have "lc_counts ?s 1 = Some 0" by code_simp
  then show ?thesis
    using least_conn_duplicate_wraps [OF inv(1), of 1 "sample_peer CHR ''a''"] inv(2)
    by (simp add: duplicate_tunnel_def)
qed

end
