(* ===== verification/Pichi_Adapter.thy ===== *)
theory Pichi_Adapter
  imports Pichi_Layers Pichi_Socks5 Pichi_Trojan Pichi_Shadowsocks Pichi_Balancer
begin

text \<open>
  The adapters without a protocol of their own (\<^verbatim>\<open>direct.cpp\<close>, \<^verbatim>\<open>reject.cpp\<close>, \<^verbatim>\<open>tunnel.cpp\<close>, \<^verbatim>\<open>transparent.cpp\<close>), the
  ingress that serves HTTP and SOCKS5 on one port (\<^verbatim>\<open>dual.cpp\<close>), the variants \<^verbatim>\<open>Ingress\<close> and \<^verbatim>\<open>Egress\<close> of
  \<^verbatim>\<open>include/pichi/adapter/tcp/adapter.hpp\<close> and the factories of \<^verbatim>\<open>src/adapter/tcp/adapter.cpp\<close>.

  A session sees the adapters through \<^verbatim>\<open>std::visit\<close>: one function per operation, with an equation per
  alternative. The services the adapters share (the salts, the balancers, the pool of local
  endpoints) are passed along.
\<close>

section \<open>The surroundings\<close>

type_synonym local_endpoint = "ip_address \<times> u16"

text \<open>
  \<open>nt_layer\<close> is the TCP socket and \<open>nt_socket\<close> a fresh one; \<open>nt_getsockopt\<close> is \<^verbatim>\<open>getsockopt\<close> for the original
  destination of a redirected connection (\<open>errno\<close>, or the address and the port in network order);
  \<open>nt_salt\<close>, \<open>nt_draw\<close> and \<open>nt_memory\<close> are what the random generators draw and what fresh memory holds;
  \<open>nt_aborted\<close> says whether somebody cancels a timer while it is waited for.
\<close>

record ('s, 'x, 'd) net =
  nt_ip :: ip_lib
  nt_http :: http_lib
  nt_crypto :: crypto_lib
  nt_hex :: "bytes \<Rightarrow> string"
  nt_sha224 :: "string \<Rightarrow> string"
  nt_ssl :: "('s, 'x) ssl_lib"
  nt_ws :: "(('s, 'x) tls, 'd) ws_lib"
  nt_layer :: "'s layer"
  nt_socket :: 's
  nt_local :: "'s \<Rightarrow> local_endpoint result"
  nt_remote :: "'s \<Rightarrow> ip_address result"
  nt_getsockopt :: "bool \<Rightarrow> 's \<Rightarrow> nat + bytes \<times> bytes"
  nt_salt :: bytes
  nt_draw :: nat
  nt_memory :: bytes
  nt_aborted :: bool

definition nt_tls :: "('s, 'x, 'd) net \<Rightarrow> ('s, 'x) tls layer" where
  "nt_tls net = tls_layer (nt_ssl net) (nt_layer net)"

definition nt_websocket :: "('s, 'x, 'd) net \<Rightarrow> (('s, 'x) tls, 'd) websocket layer" where
  "nt_websocket net = websocket_layer (nt_http net) (nt_ws net) (nt_tls net)"

record services =
  svc_sentry :: sentry
  svc_balancers :: balancer_service
  svc_clients :: "local_endpoint clients"

section \<open>Direct\<close>

definition direct_connect :: "('s, 'x, 'd) net \<Rightarrow> Endpoint \<Rightarrow> (services \<times> 's, unit) io" where
  "direct_connect net peer vs =
     (case ly_connect (nt_layer net) peer (snd vs) of
        (Inl e, s) \<Rightarrow> (Inl e, (fst vs, s))
      | (Inr _, s) \<Rightarrow>
          (case nt_local net s of
             Inl e \<Rightarrow> (Inl e, (fst vs, s))
           | Inr ep \<Rightarrow>
               (case clients_insert ep (svc_clients (fst vs)) of (r, c) \<Rightarrow> (r, ((fst vs)\<lparr>svc_clients := c\<rparr>, s)))))"

definition direct_recv :: "('s, 'x, 'd) net \<Rightarrow> nat \<Rightarrow> ('s, bytes) io" where
  "direct_recv net n = ly_read_some (nt_layer net) n"

definition direct_send :: "('s, 'x, 'd) net \<Rightarrow> bytes \<Rightarrow> ('s, unit) io" where
  "direct_send net bs = ly_write (nt_layer net) bs"

definition direct_close :: "('s, 'x, 'd) net \<Rightarrow> (services \<times> 's, unit) io" where
  "direct_close net vs =
     (case nt_local net (snd vs) of
        Inl e \<Rightarrow> (Inl e, vs)
      | Inr ep \<Rightarrow>
          (case clients_remove ep (svc_clients (fst vs)) of
             (Inl e, c) \<Rightarrow> (Inl e, ((fst vs)\<lparr>svc_clients := c\<rparr>, snd vs))
           | (Inr _, c) \<Rightarrow>
               (case ly_close (nt_layer net) (snd vs) of (r, s) \<Rightarrow> (r, ((fst vs)\<lparr>svc_clients := c\<rparr>, s)))))"

section \<open>Reject\<close>

record reject =
  re_delay :: nat
  re_cancelled :: bool

definition calc_delay :: "nat \<Rightarrow> RejectOption \<Rightarrow> nat result" where
  "calc_delay draw opt =
     (case rj_mode opt of
        DelayMode.RANDOM \<Rightarrow> Inr draw
      | FIXED \<Rightarrow> rbind (deref (rj_delay opt)) (\<lambda>d. Inr (unat d)))"

definition reject_new :: "nat \<Rightarrow> EgressVO \<Rightarrow> reject result" where
  "reject_new draw vo =
     rbind (deref (eg_opt vo)) (\<lambda>o'. rbind (get_EO_Reject o') (\<lambda>opt.
     rbind (calc_delay draw opt) (\<lambda>d. Inr \<lparr>re_delay = d, re_cancelled = False\<rparr>)))"

definition reject_recv :: "nat \<Rightarrow> (reject, bytes) io" where
  "reject_recv n = ioret (fail_misc ''RejectEgress::recv shouldn't be invoked'')"

definition reject_send :: "bytes \<Rightarrow> (reject, unit) io" where
  "reject_send bs = ioret (fail_misc ''RejectEgress::send shouldn't be invoked'')"

definition reject_close :: "(reject, unit) io" where
  "reject_close r = (Inr (), r\<lparr>re_cancelled := True\<rparr>)"

text \<open>The timer is waited for; only a wait that was cancelled does not fail.\<close>

definition reject_connect :: "bool \<Rightarrow> Endpoint \<Rightarrow> (reject, unit) io" where
  "reject_connect aborted peer =
     ioret (if \<not> aborted then fail_misc ''Force to reject connection'' else Inr ())"

section \<open>Tunnel\<close>

record 's tunnel =
  tu_balancer :: "nat option"
  tu_name :: string
  tu_peer :: Endpoint
  tu_socket :: 's

definition empty_endpoint :: Endpoint where
  "empty_endpoint = \<lparr>ep_type = DOMAIN_NAME, ep_host = '''', ep_port = 0\<rparr>"

definition tunnel_new :: "IngressVO \<Rightarrow> 's \<Rightarrow> 's tunnel" where
  "tunnel_new vo s = \<lparr>tu_balancer = None, tu_name = in_name vo, tu_peer = empty_endpoint, tu_socket = s\<rparr>"

text \<open>An operation of the balancer a pointer stands for.\<close>

definition at_balancer :: "nat \<Rightarrow> (Balancer, 'a) io \<Rightarrow> (balancer_service, 'a) io" where
  "at_balancer a f s =
     (if a < length (bs_heap s)
      then (case f (bs_heap s ! a) of (r, b) \<Rightarrow> (r, s\<lparr>bs_heap := (bs_heap s)[a := b]\<rparr>))
      else (Inl UB, s))"

definition tunnel_destroy :: "(services \<times> 's tunnel, unit) io" where
  "tunnel_destroy vt =
     (case tu_balancer (snd vt) of
        None \<Rightarrow> (Inr (), vt)
      | Some a \<Rightarrow>
          (case at_balancer a (balancer_release (tu_peer (snd vt))) (svc_balancers (fst vt)) of (r, b) \<Rightarrow>
             (r, ((fst vt)\<lparr>svc_balancers := b\<rparr>, snd vt))))"

definition on_tunnel :: "('s, 'a) io \<Rightarrow> ('s tunnel, 'a) io" where
  "on_tunnel f t = (case f (tu_socket t) of (r, s) \<Rightarrow> (r, t\<lparr>tu_socket := s\<rparr>))"

definition tunnel_recv :: "('s, 'x, 'd) net \<Rightarrow> nat \<Rightarrow> ('s tunnel, bytes) io" where
  "tunnel_recv net n = on_tunnel (ly_read_some (nt_layer net) n)"

definition tunnel_send :: "('s, 'x, 'd) net \<Rightarrow> bytes \<Rightarrow> ('s tunnel, unit) io" where
  "tunnel_send net bs = on_tunnel (ly_write (nt_layer net) bs)"

definition tunnel_close :: "('s, 'x, 'd) net \<Rightarrow> ('s tunnel, unit) io" where
  "tunnel_close net = on_tunnel (ly_close (nt_layer net))"

definition tunnel_read_remote :: "(services \<times> 's tunnel, Endpoint) io" where
  "tunnel_read_remote vt =
     (case get_balancer (tu_name (snd vt)) (svc_balancers (fst vt)) of
        (Inl e, b) \<Rightarrow> (Inl e, ((fst vt)\<lparr>svc_balancers := b\<rparr>, snd vt))
      | (Inr a, b) \<Rightarrow>
          (let t = (snd vt)\<lparr>tu_balancer := Some a\<rparr> in
           case at_balancer a balancer_select b of
             (Inl e, b') \<Rightarrow> (Inl e, ((fst vt)\<lparr>svc_balancers := b'\<rparr>, t))
           | (Inr ep, b') \<Rightarrow> (Inr ep, ((fst vt)\<lparr>svc_balancers := b'\<rparr>, t\<lparr>tu_peer := ep\<rparr>))))"

definition tunnel_confirm :: "('s tunnel, unit) io" where
  "tunnel_confirm = ioret (Inr ())"

definition tunnel_disconnect :: "error_code \<Rightarrow> ('s tunnel, unit) io" where
  "tunnel_disconnect ec = ioret (Inr ())"

section \<open>Transparent\<close>

text \<open>The build for Linux, with the destinations \<^verbatim>\<open>iptables\<close> has recorded.\<close>

definition failWithErrno :: "nat \<Rightarrow> 'a result" where
  "failWithErrno errno = Inl (SystemError (Other_code errno) '''')"

definition assertSuccess :: "nat + 'a \<Rightarrow> 'a result" where
  "assertSuccess ret = (case ret of Inl errno \<Rightarrow> failWithErrno errno | Inr x \<Rightarrow> Inr x)"

definition is_v4_mapped :: "bytes \<Rightarrow> bool" where
  "is_v4_mapped b \<longleftrightarrow> take 12 b = replicate 10 0 @ [0xff, 0xff]"

fun address_is_v6 :: "ip_address \<Rightarrow> bool" where
  "address_is_v6 (V4 b) = False"
| "address_is_v6 (V6 b) = (\<not> is_v4_mapped b)"

definition buf2address :: "ip_lib \<Rightarrow> bool \<Rightarrow> bytes \<Rightarrow> string" where
  "buf2address ip is_v6 b = (if is_v6 then v6_to_string ip (take 16 b) else v4_to_string ip (take 4 b))"

definition transparent_read_remote :: "('s, 'x, 'd) net \<Rightarrow> ('s, Endpoint) io" where
  "transparent_read_remote net s =
     (rbind (nt_remote net s) (\<lambda>addr.
      let v6 = address_is_v6 addr in
      rbind (assertSuccess (nt_getsockopt net v6 s)) (\<lambda>(sa, port).
      rbind (ntoh16 port) (\<lambda>p.
      makeEndpoint (nt_ip net) (buf2address (nt_ip net) v6 sa) p))), s)"

definition transparent_recv :: "('s, 'x, 'd) net \<Rightarrow> nat \<Rightarrow> ('s, bytes) io" where
  "transparent_recv net n = ly_read_some (nt_layer net) n"

definition transparent_send :: "('s, 'x, 'd) net \<Rightarrow> bytes \<Rightarrow> ('s, unit) io" where
  "transparent_send net bs = ly_write (nt_layer net) bs"

definition transparent_close :: "('s, 'x, 'd) net \<Rightarrow> ('s, unit) io" where
  "transparent_close net = ly_close (nt_layer net)"

definition transparent_confirm :: "('s, unit) io" where
  "transparent_confirm = ioret (Inr ())"

definition transparent_disconnect :: "error_code \<Rightarrow> ('s, unit) io" where
  "transparent_disconnect ec = ioret (Inr ())"

section \<open>Dual\<close>

datatype 's dual_delegate = DD_Http "string list" "'s http" | DD_Socks5 UpIngressCredential 's

record 's dual =
  du_vo :: IngressVO
  du_underlying :: 's
  du_delegate :: "'s dual_delegate option"

definition dual_new :: "IngressVO \<Rightarrow> 's \<Rightarrow> 's dual" where
  "dual_new vo s = \<lparr>du_vo = vo, du_underlying = s, du_delegate = None\<rparr>"

text \<open>\<^verbatim>\<open>std::visit\<close> of the delegate, with one function for each alternative.\<close>

definition visit_delegate ::
  "(string list \<Rightarrow> ('s http, 'a) io) \<Rightarrow> (UpIngressCredential \<Rightarrow> ('s, 'a) io) \<Rightarrow> ('s dual, 'a) io" where
  "visit_delegate f g d =
     (case du_delegate d of
        None \<Rightarrow> (Inl UB, d)
      | Some (DD_Http cred h) \<Rightarrow> (case f cred h of (r, h') \<Rightarrow> (r, d\<lparr>du_delegate := Some (DD_Http cred h')\<rparr>))
      | Some (DD_Socks5 cred s) \<Rightarrow> (case g cred s of (r, s') \<Rightarrow> (r, d\<lparr>du_delegate := Some (DD_Socks5 cred s')\<rparr>)))"

definition has_delegate :: "('s dual, unit) io" where
  "has_delegate d = (assertTrue (has_value (du_delegate d)) MISC '''', d)"

definition dual_recv :: "'s layer \<Rightarrow> nat \<Rightarrow> ('s dual, bytes) io" where
  "dual_recv ly n = iobind has_delegate (\<lambda>_.
     visit_delegate (\<lambda>_. http_ingress_recv ly n) (\<lambda>_. socks5_ingress_recv ly n))"

definition dual_send :: "http_lib \<Rightarrow> 's layer \<Rightarrow> bytes \<Rightarrow> ('s dual, unit) io" where
  "dual_send lib ly bs = iobind has_delegate (\<lambda>_.
     visit_delegate (\<lambda>_. http_ingress_send lib ly bs) (\<lambda>_. socks5_ingress_send ly bs))"

definition dual_close :: "'s layer \<Rightarrow> ('s dual, unit) io" where
  "dual_close ly = iobind has_delegate (\<lambda>_.
     visit_delegate (\<lambda>_. http_ingress_close ly) (\<lambda>_. socks5_ingress_close ly))"

definition dual_emplace :: "http_lib \<Rightarrow> bytes \<Rightarrow> ('s dual, unit) io" where
  "dual_emplace lib buf d =
     (if buf ! 0 = 0x05
      then (case socks5_ingress_credential (du_vo d) of
              Inl e \<Rightarrow> (Inl e, d)
            | Inr cred \<Rightarrow> (Inr (), d\<lparr>du_delegate := Some (DD_Socks5 cred (du_underlying d))\<rparr>))
      else (case gen_credentials lib (du_vo d) of
              Inl e \<Rightarrow> (Inl e, d)
            | Inr cred \<Rightarrow> (Inr (), d\<lparr>du_delegate := Some (DD_Http cred (http_new (du_underlying d)))\<rparr>)))"

definition on_dual :: "('s, 'a) io \<Rightarrow> ('s dual, 'a) io" where
  "on_dual f d = (case f (du_underlying d) of (r, s) \<Rightarrow> (r, d\<lparr>du_underlying := s\<rparr>))"

definition dual_read_remote :: "ip_lib \<Rightarrow> http_lib \<Rightarrow> 's layer \<Rightarrow> ('s dual, Endpoint) io" where
  "dual_read_remote ip lib ly =
     iobind (on_dual (ly_accept ly)) (\<lambda>_.
     iobind (on_dual (ly_read ly 1)) (\<lambda>buf.
     iobind (dual_emplace lib buf) (\<lambda>_.
     visit_delegate (\<lambda>cred. http_continue_read_remote ip lib ly cred buf)
                    (\<lambda>cred. socks5_continue_read_remote ip ly cred buf))))"

definition dual_confirm :: "http_lib \<Rightarrow> 's layer \<Rightarrow> ('s dual, unit) io" where
  "dual_confirm lib ly = iobind has_delegate (\<lambda>_.
     visit_delegate (\<lambda>_. http_confirm lib ly) (\<lambda>_. socks5_confirm ly))"

definition dual_disconnect :: "http_lib \<Rightarrow> 's layer \<Rightarrow> error_code \<Rightarrow> ('s dual, unit) io" where
  "dual_disconnect lib ly ec d =
     (if has_value (du_delegate d)
      then visit_delegate (\<lambda>_. http_disconnect lib ly ec) (\<lambda>_. socks5_disconnect ly ec) d
      else (Inr (), d))"

end
