(* ===== verification/Pichi_Factory.thy ===== *)
theory Pichi_Factory
  imports Pichi_Adapter
begin

text \<open>
  The variants \<^verbatim>\<open>Ingress\<close> and \<^verbatim>\<open>Egress\<close> (\<^verbatim>\<open>include/pichi/adapter/tcp/adapter.hpp\<close>), the factories that build them from
  a configuration (\<^verbatim>\<open>src/adapter/tcp/adapter.cpp\<close>) and \<^verbatim>\<open>std::visit\<close> of their operations as a session calls
  them. An adapter that keeps its configuration carries it as an argument of its constructor.
\<close>

section \<open>Variants\<close>

datatype ('s, 'x, 'd) Ingress =
    I_Dual_Socket "'s dual"
  | I_Dual_Tls "('s, 'x) tls dual"
  | I_Http_Socket "string list" "'s http"
  | I_Http_Tls "string list" "('s, 'x) tls http"
  | I_Socks5_Socket UpIngressCredential 's
  | I_Socks5_Tls UpIngressCredential "('s, 'x) tls"
  | I_Trojan_Tls "string list" Endpoint "('s, 'x) tls trojan"
  | I_Trojan_Ws "string list" Endpoint "(('s, 'x) tls, 'd) websocket trojan"
  | I_SS "'s shadow"
  | I_Transparent 's
  | I_Tunnel "'s tunnel"

datatype ('s, 'x, 'd) Egress =
    E_Direct 's
  | E_Reject reject
  | E_Http_Socket string Endpoint "'s \<times> bytes"
  | E_Http_Tls string Endpoint "('s, 'x) tls \<times> bytes"
  | E_Socks5_Socket bytes Endpoint 's
  | E_Socks5_Tls bytes Endpoint "('s, 'x) tls"
  | E_Trojan_Tls string Endpoint "('s, 'x) tls"
  | E_Trojan_Ws string Endpoint "(('s, 'x) tls, 'd) websocket"
  | E_SS Endpoint "'s shadow"

section \<open>Factories\<close>

definition ingress_tls :: "('s, 'x, 'd) net \<Rightarrow> IngressVO \<Rightarrow> 's \<Rightarrow> ('s, 'x) tls result" where
  "ingress_tls net vo s =
     rbind (deref (in_tls vo)) (\<lambda>opt.
     rbind (tls_context_ingress (nt_ssl net) opt) (\<lambda>ctx. Inr (tls_new (nt_ssl net) ctx s)))"

definition host_or_empty :: "WebsocketOption \<Rightarrow> string" where
  "host_or_empty w = (case ws_host w of None \<Rightarrow> '''' | Some h \<Rightarrow> h)"

definition new_trojan :: "('s, 'x, 'd) net \<Rightarrow> 'u \<Rightarrow> 'u trojan" where
  "new_trojan net u = \<lparr>tj_underlying = u, tj_cache = cache_new (nt_memory net)\<rparr>"

definition create_ingress ::
  "('s, 'x, 'd) net \<Rightarrow> sentry \<Rightarrow> IngressVO \<Rightarrow> 's \<Rightarrow> ('s, 'x, 'd) Ingress result" where
  "create_ingress net sy vo s =
     (case in_type vo of
        SS \<Rightarrow> rbind (create_stream_ingress (nt_crypto net) vo (nt_salt net) sy s) (\<lambda>st. Inr (I_SS st))
      | SOCKS5 \<Rightarrow>
          if has_value (in_tls vo)
          then rbind (ingress_tls net vo s) (\<lambda>t. rbind (socks5_ingress_credential vo) (\<lambda>c. Inr (I_Socks5_Tls c t)))
          else rbind (socks5_ingress_credential vo) (\<lambda>c. Inr (I_Socks5_Socket c s))
      | HTTP \<Rightarrow>
          if has_value (in_tls vo)
          then rbind (ingress_tls net vo s) (\<lambda>t. rbind (gen_credentials (nt_http net) vo) (\<lambda>c. Inr (I_Http_Tls c (http_new t))))
          else rbind (gen_credentials (nt_http net) vo) (\<lambda>c. Inr (I_Http_Socket c (http_new s)))
      | DUAL \<Rightarrow>
          if has_value (in_tls vo)
          then rbind (ingress_tls net vo s) (\<lambda>t. Inr (I_Dual_Tls (dual_new vo t)))
          else Inr (I_Dual_Socket (dual_new vo s))
      | TROJAN \<Rightarrow>
          (case in_websocket vo of
             Some w \<Rightarrow>
               rbind (ingress_tls net vo s) (\<lambda>t.
               rbind (trojan_passwords (nt_sha224 net) vo) (\<lambda>pwds. rbind (trojan_remote vo) (\<lambda>r.
               Inr (I_Trojan_Ws pwds r (new_trojan net (websocket_new (nt_ws net) (ws_path w) (host_or_empty w) t))))))
           | None \<Rightarrow>
               rbind (ingress_tls net vo s) (\<lambda>t.
               rbind (trojan_passwords (nt_sha224 net) vo) (\<lambda>pwds. rbind (trojan_remote vo) (\<lambda>r.
               Inr (I_Trojan_Tls pwds r (new_trojan net t))))))
      | TRANSP \<Rightarrow> Inr (I_Transparent s)
      | TUNNEL \<Rightarrow> Inr (I_Tunnel (tunnel_new vo s))
      | _ \<Rightarrow> fail_misc '''')"

text \<open>
  The TLS stream of a SOCKS5 or HTTP egress is built without the SNI of the options, that of a Trojan
  egress with it.
\<close>

definition egress_context :: "('s, 'x, 'd) net \<Rightarrow> EgressVO \<Rightarrow> ssl_context result" where
  "egress_context net vo =
     rbind (deref (eg_tls vo)) (\<lambda>opt. rbind (deref (eg_server vo)) (\<lambda>server.
     tls_context_egress (nt_ssl net) opt (ep_host server)))"

definition egress_tls :: "('s, 'x, 'd) net \<Rightarrow> EgressVO \<Rightarrow> ('s, 'x) tls result" where
  "egress_tls net vo =
     rbind (egress_context net vo) (\<lambda>ctx. Inr (tls_new (nt_ssl net) ctx (nt_socket net)))"

definition egress_tls_sni :: "('s, 'x, 'd) net \<Rightarrow> EgressVO \<Rightarrow> ('s, 'x) tls result" where
  "egress_tls_sni net vo =
     rbind (deref (eg_tls vo)) (\<lambda>opt.
     rbind (egress_context net vo) (\<lambda>ctx. tls_new_sni (nt_ssl net) (te_sni opt) ctx (nt_socket net)))"

definition socks5_egress_new :: "EgressVO \<Rightarrow> 'u \<Rightarrow> (bytes \<times> Endpoint \<times> 'u) result" where
  "socks5_egress_new vo u =
     rbind (deref (eg_server vo)) (\<lambda>peer. rbind (gen_data vo) (\<lambda>cred. Inr (cred, peer, u)))"

definition http_egress_new :: "http_lib \<Rightarrow> EgressVO \<Rightarrow> 'u \<Rightarrow> (string \<times> Endpoint \<times> 'u \<times> bytes) result" where
  "http_egress_new lib vo u =
     rbind (deref (eg_server vo)) (\<lambda>peer. rbind (gen_credential lib vo) (\<lambda>cred. Inr (cred, peer, (u, []))))"

definition trojan_egress_new :: "(string \<Rightarrow> string) \<Rightarrow> EgressVO \<Rightarrow> 'u \<Rightarrow> (string \<times> Endpoint \<times> 'u) result" where
  "trojan_egress_new sha224 vo u =
     rbind (trojan_egress_credential sha224 vo) (\<lambda>cred. rbind (deref (eg_server vo)) (\<lambda>peer. Inr (cred, peer, u)))"

definition create_egress :: "('s, 'x, 'd) net \<Rightarrow> EgressVO \<Rightarrow> ('s, 'x, 'd) Egress result" where
  "create_egress net vo =
     (case eg_type vo of
        SS \<Rightarrow> rbind (create_stream_egress (nt_crypto net) vo (nt_salt net) (nt_socket net)) (\<lambda>(st, proxy). Inr (E_SS proxy st))
      | DIRECT \<Rightarrow> Inr (E_Direct (nt_socket net))
      | REJECT \<Rightarrow> rbind (reject_new (nt_draw net) vo) (\<lambda>r. Inr (E_Reject r))
      | SOCKS5 \<Rightarrow>
          if has_value (eg_tls vo)
          then rbind (egress_tls net vo) (\<lambda>t. rbind (socks5_egress_new vo t) (\<lambda>(c, p, u). Inr (E_Socks5_Tls c p u)))
          else rbind (socks5_egress_new vo (nt_socket net)) (\<lambda>(c, p, u). Inr (E_Socks5_Socket c p u))
      | HTTP \<Rightarrow>
          if has_value (eg_tls vo)
          then rbind (egress_tls net vo) (\<lambda>t. rbind (http_egress_new (nt_http net) vo t) (\<lambda>(c, p, u). Inr (E_Http_Tls c p u)))
          else rbind (http_egress_new (nt_http net) vo (nt_socket net)) (\<lambda>(c, p, u). Inr (E_Http_Socket c p u))
      | TROJAN \<Rightarrow>
          (case eg_websocket vo of
             Some w \<Rightarrow>
               rbind (egress_tls_sni net vo) (\<lambda>t.
               rbind (trojan_egress_new (nt_sha224 net) vo (websocket_new (nt_ws net) (ws_path w) (host_or_empty w) t))
                     (\<lambda>(c, p, u). Inr (E_Trojan_Ws c p u)))
           | None \<Rightarrow>
               rbind (egress_tls_sni net vo) (\<lambda>t.
               rbind (trojan_egress_new (nt_sha224 net) vo t) (\<lambda>(c, p, u). Inr (E_Trojan_Tls c p u))))
      | _ \<Rightarrow> fail_misc '''')"

section \<open>Visits\<close>

text \<open>An operation that does not use the services, and one of a Shadowsocks stream, which asks the sentry.\<close>

definition inside :: "('a \<Rightarrow> 'v) \<Rightarrow> ('a, 'r) io \<Rightarrow> services \<Rightarrow> 'a \<Rightarrow> 'r result \<times> services \<times> 'v" where
  "inside K f sv a = (case f a of (r, a') \<Rightarrow> (r, (sv, K a')))"

definition with_services :: "('a \<Rightarrow> 'v) \<Rightarrow> (services \<times> 'a, 'r) io \<Rightarrow> services \<Rightarrow> 'a \<Rightarrow> 'r result \<times> services \<times> 'v" where
  "with_services K f sv a = (case f (sv, a) of (r, (sv', a')) \<Rightarrow> (r, (sv', K a')))"

definition with_sentry :: "('s shadow, 'r) io \<Rightarrow> (services \<times> 's shadow, 'r) io" where
  "with_sentry f vs =
     (case f ((snd vs)\<lparr>sh_sentry := Some (svc_sentry (fst vs))\<rparr>) of (r, sh) \<Rightarrow>
        (r, ((case sh_sentry sh of None \<Rightarrow> fst vs | Some sy \<Rightarrow> (fst vs)\<lparr>svc_sentry := sy\<rparr>), sh)))"

fun ingress_recv :: "('s, 'x, 'd) net \<Rightarrow> nat \<Rightarrow> (services \<times> ('s, 'x, 'd) Ingress, bytes) io" where
  "ingress_recv net n (sv, I_Dual_Socket d) = inside I_Dual_Socket (dual_recv (nt_layer net) n) sv d"
| "ingress_recv net n (sv, I_Dual_Tls d) = inside I_Dual_Tls (dual_recv (nt_tls net) n) sv d"
| "ingress_recv net n (sv, I_Http_Socket c h) = inside (I_Http_Socket c) (http_ingress_recv (nt_layer net) n) sv h"
| "ingress_recv net n (sv, I_Http_Tls c h) = inside (I_Http_Tls c) (http_ingress_recv (nt_tls net) n) sv h"
| "ingress_recv net n (sv, I_Socks5_Socket c s) = inside (I_Socks5_Socket c) (socks5_ingress_recv (nt_layer net) n) sv s"
| "ingress_recv net n (sv, I_Socks5_Tls c s) = inside (I_Socks5_Tls c) (socks5_ingress_recv (nt_tls net) n) sv s"
| "ingress_recv net n (sv, I_Trojan_Tls p r t) = inside (I_Trojan_Tls p r) (trojan_ingress_recv (nt_tls net) n) sv t"
| "ingress_recv net n (sv, I_Trojan_Ws p r t) = inside (I_Trojan_Ws p r) (trojan_ingress_recv (nt_websocket net) n) sv t"
| "ingress_recv net n (sv, I_SS sh) =
     with_services I_SS (with_sentry (ss_recv (nt_crypto net) (nt_hex net) (nt_layer net) n)) sv sh"
| "ingress_recv net n (sv, I_Transparent s) = inside I_Transparent (transparent_recv net n) sv s"
| "ingress_recv net n (sv, I_Tunnel t) = inside I_Tunnel (tunnel_recv net n) sv t"

fun ingress_send :: "('s, 'x, 'd) net \<Rightarrow> bytes \<Rightarrow> (services \<times> ('s, 'x, 'd) Ingress, unit) io" where
  "ingress_send net b (sv, I_Dual_Socket d) = inside I_Dual_Socket (dual_send (nt_http net) (nt_layer net) b) sv d"
| "ingress_send net b (sv, I_Dual_Tls d) = inside I_Dual_Tls (dual_send (nt_http net) (nt_tls net) b) sv d"
| "ingress_send net b (sv, I_Http_Socket c h) =
     inside (I_Http_Socket c) (http_ingress_send (nt_http net) (nt_layer net) b) sv h"
| "ingress_send net b (sv, I_Http_Tls c h) = inside (I_Http_Tls c) (http_ingress_send (nt_http net) (nt_tls net) b) sv h"
| "ingress_send net b (sv, I_Socks5_Socket c s) = inside (I_Socks5_Socket c) (socks5_ingress_send (nt_layer net) b) sv s"
| "ingress_send net b (sv, I_Socks5_Tls c s) = inside (I_Socks5_Tls c) (socks5_ingress_send (nt_tls net) b) sv s"
| "ingress_send net b (sv, I_Trojan_Tls p r t) = inside (I_Trojan_Tls p r) (trojan_ingress_send (nt_tls net) b) sv t"
| "ingress_send net b (sv, I_Trojan_Ws p r t) = inside (I_Trojan_Ws p r) (trojan_ingress_send (nt_websocket net) b) sv t"
| "ingress_send net b (sv, I_SS sh) = inside I_SS (ss_send (nt_crypto net) (nt_layer net) b) sv sh"
| "ingress_send net b (sv, I_Transparent s) = inside I_Transparent (transparent_send net b) sv s"
| "ingress_send net b (sv, I_Tunnel t) = inside I_Tunnel (tunnel_send net b) sv t"

fun ingress_close :: "('s, 'x, 'd) net \<Rightarrow> (services \<times> ('s, 'x, 'd) Ingress, unit) io" where
  "ingress_close net (sv, I_Dual_Socket d) = inside I_Dual_Socket (dual_close (nt_layer net)) sv d"
| "ingress_close net (sv, I_Dual_Tls d) = inside I_Dual_Tls (dual_close (nt_tls net)) sv d"
| "ingress_close net (sv, I_Http_Socket c h) = inside (I_Http_Socket c) (http_ingress_close (nt_layer net)) sv h"
| "ingress_close net (sv, I_Http_Tls c h) = inside (I_Http_Tls c) (http_ingress_close (nt_tls net)) sv h"
| "ingress_close net (sv, I_Socks5_Socket c s) = inside (I_Socks5_Socket c) (socks5_ingress_close (nt_layer net)) sv s"
| "ingress_close net (sv, I_Socks5_Tls c s) = inside (I_Socks5_Tls c) (socks5_ingress_close (nt_tls net)) sv s"
| "ingress_close net (sv, I_Trojan_Tls p r t) = inside (I_Trojan_Tls p r) (trojan_ingress_close (nt_tls net)) sv t"
| "ingress_close net (sv, I_Trojan_Ws p r t) = inside (I_Trojan_Ws p r) (trojan_ingress_close (nt_websocket net)) sv t"
| "ingress_close net (sv, I_SS sh) = inside I_SS (ss_close (nt_layer net)) sv sh"
| "ingress_close net (sv, I_Transparent s) = inside I_Transparent (transparent_close net) sv s"
| "ingress_close net (sv, I_Tunnel t) = inside I_Tunnel (tunnel_close net) sv t"

fun ingress_read_remote :: "('s, 'x, 'd) net \<Rightarrow> (services \<times> ('s, 'x, 'd) Ingress, Endpoint) io" where
  "ingress_read_remote net (sv, I_Dual_Socket d) =
     inside I_Dual_Socket (dual_read_remote (nt_ip net) (nt_http net) (nt_layer net)) sv d"
| "ingress_read_remote net (sv, I_Dual_Tls d) =
     inside I_Dual_Tls (dual_read_remote (nt_ip net) (nt_http net) (nt_tls net)) sv d"
| "ingress_read_remote net (sv, I_Http_Socket c h) =
     inside (I_Http_Socket c) (http_read_remote (nt_ip net) (nt_http net) (nt_layer net) c) sv h"
| "ingress_read_remote net (sv, I_Http_Tls c h) =
     inside (I_Http_Tls c) (http_read_remote (nt_ip net) (nt_http net) (nt_tls net) c) sv h"
| "ingress_read_remote net (sv, I_Socks5_Socket c s) =
     inside (I_Socks5_Socket c) (socks5_read_remote (nt_ip net) (nt_layer net) c) sv s"
| "ingress_read_remote net (sv, I_Socks5_Tls c s) =
     inside (I_Socks5_Tls c) (socks5_read_remote (nt_ip net) (nt_tls net) c) sv s"
| "ingress_read_remote net (sv, I_Trojan_Tls p r t) =
     inside (I_Trojan_Tls p r) (trojan_read_remote (nt_ip net) (nt_tls net) True p r) sv t"
| "ingress_read_remote net (sv, I_Trojan_Ws p r t) =
     inside (I_Trojan_Ws p r) (trojan_read_remote (nt_ip net) (nt_websocket net) False p r) sv t"
| "ingress_read_remote net (sv, I_SS sh) =
     with_services I_SS (with_sentry (ss_read_remote (nt_crypto net) (nt_hex net) (nt_ip net) (nt_layer net))) sv sh"
| "ingress_read_remote net (sv, I_Transparent s) = inside I_Transparent (transparent_read_remote net) sv s"
| "ingress_read_remote net (sv, I_Tunnel t) = with_services I_Tunnel tunnel_read_remote sv t"

fun ingress_confirm :: "('s, 'x, 'd) net \<Rightarrow> (services \<times> ('s, 'x, 'd) Ingress, unit) io" where
  "ingress_confirm net (sv, I_Dual_Socket d) = inside I_Dual_Socket (dual_confirm (nt_http net) (nt_layer net)) sv d"
| "ingress_confirm net (sv, I_Dual_Tls d) = inside I_Dual_Tls (dual_confirm (nt_http net) (nt_tls net)) sv d"
| "ingress_confirm net (sv, I_Http_Socket c h) = inside (I_Http_Socket c) (http_confirm (nt_http net) (nt_layer net)) sv h"
| "ingress_confirm net (sv, I_Http_Tls c h) = inside (I_Http_Tls c) (http_confirm (nt_http net) (nt_tls net)) sv h"
| "ingress_confirm net (sv, I_Socks5_Socket c s) = inside (I_Socks5_Socket c) (socks5_confirm (nt_layer net)) sv s"
| "ingress_confirm net (sv, I_Socks5_Tls c s) = inside (I_Socks5_Tls c) (socks5_confirm (nt_tls net)) sv s"
| "ingress_confirm net (sv, I_Trojan_Tls p r t) = inside (I_Trojan_Tls p r) trojan_confirm sv t"
| "ingress_confirm net (sv, I_Trojan_Ws p r t) = inside (I_Trojan_Ws p r) trojan_confirm sv t"
| "ingress_confirm net (sv, I_SS sh) = inside I_SS ss_confirm sv sh"
| "ingress_confirm net (sv, I_Transparent s) = inside I_Transparent transparent_confirm sv s"
| "ingress_confirm net (sv, I_Tunnel t) = inside I_Tunnel tunnel_confirm sv t"

fun ingress_disconnect :: "('s, 'x, 'd) net \<Rightarrow> error_code \<Rightarrow> (services \<times> ('s, 'x, 'd) Ingress, unit) io" where
  "ingress_disconnect net ec (sv, I_Dual_Socket d) =
     inside I_Dual_Socket (dual_disconnect (nt_http net) (nt_layer net) ec) sv d"
| "ingress_disconnect net ec (sv, I_Dual_Tls d) = inside I_Dual_Tls (dual_disconnect (nt_http net) (nt_tls net) ec) sv d"
| "ingress_disconnect net ec (sv, I_Http_Socket c h) =
     inside (I_Http_Socket c) (http_disconnect (nt_http net) (nt_layer net) ec) sv h"
| "ingress_disconnect net ec (sv, I_Http_Tls c h) = inside (I_Http_Tls c) (http_disconnect (nt_http net) (nt_tls net) ec) sv h"
| "ingress_disconnect net ec (sv, I_Socks5_Socket c s) = inside (I_Socks5_Socket c) (socks5_disconnect (nt_layer net) ec) sv s"
| "ingress_disconnect net ec (sv, I_Socks5_Tls c s) = inside (I_Socks5_Tls c) (socks5_disconnect (nt_tls net) ec) sv s"
| "ingress_disconnect net ec (sv, I_Trojan_Tls p r t) = inside (I_Trojan_Tls p r) (trojan_disconnect ec) sv t"
| "ingress_disconnect net ec (sv, I_Trojan_Ws p r t) = inside (I_Trojan_Ws p r) (trojan_disconnect ec) sv t"
| "ingress_disconnect net ec (sv, I_SS sh) = inside I_SS (ss_disconnect ec) sv sh"
| "ingress_disconnect net ec (sv, I_Transparent s) = inside I_Transparent (transparent_disconnect ec) sv s"
| "ingress_disconnect net ec (sv, I_Tunnel t) = inside I_Tunnel (tunnel_disconnect ec) sv t"

text \<open>When a session ends its ingress is destroyed: a tunnel gives its destination back.\<close>

fun ingress_destroy :: "(services \<times> ('s, 'x, 'd) Ingress, unit) io" where
  "ingress_destroy (sv, I_Tunnel t) = with_services I_Tunnel tunnel_destroy sv t"
| "ingress_destroy (sv, i) = (Inr (), (sv, i))"

fun egress_connect :: "('s, 'x, 'd) net \<Rightarrow> Endpoint \<Rightarrow> (services \<times> ('s, 'x, 'd) Egress, unit) io" where
  "egress_connect net ep (sv, E_Direct s) = with_services E_Direct (direct_connect net ep) sv s"
| "egress_connect net ep (sv, E_Reject r) = inside E_Reject (reject_connect (nt_aborted net) ep) sv r"
| "egress_connect net ep (sv, E_Http_Socket c p u) =
     inside (E_Http_Socket c p) (http_connect (nt_http net) (nt_layer net) c p ep) sv u"
| "egress_connect net ep (sv, E_Http_Tls c p u) =
     inside (E_Http_Tls c p) (http_connect (nt_http net) (nt_tls net) c p ep) sv u"
| "egress_connect net ep (sv, E_Socks5_Socket c p u) =
     inside (E_Socks5_Socket c p) (socks5_connect (nt_ip net) (nt_layer net) c p ep) sv u"
| "egress_connect net ep (sv, E_Socks5_Tls c p u) =
     inside (E_Socks5_Tls c p) (socks5_connect (nt_ip net) (nt_tls net) c p ep) sv u"
| "egress_connect net ep (sv, E_Trojan_Tls c p u) =
     inside (E_Trojan_Tls c p) (trojan_connect (nt_ip net) (nt_tls net) c p ep) sv u"
| "egress_connect net ep (sv, E_Trojan_Ws c p u) =
     inside (E_Trojan_Ws c p) (trojan_connect (nt_ip net) (nt_websocket net) c p ep) sv u"
| "egress_connect net ep (sv, E_SS p sh) = inside (E_SS p) (ss_connect (nt_crypto net) (nt_ip net) (nt_layer net) p ep) sv sh"

fun egress_recv :: "('s, 'x, 'd) net \<Rightarrow> nat \<Rightarrow> (services \<times> ('s, 'x, 'd) Egress, bytes) io" where
  "egress_recv net n (sv, E_Direct s) = inside E_Direct (direct_recv net n) sv s"
| "egress_recv net n (sv, E_Reject r) = inside E_Reject (reject_recv n) sv r"
| "egress_recv net n (sv, E_Http_Socket c p u) = inside (E_Http_Socket c p) (http_egress_recv (nt_layer net) n) sv u"
| "egress_recv net n (sv, E_Http_Tls c p u) = inside (E_Http_Tls c p) (http_egress_recv (nt_tls net) n) sv u"
| "egress_recv net n (sv, E_Socks5_Socket c p u) = inside (E_Socks5_Socket c p) (socks5_egress_recv (nt_layer net) n) sv u"
| "egress_recv net n (sv, E_Socks5_Tls c p u) = inside (E_Socks5_Tls c p) (socks5_egress_recv (nt_tls net) n) sv u"
| "egress_recv net n (sv, E_Trojan_Tls c p u) = inside (E_Trojan_Tls c p) (trojan_egress_recv (nt_tls net) n) sv u"
| "egress_recv net n (sv, E_Trojan_Ws c p u) = inside (E_Trojan_Ws c p) (trojan_egress_recv (nt_websocket net) n) sv u"
| "egress_recv net n (sv, E_SS p sh) = inside (E_SS p) (ss_recv (nt_crypto net) (nt_hex net) (nt_layer net) n) sv sh"

fun egress_send :: "('s, 'x, 'd) net \<Rightarrow> bytes \<Rightarrow> (services \<times> ('s, 'x, 'd) Egress, unit) io" where
  "egress_send net b (sv, E_Direct s) = inside E_Direct (direct_send net b) sv s"
| "egress_send net b (sv, E_Reject r) = inside E_Reject (reject_send b) sv r"
| "egress_send net b (sv, E_Http_Socket c p u) = inside (E_Http_Socket c p) (http_egress_send (nt_layer net) b) sv u"
| "egress_send net b (sv, E_Http_Tls c p u) = inside (E_Http_Tls c p) (http_egress_send (nt_tls net) b) sv u"
| "egress_send net b (sv, E_Socks5_Socket c p u) = inside (E_Socks5_Socket c p) (socks5_egress_send (nt_layer net) b) sv u"
| "egress_send net b (sv, E_Socks5_Tls c p u) = inside (E_Socks5_Tls c p) (socks5_egress_send (nt_tls net) b) sv u"
| "egress_send net b (sv, E_Trojan_Tls c p u) = inside (E_Trojan_Tls c p) (trojan_egress_send (nt_tls net) b) sv u"
| "egress_send net b (sv, E_Trojan_Ws c p u) = inside (E_Trojan_Ws c p) (trojan_egress_send (nt_websocket net) b) sv u"
| "egress_send net b (sv, E_SS p sh) = inside (E_SS p) (ss_send (nt_crypto net) (nt_layer net) b) sv sh"

fun egress_close :: "('s, 'x, 'd) net \<Rightarrow> (services \<times> ('s, 'x, 'd) Egress, unit) io" where
  "egress_close net (sv, E_Direct s) = with_services E_Direct (direct_close net) sv s"
| "egress_close net (sv, E_Reject r) = inside E_Reject reject_close sv r"
| "egress_close net (sv, E_Http_Socket c p u) = inside (E_Http_Socket c p) (http_egress_close (nt_layer net)) sv u"
| "egress_close net (sv, E_Http_Tls c p u) = inside (E_Http_Tls c p) (http_egress_close (nt_tls net)) sv u"
| "egress_close net (sv, E_Socks5_Socket c p u) = inside (E_Socks5_Socket c p) (socks5_egress_close (nt_layer net)) sv u"
| "egress_close net (sv, E_Socks5_Tls c p u) = inside (E_Socks5_Tls c p) (socks5_egress_close (nt_tls net)) sv u"
| "egress_close net (sv, E_Trojan_Tls c p u) = inside (E_Trojan_Tls c p) (trojan_egress_close (nt_tls net)) sv u"
| "egress_close net (sv, E_Trojan_Ws c p u) = inside (E_Trojan_Ws c p) (trojan_egress_close (nt_websocket net)) sv u"
| "egress_close net (sv, E_SS p sh) = inside (E_SS p) (ss_close (nt_layer net)) sv sh"

section \<open>What the factories build\<close>

fun ingress_kind :: "('s, 'x, 'd) Ingress \<Rightarrow> AdapterType \<times> bool" where
  "ingress_kind (I_Dual_Socket _) = (DUAL, False)"
| "ingress_kind (I_Dual_Tls _) = (DUAL, True)"
| "ingress_kind (I_Http_Socket _ _) = (HTTP, False)"
| "ingress_kind (I_Http_Tls _ _) = (HTTP, True)"
| "ingress_kind (I_Socks5_Socket _ _) = (SOCKS5, False)"
| "ingress_kind (I_Socks5_Tls _ _) = (SOCKS5, True)"
| "ingress_kind (I_Trojan_Tls _ _ _) = (TROJAN, True)"
| "ingress_kind (I_Trojan_Ws _ _ _) = (TROJAN, True)"
| "ingress_kind (I_SS _) = (SS, False)"
| "ingress_kind (I_Transparent _) = (TRANSP, False)"
| "ingress_kind (I_Tunnel _) = (TUNNEL, False)"

fun egress_kind :: "('s, 'x, 'd) Egress \<Rightarrow> AdapterType \<times> bool" where
  "egress_kind (E_Direct _) = (DIRECT, False)"
| "egress_kind (E_Reject _) = (REJECT, False)"
| "egress_kind (E_Http_Socket _ _ _) = (HTTP, False)"
| "egress_kind (E_Http_Tls _ _ _) = (HTTP, True)"
| "egress_kind (E_Socks5_Socket _ _ _) = (SOCKS5, False)"
| "egress_kind (E_Socks5_Tls _ _ _) = (SOCKS5, True)"
| "egress_kind (E_Trojan_Tls _ _ _) = (TROJAN, True)"
| "egress_kind (E_Trojan_Ws _ _ _) = (TROJAN, True)"
| "egress_kind (E_SS _ _) = (SS, False)"

text \<open>
  The outcome of building something: it is built and has the property \<open>P\<close>, or it fails with an error
  that is one of those that \<open>E\<close> names.
\<close>

definition built :: "(exn \<Rightarrow> bool) \<Rightarrow> ('a \<Rightarrow> bool) \<Rightarrow> 'a result \<Rightarrow> bool" where
  "built E P r \<longleftrightarrow> (case r of Inr x \<Rightarrow> P x | Inl e \<Rightarrow> E e)"

lemma built_Inr [simp]: "built E P (Inr x) \<longleftrightarrow> P x"
  by (simp add: built_def)

lemma built_Inl [simp]: "built E P (Inl e) \<longleftrightarrow> E e"
  by (simp add: built_def)

lemma built_rbind: "built E Q r \<Longrightarrow> (\<And>x. Q x \<Longrightarrow> built E P (f x)) \<Longrightarrow> built E P (rbind r f)"
  by (cases r) auto

lemma built_mono: "built E P r \<Longrightarrow> (\<And>e. E e \<Longrightarrow> E' e) \<Longrightarrow> built E' P r"
  by (cases r) auto

text \<open>
  What the configuration cannot answer for. The certificate and the key of an ingress are read by
  OpenSSL, and so is the CA of an egress that verifies its peer, or the default paths if none is
  given; the server name indication of a Trojan egress is set by OpenSSL; the name and the password of
  a SOCKS5 egress are put into an array of 1024 bytes without a check.
\<close>

definition ingress_build_error :: "('s, 'x) ssl_lib \<Rightarrow> IngressVO \<Rightarrow> exn \<Rightarrow> bool" where
  "ingress_build_error sl vo e \<longleftrightarrow> (case in_tls vo of
       None \<Rightarrow> False
     | Some opt \<Rightarrow> sl_use_cert sl (ti_certFile opt) = Inl e \<or> sl_use_key sl (ti_keyFile opt) = Inl e)"

definition ca_error :: "('s, 'x) ssl_lib \<Rightarrow> EgressVO \<Rightarrow> exn \<Rightarrow> bool" where
  "ca_error sl vo e \<longleftrightarrow> (case eg_tls vo of
       None \<Rightarrow> False
     | Some opt \<Rightarrow> \<not> te_insecure opt \<and>
         (case te_caFile opt of None \<Rightarrow> sl_default_paths sl = Inl e | Some ca \<Rightarrow> sl_load_ca sl ca = Inl e))"

definition sni_error :: "('s, 'x) ssl_lib \<Rightarrow> EgressVO \<Rightarrow> exn \<Rightarrow> bool" where
  "sni_error sl vo e \<longleftrightarrow> eg_type vo = TROJAN \<and> e = SystemError (Pichi_code MISC) '''' \<and>
     (\<exists>opt sni x. eg_tls vo = Some opt \<and> te_sni opt = Some sni \<and> sl_set_sni sl sni x = None)"

definition credential_overflow :: "EgressVO \<Rightarrow> exn \<Rightarrow> bool" where
  "credential_overflow vo e \<longleftrightarrow> eg_type vo = SOCKS5 \<and> e = UB \<and>
     (\<exists>u p. eg_credential vo = Some (EC_Up (u, p)) \<and> 1024 < 3 + length u + length p)"

definition egress_build_error :: "('s, 'x) ssl_lib \<Rightarrow> EgressVO \<Rightarrow> exn \<Rightarrow> bool" where
  "egress_build_error sl vo e \<longleftrightarrow> ca_error sl vo e \<or> sni_error sl vo e \<or> credential_overflow vo e"

lemma ingress_tls_built:
  assumes "in_tls vo = Some opt"
  shows "built (ingress_build_error (nt_ssl net) vo) (\<lambda>_. True) (ingress_tls net vo s)"
  using assms
  by (cases "sl_use_cert (nt_ssl net) (ti_certFile opt)"; cases "sl_use_key (nt_ssl net) (ti_keyFile opt)")
     (simp_all add: ingress_tls_def tls_context_ingress_def ingress_build_error_def)

lemma egress_context_built:
  assumes "eg_tls vo = Some opt" and "eg_server vo = Some server"
  shows "built (ca_error (nt_ssl net) vo) (\<lambda>_. True) (egress_context net vo)"
proof (cases "te_caFile opt")
  case None
  then show ?thesis using assms
    by (cases "sl_default_paths (nt_ssl net)") (simp_all add: egress_context_def tls_context_egress_def ca_error_def Let_def)
next
  case (Some ca)
  then show ?thesis using assms
    by (cases "sl_load_ca (nt_ssl net) ca") (simp_all add: egress_context_def tls_context_egress_def ca_error_def Let_def)
qed

lemma egress_tls_built:
  assumes "eg_tls vo = Some opt" and "eg_server vo = Some server"
  shows "built (egress_build_error (nt_ssl net) vo) (\<lambda>_. True) (egress_tls net vo)"
    and "eg_type vo = TROJAN \<Longrightarrow> built (egress_build_error (nt_ssl net) vo) (\<lambda>_. True) (egress_tls_sni net vo)"
proof -
  have ctx: "built (egress_build_error (nt_ssl net) vo) (\<lambda>_. True) (egress_context net vo)"
    using egress_context_built [OF assms] by (rule built_mono) (simp add: egress_build_error_def)
  show "built (egress_build_error (nt_ssl net) vo) (\<lambda>_. True) (egress_tls net vo)"
    unfolding egress_tls_def by (rule built_rbind [OF ctx]) simp
  show "built (egress_build_error (nt_ssl net) vo) (\<lambda>_. True) (egress_tls_sni net vo)" if "eg_type vo = TROJAN"
    unfolding egress_tls_sni_def using assms(1) that
    by (auto simp: tls_new_sni_def Let_def fail_misc_def fail_with_def makeErrorCode_def
        egress_build_error_def [of _ _ "SystemError _ _"] sni_error_def intro!: built_rbind [OF ctx] split: option.splits)
qed

lemma wf_Ingress_as_plain:
  "wf_Ingress_as ip t b i \<Longrightarrow> t = SS \<or> t = TUNNEL \<or> t = TRANSP \<Longrightarrow> in_tls i = in_tls b"
  by auto

lemma wf_Ingress_plain: "wf_Ingress ip vo \<Longrightarrow> in_type vo = SS \<or> in_type vo = TUNNEL \<or> in_type vo = TRANSP \<Longrightarrow> in_tls vo = None"
  using wf_Ingress_as_plain [of ip "in_type vo" "empty_ingress (in_type vo) (in_bind vo)" vo]
  by (simp add: wf_Ingress_def empty_ingress_def)

lemma up_ingress_built:
  assumes "wf_Ingress ip vo" and "in_type vo \<in> {HTTP, SOCKS5, DUAL}"
  shows "\<exists>c. socks5_ingress_credential (vo\<lparr>in_name := name\<rparr>) = Inr c"
    and "\<exists>c. gen_credentials lib (vo\<lparr>in_name := name\<rparr>) = Inr c"
  using wf_Ingress_UP [OF assms] by (auto simp: socks5_ingress_credential_def gen_credentials_def)

lemma create_ingress_built:
  assumes laws: "crypto_laws (nt_crypto net)" and wf: "wf_Ingress ip vo"
  shows "built (ingress_build_error (nt_ssl net) vo) (\<lambda>i. ingress_kind i = (in_type vo, in_tls vo \<noteq> None))
    (create_ingress net sy (vo\<lparr>in_name := name\<rparr>) s)"
proof -
  let ?vo = "vo\<lparr>in_name := name\<rparr>"
  have "ingress_build_error (nt_ssl net) ?vo = ingress_build_error (nt_ssl net) vo"
    by (simp add: ingress_build_error_def fun_eq_iff)
  note tls = ingress_tls_built [of ?vo, where net = net, simplified this, simplified]
  note up = up_ingress_built [OF wf, where name = name] and plain = wf_Ingress_plain [OF wf]
  note bind = built_rbind [where Q = "\<lambda>_. True"]
  show ?thesis
  proof (cases "in_type vo")
    case DIRECT
    then show ?thesis using wf_Ingress_types [OF wf] by simp
  next
    case REJECT
    then show ?thesis using wf_Ingress_types [OF wf] by simp
  next
    case SOCKS5
    then obtain c where "socks5_ingress_credential ?vo = Inr c" using up(1) by auto
    then show ?thesis using SOCKS5 tls by (cases "in_tls vo") (auto simp: create_ingress_def intro!: bind)
  next
    case HTTP
    then obtain c where "gen_credentials (nt_http net) ?vo = Inr c" using up(2) by auto
    then show ?thesis using HTTP tls by (cases "in_tls vo") (auto simp: create_ingress_def intro!: bind)
  next
    case DUAL
    then show ?thesis using tls by (cases "in_tls vo") (auto simp: create_ingress_def intro!: bind)
  next
    case SS
    then show ?thesis using wf_Ingress_SS [OF wf SS] plain
      by (auto simp: create_ingress_def create_stream_ingress_def shadow_new_eq [OF laws])
  next
    case TROJAN
    obtain cred opt tl where t: "in_credential vo = Some (IC_Trojan cred)" "in_opt vo = Some (IO_Trojan opt)" "in_tls vo = Some tl"
      using wf_Ingress_TROJAN [OF wf TROJAN] by blast
    show ?thesis using TROJAN t tls [OF t(3), of s]
      by (auto simp: create_ingress_def trojan_passwords_def trojan_remote_def intro!: bind split: option.splits)
  qed (use plain in \<open>simp_all add: create_ingress_def\<close>)
qed

lemma up_egress_built:
  assumes "eg_server vo = Some server" and "eg_credential vo = map_option EC_Up cred"
  shows "eg_type vo = SOCKS5 \<Longrightarrow> built (egress_build_error sl vo) (\<lambda>_. True) (socks5_egress_new vo u)"
    and "built E (\<lambda>_. True) (http_egress_new lib vo u)"
  using assms by (cases cred; auto simp: socks5_egress_new_def http_egress_new_def gen_data_def gen_credential_def
      egress_build_error_def credential_overflow_def split: prod.splits)+

lemma wf_Egress_UP:
  assumes "wf_Egress ip vo" and "eg_type vo = HTTP \<or> eg_type vo = SOCKS5"
  obtains server cred where "eg_server vo = Some server" "eg_credential vo = map_option EC_Up cred"
proof -
  obtain server cred tls where "vo = (empty_egress (eg_type vo))\<lparr>eg_server := Some server,
      eg_credential := map_option EC_Up cred, eg_tls := tls\<rparr>"
    using assms by (auto simp: wf_Egress_def)
  from arg_cong [where f = eg_server, OF this] arg_cong [where f = eg_credential, OF this] show thesis
    by (intro that) simp_all
qed

lemma create_egress_built:
  assumes laws: "crypto_laws (nt_crypto net)" and wf: "wf_Egress ip vo"
  shows "built (egress_build_error (nt_ssl net) vo) (\<lambda>e. egress_kind e = (eg_type vo, eg_tls vo \<noteq> None))
    (create_egress net vo)"
proof -
  note tls = egress_tls_built and bind = built_rbind [where Q = "\<lambda>_. True"]
  show ?thesis
  proof (cases "eg_type vo")
    case SOCKS5
    then obtain server cred where c: "eg_server vo = Some server" "eg_credential vo = map_option EC_Up cred"
      using wf_Egress_UP [OF wf] by blast
    show ?thesis
      using SOCKS5 tls(1) [OF _ c(1)]
      by (cases "eg_tls vo") (auto simp: create_egress_def up_egress_built(1) [OF c SOCKS5] intro!: bind)
  next
    case HTTP
    then obtain server cred where c: "eg_server vo = Some server" "eg_credential vo = map_option EC_Up cred"
      using wf_Egress_UP [OF wf] by blast
    show ?thesis
      using HTTP tls(1) [OF _ c(1)]
      by (cases "eg_tls vo") (auto simp: create_egress_def up_egress_built(2) [OF c] intro!: bind)
  next
    case TROJAN
    then obtain server cred tl ws where "vo = (empty_egress TROJAN)\<lparr>eg_server := Some server,
        eg_credential := Some (EC_Trojan cred), eg_tls := Some tl, eg_websocket := ws\<rparr>"
      using wf by (auto simp: wf_Egress_def)
    then have vo: "eg_server vo = Some server" "eg_credential vo = Some (EC_Trojan cred)" "eg_tls vo = Some tl" by simp_all
    show ?thesis
      using TROJAN vo tls(2) [OF vo(3,1) TROJAN]
      by (auto simp: create_egress_def trojan_egress_new_def trojan_egress_credential_def intro!: bind split: option.splits)
  next
    case SS
    then obtain server opt where "vo = (empty_egress SS)\<lparr>eg_server := Some server, eg_opt := Some (EO_SS opt)\<rparr>"
      using wf by (auto simp: wf_Egress_def)
    then show ?thesis
      by (auto simp: create_egress_def create_stream_egress_def shadow_new_eq [OF laws] empty_egress_def)
  next
    case REJECT
    then obtain opt where "wf_RejectOption opt" "vo = (empty_egress REJECT)\<lparr>eg_opt := Some (EO_Reject opt)\<rparr>"
      using wf by (auto simp: wf_Egress_def)
    then show ?thesis
      by (cases "rj_mode opt"; cases "rj_delay opt")
         (auto simp: create_egress_def reject_new_def calc_delay_def empty_egress_def wf_RejectOption_def)
  next
    case DIRECT
    then have "vo = empty_egress DIRECT" using wf by (simp add: wf_Egress_def)
    then show ?thesis by (simp add: create_egress_def empty_egress_def)
  qed (use wf in \<open>auto simp: wf_Egress_def\<close>)
qed

section \<open>Properties\<close>

text \<open>
  C10: Every configuration the API accepts is turned into an adapter of the configured type, over TLS
  exactly when the configuration has TLS: the factory never dereferences an empty option, never asks a
  variant for another alternative, and never meets a type it does not know. It fails only for what the
  configuration cannot answer for, with that error: OpenSSL refuses the certificate, the key, the CA or
  the server name indication, or, undefined in the program, the name and the password of a SOCKS5 egress
  overflow the array they are put into.
\<close>

theorem accepted_adapters_built:
  assumes "crypto_laws (nt_crypto net)"
    and "parse_Ingress ip iv = Inr ivo" and "parse_Egress ip ev = Inr evo"
  shows "built (ingress_build_error (nt_ssl net) ivo) (\<lambda>i. ingress_kind i = (in_type ivo, in_tls ivo \<noteq> None))
      (create_ingress net sy (ivo\<lparr>in_name := name\<rparr>) s) \<and>
    built (egress_build_error (nt_ssl net) evo) (\<lambda>e. egress_kind e = (eg_type evo, eg_tls evo \<noteq> None))
      (create_egress net evo)"
  using create_ingress_built [OF assms(1) ingress.parse_wf [OF assms(2)]]
    create_egress_built [OF assms(1) egress.parse_wf [OF assms(3)]] by blast

definition sample_net :: "(socket, unit, unit) net" where
  "sample_net = \<lparr>nt_ip = sample_ip, nt_http = sample_http, nt_crypto = sample_crypto, nt_hex = string_of,
     nt_sha224 = sample_hash, nt_ssl = sample_ssl,
     nt_ws = \<lparr>wl_new = (), wl_accept = (\<lambda>_. ioret (Inr ())), wl_handshake = (\<lambda>_ _. ioret (Inr ())),
       wl_read_some = (\<lambda>n. on_fst (ly_read_some (tls_layer sample_ssl socket_layer) n)),
       wl_write_some = (\<lambda>bs. iobind (on_fst (ly_write (tls_layer sample_ssl socket_layer) bs)) (\<lambda>_. ioret (Inr (length bs)))),
       wl_close = ioret (Inr ())\<rparr>,
     nt_layer = socket_layer, nt_socket = sample_socket [], nt_local = (\<lambda>_. Inr (V4 [127, 0, 0, 1], 1234)),
     nt_remote = (\<lambda>_. Inr (V4 [10, 0, 0, 1])), nt_getsockopt = (\<lambda>_ _. Inr ([10, 0, 0, 2], [0, 80])),
     nt_salt = replicate 16 7, nt_draw = 42, nt_memory = replicate 512 0, nt_aborted = False\<rparr>"

theorem accepted_adapters_built_witness:
  "\<exists>ivo evo. parse_Ingress sample_ip sample_ingress_json = Inr ivo \<and> parse_Egress sample_ip sample_egress_json = Inr evo \<and>
    built (ingress_build_error sample_ssl ivo) (\<lambda>i. ingress_kind i = (in_type ivo, in_tls ivo \<noteq> None))
      (create_ingress sample_net (sentry_initialize sentry_new) (ivo\<lparr>in_name := ''in''\<rparr>) (sample_socket [])) \<and>
    built (egress_build_error sample_ssl evo) (\<lambda>e. egress_kind e = (eg_type evo, eg_tls evo \<noteq> None))
      (create_egress sample_net evo)"
proof -
  obtain ivo where i: "parse_Ingress sample_ip sample_ingress_json = Inr ivo" using sample_ingress_parses by blast
  obtain evo where e: "parse_Egress sample_ip sample_egress_json = Inr evo" using sample_egress_parses by blast
  have "crypto_laws (nt_crypto sample_net)" "nt_ssl sample_net = sample_ssl"
    using sample_crypto_laws by (simp_all add: sample_net_def)
  then show ?thesis
    using accepted_adapters_built [OF _ i e, of sample_net "sentry_initialize sentry_new" "''in''" "sample_socket []"] i e
    by (metis (no_types, lifting))
qed

lemma tls_context_sni: "tls_context_egress sl (opt\<lparr>te_sni := sni\<rparr>) sn = tls_context_egress sl opt sn"
  by (cases opt) (simp add: tls_context_egress_def Let_def split: option.split)

text \<open>
  The SNI of the options has no effect on an HTTP or SOCKS5 egress: the adapter that is built is the one
  without it.
\<close>

theorem sni_ignored:
  assumes "eg_type vo = HTTP \<or> eg_type vo = SOCKS5" and "eg_tls vo = Some opt"
  shows "create_egress net (vo\<lparr>eg_tls := Some (opt\<lparr>te_sni := sni\<rparr>)\<rparr>) = create_egress net vo"
  using assms
  by (auto simp: create_egress_def egress_tls_def egress_context_def tls_context_sni
      socks5_egress_new_def http_egress_new_def gen_data_def gen_credential_def)

text \<open>
  C35: A dual ingress is a SOCKS5 ingress to a client that opens with the byte 5 and an HTTP ingress to
  every other one: it learns the same endpoint or fails with the same error, consumes and answers the
  same bytes, and from then on is that ingress in the same state.
\<close>

theorem dual_serves_both:
  assumes "ly_accept ly s = (Inr (), s1)" and "ly_read ly 1 s1 = (Inr buf, s2)"
    and "socks5_ingress_credential vo = Inr sc" and "gen_credentials lib vo = Inr hc"
  shows "(buf ! 0 = 0x05 \<longrightarrow> (\<exists>d. dual_read_remote ip lib ly (dual_new vo s) = (fst (socks5_read_remote ip ly sc s), d) \<and>
      du_delegate d = Some (DD_Socks5 sc (snd (socks5_read_remote ip ly sc s))))) \<and>
    (buf ! 0 \<noteq> 0x05 \<longrightarrow> (\<exists>d. dual_read_remote ip lib ly (dual_new vo s) = (fst (http_read_remote ip lib ly hc (http_new s)), d) \<and>
      du_delegate d = Some (DD_Http hc (snd (http_read_remote ip lib ly hc (http_new s))))))"
  using assms
  by (auto simp: dual_read_remote_def dual_new_def on_dual_def dual_emplace_def visit_delegate_def iobind_def
      socks5_read_remote_def http_read_remote_def on_http_def http_new_def split: prod.splits)

theorem dual_serves_both_witness:
  "\<exists>d. dual_read_remote sample_ip sample_http socket_layer (dual_new (empty_ingress DUAL []) (sample_socket [[5], [0]])) =
      (fst (socks5_read_remote sample_ip socket_layer [] (sample_socket [[5], [0]])), d) \<and>
    du_delegate d = Some (DD_Socks5 [] (snd (socks5_read_remote sample_ip socket_layer [] (sample_socket [[5], [0]]))))"
proof -
  have 1: "ly_accept socket_layer (sample_socket [[5], [0]]) = (Inr (), sample_socket [[5], [0]])"
    by (simp add: socket_layer_def)
  have 2: "ly_read socket_layer 1 (sample_socket [[5], [0]]) = (Inr [5], sample_socket [[0]])"
    by (simp add: socket_layer_def stream_read.simps read_some_def sample_socket_def)
  show ?thesis
    using dual_serves_both [OF 1 2, of "empty_ingress DUAL []" "[]" sample_http "[]" sample_ip]
    by (simp add: socks5_ingress_credential_def gen_credentials_def empty_ingress_def)
qed

end
