(* ===== verification/Pichi_Route.thy ===== *)
theory Pichi_Route
  imports Pichi_Json
begin

text \<open>
  Rules and routes (\<^verbatim>\<open>include/pichi/vo/rule.hpp\<close>, \<^verbatim>\<open>src/vo/rule.cpp\<close>, \<^verbatim>\<open>include/pichi/vo/route.hpp\<close>,
  \<^verbatim>\<open>src/vo/route.cpp\<close>). A rule is a set of conditions, one list per kind; a route is the list of
  its rule groups with the egress each leads to, and the default egress. The default is optional
  when a route is parsed and required when it is printed.
\<close>

section \<open>Rules\<close>

record RuleVO =
  ru_range :: "string list"
  ru_ingress :: "string list"
  ru_type :: "AdapterType list"
  ru_pattern :: "string list"
  ru_domain :: "string list"
  ru_country :: "string list"
  ru_range_nr :: "string list"
  ru_country_nr :: "string list"

definition list_member :: "string \<Rightarrow> ('a \<Rightarrow> json) \<Rightarrow> 'a list \<Rightarrow> (string \<times> json) list" where
  "list_member k f xs = (if xs \<noteq> [] then [(k, toJson_array f xs)] else [])"

definition toJson_Rule :: "RuleVO \<Rightarrow> json" where
  "toJson_Rule r = JObject
     (list_member rule_RANGE toJson_string (ru_range r) @
      list_member rule_RANGE_NR toJson_string (ru_range_nr r) @
      list_member rule_INGRESS toJson_string (ru_ingress r) @
      list_member rule_TYPE toJson_AdapterType (ru_type r) @
      list_member rule_PATTERN toJson_string (ru_pattern r) @
      list_member rule_DOMAIN_NAME toJson_string (ru_domain r) @
      list_member rule_COUNTRY toJson_string (ru_country r) @
      list_member rule_COUNTRY_NR toJson_string (ru_country_nr r))"

definition parse_Rule :: "json \<Rightarrow> RuleVO result" where
  "parse_Rule v =
     rthen (assertTrue (IsObject v) BAD_JSON OBJ_TYPE_ERROR)
    (rbind (parseArray v rule_RANGE parse_string) (\<lambda>range.
     rbind (parseArray v rule_RANGE_NR parse_string) (\<lambda>range_nr.
     rbind (parseArray v rule_INGRESS parse_string) (\<lambda>ingress.
     rbind (parseArray v rule_TYPE parse_AdapterType) (\<lambda>type.
     rbind (parseArray v rule_PATTERN parse_string) (\<lambda>pattern.
     rbind (parseArray v rule_DOMAIN_NAME parse_string) (\<lambda>domain.
     rbind (parseArray v rule_COUNTRY parse_string) (\<lambda>country.
     rbind (parseArray v rule_COUNTRY_NR parse_string) (\<lambda>country_nr.
     Inr \<lparr>ru_range = range, ru_ingress = ingress, ru_type = type, ru_pattern = pattern,
          ru_domain = domain, ru_country = country, ru_range_nr = range_nr,
          ru_country_nr = country_nr\<rparr>)))))))))"

definition Rule_eq :: "RuleVO \<Rightarrow> RuleVO \<Rightarrow> bool" where
  "Rule_eq l r \<longleftrightarrow> ru_range l = ru_range r \<and> ru_range_nr l = ru_range_nr r \<and>
     ru_ingress l = ru_ingress r \<and> ru_type l = ru_type r \<and> ru_pattern l = ru_pattern r \<and>
     ru_domain l = ru_domain r \<and> ru_country l = ru_country r \<and> ru_country_nr l = ru_country_nr r"

section \<open>Routes\<close>

record RouteVO =
  rt_default :: "string option"
  rt_rules :: "(string list \<times> string) list"

definition toJson_group :: "string list \<times> string \<Rightarrow> json" where
  "toJson_group item = JArray (map toJson_string (fst item) @ [toJson_string (snd item)])"

definition toJson_Route :: "RouteVO \<Rightarrow> json result" where
  "toJson_Route r =
     rthen (assertTrue (has_value (rt_default r)) MISC '''')
    (rbind (deref (rt_default r)) (\<lambda>d.
     rthen (assertFalse (d = []) MISC '''')
    (Inr (JObject [(route_DEFAULT, toJson_string d),
                   (route_RULES, JArray (map toJson_group (rt_rules r)))]))))"

definition parse_group :: "json \<Rightarrow> (string list \<times> string) result" where
  "parse_group v =
     rthen (assertTrue (IsArray v) BAD_JSON ARY_TYPE_ERROR)
    (rthen (assertTrue (2 \<le> length (GetArray v)) BAD_JSON ARY_SIZE_ERROR)
    (rbind (mapM parse_string (butlast (GetArray v))) (\<lambda>names.
     rbind (parse_string (last (GetArray v))) (\<lambda>egress. Inr (names, egress)))))"

definition parse_Route :: "json \<Rightarrow> RouteVO result" where
  "parse_Route v =
     rthen (assertTrue (IsObject v) BAD_JSON OBJ_TYPE_ERROR)
    (rbind (if HasMember v route_DEFAULT
            then rbind (parse_string (member_of v route_DEFAULT)) (\<lambda>d. Inr (Some d))
            else Inr None) (\<lambda>default.
     rbind (parseArray v route_RULES parse_group) (\<lambda>rules.
     Inr \<lparr>rt_default = default, rt_rules = rules\<rparr>)))"

definition Route_eq :: "RouteVO \<Rightarrow> RouteVO \<Rightarrow> bool" where
  "Route_eq l r \<longleftrightarrow> rt_default l = rt_default r \<and> rt_rules l = rt_rules r"

section \<open>Well-formed rules and routes\<close>

definition wf_Rule :: "RuleVO \<Rightarrow> bool" where
  "wf_Rule r \<longleftrightarrow> list_all wf_string (ru_range r) \<and> list_all wf_string (ru_ingress r) \<and>
     list_all wf_string (ru_pattern r) \<and> list_all wf_string (ru_domain r) \<and>
     list_all wf_string (ru_country r) \<and> list_all wf_string (ru_range_nr r) \<and>
     list_all wf_string (ru_country_nr r)"

definition wf_group :: "string list \<times> string \<Rightarrow> bool" where
  "wf_group g \<longleftrightarrow> fst g \<noteq> [] \<and> list_all wf_string (fst g) \<and> wf_string (snd g)"

definition wf_Route :: "RouteVO \<Rightarrow> bool" where
  "wf_Route r \<longleftrightarrow> (case rt_default r of None \<Rightarrow> True | Some d \<Rightarrow> wf_string d) \<and>
     list_all wf_group (rt_rules r)"

lemma strings_roundtrip [simp]:
  "list_all wf_string ss \<Longrightarrow> mapM parse_string (map toJson_string ss) = Inr ss"
  "mapM parse_AdapterType (map toJson_AdapterType ts) = Inr ts"
  using mapM_map_total [of ss parse_string toJson_string id]
    mapM_map_total [of ts parse_AdapterType toJson_AdapterType id]
  by (simp_all add: list_all_iff)

lemma strings_wf: "mapM parse_string vs = Inr ss \<Longrightarrow> list_all wf_string ss"
  using str.mapM_wf by (auto simp: list_all_iff)

lemma array_strings_wf: "parseArray v k parse_string = Inr ss \<Longrightarrow> list_all wf_string ss"
  using str.parseArray_wf by (auto simp: list_all_iff)

lemma parseArray_list_member:
  "parseArray (JObject (list_member k f xs @ ms)) j p =
     (if j = k \<and> xs \<noteq> [] then mapM p (map f xs) else parseArray (JObject ms) j p)"
  "parseArray (JObject (list_member k f xs)) j p =
     (if j = k \<and> xs \<noteq> [] then mapM p (map f xs) else Inr [])"
  by (simp_all add: list_member_def parseArray_def toJson_array_def)

lemma if_nonempty_Inr: "(if xs \<noteq> [] then Inr xs else Inr []) = Inr xs"
  by simp

interpretation rule: vo_codec parse_Rule "\<lambda>r. Inr (toJson_Rule r)" wf_Rule
proof
  show "parse_Rule v = Inr r \<Longrightarrow> wf_Rule r" for v r
    using array_strings_wf [of v] by (auto simp: parse_Rule_def wf_Rule_def result_simps)
  show "parse_Rule v = Inl e \<Longrightarrow> client_error e" for v e
    using str.parseArray_error [of v] adapter.parseArray_error [of v]
    by (auto simp: parse_Rule_def result_simps)
  show "\<exists>j. Inr (toJson_Rule r) = Inr j \<and> parse_Rule j = Inr r" if "wf_Rule r" for r
    using that
    by (cases r) (simp add: parse_Rule_def toJson_Rule_def wf_Rule_def parseArray_list_member
      if_nonempty_Inr cong: if_cong)
qed

lemma Rule_eq_iff: "Rule_eq l r \<longleftrightarrow> l = r"
  by (cases l; cases r) (auto simp: Rule_eq_def)

interpretation rgroup: vo_codec parse_group "\<lambda>g. Inr (toJson_group g)" wf_group
proof
  show "wf_group g" if p: "parse_group v = Inr g" for v g
  proof -
    have "2 \<le> length (GetArray v)" "mapM parse_string (butlast (GetArray v)) = Inr (fst g)"
      "parse_string (last (GetArray v)) = Inr (snd g)"
      using p by (auto simp: parse_group_def result_simps)
    moreover from this have "length (fst g) = length (GetArray v) - 1"
      using mapM_Inr_length by fastforce
    ultimately show ?thesis using strings_wf str.parse_wf by (auto simp: wf_group_def)
  qed
  show "wf_group g \<Longrightarrow> \<exists>j. Inr (toJson_group g) = Inr j \<and> parse_group j = Inr g" for g
    by (cases "fst g"; cases g) (auto simp: wf_group_def toJson_group_def parse_group_def
      butlast_append)
  show "parse_group v = Inl e \<Longrightarrow> client_error e" for v e
    using str.mapM_error str.parse_error by (auto simp: parse_group_def result_simps)
qed

lemma parse_Route_wf: "parse_Route v = Inr r \<Longrightarrow> wf_Route r"
  using rgroup.parseArray_wf [of v] str.parse_wf
  by (auto simp: parse_Route_def wf_Route_def result_simps list_all_iff split: if_splits)

lemma parse_Route_error: "parse_Route v = Inl e \<Longrightarrow> client_error e"
  using rgroup.parseArray_error [of v] str.parse_error
  by (auto simp: parse_Route_def result_simps split: if_splits)

lemma groups_roundtrip [simp]:
  "list_all wf_group gs \<Longrightarrow> mapM parse_group (map toJson_group gs) = Inr gs"
  using mapM_map_total [of gs parse_group toJson_group id] rgroup.toJson_total
  by (simp add: list_all_iff)

text \<open>A route prints exactly when it has a default, and what is printed parses back.\<close>

lemma toJson_Route_total: "wf_Route r \<Longrightarrow> (\<exists>j. toJson_Route r = Inr j) \<longleftrightarrow> rt_default r \<noteq> None"
  by (cases r; cases "rt_default r")
     (auto simp: toJson_Route_def wf_Route_def wf_string_def fail_with_def)

lemma Route_roundtrip: "wf_Route r \<Longrightarrow> toJson_Route r = Inr j \<Longrightarrow> parse_Route j = Inr r"
  by (cases r) (auto simp: toJson_Route_def parse_Route_def parseArray_def wf_Route_def result_simps)

lemma Route_eq_iff: "Route_eq l r \<longleftrightarrow> l = r"
  by (cases l; cases r) (auto simp: Route_eq_def)

section \<open>Properties\<close>

text \<open>
  Every rule the API accepts prints to an object that parses to the same rule; empty lists of
  conditions are left out and come back empty.
\<close>

theorem rule_reparse:
  assumes "parse_Rule v = Inr r"
  shows "parse_Rule (toJson_Rule r) = Inr r"
  using rule.reparse [OF assms] by auto

theorem rule_reparse_witness:
  "\<exists>r. parse_Rule (JObject [(rule_DOMAIN_NAME, JArray [JString ''example.com''])]) = Inr r \<and>
       parse_Rule (toJson_Rule r) = Inr r"
proof -
  have "case parse_Rule (JObject [(rule_DOMAIN_NAME, JArray [JString ''example.com''])]) of
      Inl _ \<Rightarrow> False | Inr _ \<Rightarrow> True" by code_simp
  then obtain r where "parse_Rule (JObject [(rule_DOMAIN_NAME, JArray [JString ''example.com''])]) = Inr r"
    by (auto split: sum.splits)
  then show ?thesis using rule_reparse by blast
qed

text \<open>
  A route the API accepts can be printed exactly when it has a default egress, and then it
  parses to the same route; without a default, printing throws.
\<close>

theorem route_reparse:
  assumes "parse_Route v = Inr r"
  shows "if rt_default r = None then \<exists>e. toJson_Route r = Inl e
         else \<exists>j. toJson_Route r = Inr j \<and> parse_Route j = Inr r"
  using parse_Route_wf [OF assms] toJson_Route_total [of r] Route_roundtrip [of r]
  by (cases "toJson_Route r") auto

theorem route_reparse_witness:
  "let r = \<lparr>rt_default = Some ''direct'', rt_rules = [([''ads''], ''blackhole'')]\<rparr> in
   if rt_default r = None then \<exists>e. toJson_Route r = Inl e
   else \<exists>j. toJson_Route r = Inr j \<and> parse_Route j = Inr r"
proof -
  have "parse_Route (JObject [(route_DEFAULT, JString ''direct''),
      (route_RULES, JArray [JArray [JString ''ads'', JString ''blackhole'']])]) =
      Inr \<lparr>rt_default = Some ''direct'', rt_rules = [([''ads''], ''blackhole'')]\<rparr>" by code_simp
  from route_reparse [OF this] show ?thesis by simp
qed

end
