(* ===== verification/Pichi_Router.thy ===== *)
theory Pichi_Router
  imports Pichi_Egress Pichi_Route
begin

text \<open>
  The router (\<^verbatim>\<open>include/pichi/actor/router.hpp\<close>, \<^verbatim>\<open>src/actor/router.cpp\<close>) and the country database
  service it consults (\<^verbatim>\<open>src/service/mmdb.cpp\<close>).

  A router is built from the server's egresses, rules and route: one matcher per rule name of the
  route, in order, and the default. \<open>route\<close> walks through the matchers; the first that matches wins.
  The host name is resolved at most once, and only when a matcher that asks for it is reached.

  The regular expressions of the standard library and the country database library are parameters:
  \<open>rx_valid\<close> tells whether a pattern compiles, \<open>rx_search\<close> searches (it may throw), \<open>mm_find\<close> and
  \<open>mm_country\<close> are the database lookups. The pending resolution is an awaitable that is moved
  when it is awaited: \<open>Some r\<close> is an awaitable that will give \<open>r\<close>, \<open>None\<close> one that is gone.
\<close>

section \<open>Libraries\<close>

record regex_lib =
  rx_valid :: "string \<Rightarrow> bool"
  rx_search :: "string \<Rightarrow> string \<Rightarrow> bool option"

datatype mmdb_value = MV_missing | MV_utf8 string | MV_other

record mmdb_lib =
  mm_open :: "string \<Rightarrow> string option"
  mm_find :: "string \<Rightarrow> ip_address \<Rightarrow> nat option"
  mm_country :: "string \<Rightarrow> nat \<Rightarrow> mmdb_value"

section \<open>The country database service\<close>

text \<open>
  \<open>md_db\<close> is \<^verbatim>\<open>db_\<close>: the inner option tells whether the handle was opened. \<^verbatim>\<open>call_once\<close> leaves the flag
  unset when the function throws.
\<close>

record mmdb =
  md_flag :: bool
  md_db :: "string option option"

definition mmdb_new :: mmdb where
  "mmdb_new = \<lparr>md_flag = False, md_db = None\<rparr>"

definition mmdb_initialize :: "mmdb_lib \<Rightarrow> string \<Rightarrow> (mmdb, unit) io" where
  "mmdb_initialize lib fn s =
     (if md_flag s then (Inr (), s)
      else case mm_open lib (c_str fn) of
        Some msg \<Rightarrow> (fail_misc msg, s\<lparr>md_db := Some None\<rparr>)
      | None \<Rightarrow> (Inr (), \<lparr>md_flag = True, md_db = Some (Some (c_str fn))\<rparr>))"

definition mmdb_shutdown :: "mmdb \<Rightarrow> mmdb" where
  "mmdb_shutdown s = s\<lparr>md_db := None\<rparr>"

definition mmdb_match :: "mmdb_lib \<Rightarrow> mmdb \<Rightarrow> ip_address \<Rightarrow> string \<Rightarrow> bool result" where
  "mmdb_match lib s addr country =
     (case md_db s of
        None \<Rightarrow> Inr False
      | Some None \<Rightarrow> Inl UB
      | Some (Some db) \<Rightarrow>
          (case mm_find lib db addr of
             None \<Rightarrow> Inr False
           | Some entry \<Rightarrow>
               (case mm_country lib db entry of
                  MV_missing \<Rightarrow> Inr False
                | MV_other \<Rightarrow> fail_misc ''''
                | MV_utf8 str \<Rightarrow> Inr (str = country))))"

section \<open>Matchers\<close>

text \<open>\<^verbatim>\<open>std::ranges::any_of\<close> with a predicate that may throw; it stops at the first hit.\<close>

fun any_ofM :: "('a \<Rightarrow> bool result) \<Rightarrow> 'a list \<Rightarrow> bool result" where
  "any_ofM f [] = Inr False"
| "any_ofM f (x # xs) = rbind (f x) (\<lambda>b. if b then Inr True else any_ofM f xs)"

definition to_lower_str :: "string \<Rightarrow> string" where
  "to_lower_str orig = map tolower orig"

type_synonym ResolveResults = "ip_address list"

record Matcher =
  ma_rname :: string
  ma_ename :: string
  ma_egress :: EgressVO
  ma_resolve :: bool
  ma_ranges4 :: "network list"
  ma_ranges6 :: "network list"
  ma_inames :: "string set"
  ma_types :: "AdapterType set"
  ma_patterns :: "string list"
  ma_domains :: "string list"
  ma_countries :: "string list"

record router_env =
  re_ip :: ip_lib
  re_regex :: regex_lib
  re_mmdb_lib :: mmdb_lib
  re_mmdb :: mmdb

fun match_address :: "ip_lib \<Rightarrow> Matcher \<Rightarrow> ip_address \<Rightarrow> bool" where
  "match_address ip m (V4 b) = list_ex (\<lambda>net. hosts_find_v4 ip net b) (ma_ranges4 m)"
| "match_address ip m (V6 b) = list_ex (\<lambda>net. hosts_find_v6 ip net b) (ma_ranges6 m)"

definition match_range :: "ip_lib \<Rightarrow> Matcher \<Rightarrow> ResolveResults \<Rightarrow> bool" where
  "match_range ip m rs = list_ex (match_address ip m) rs"

definition regex_search :: "regex_lib \<Rightarrow> string \<Rightarrow> string \<Rightarrow> bool result" where
  "regex_search rx peer pattern =
     (case rx_search rx pattern peer of None \<Rightarrow> Inl RegexError | Some b \<Rightarrow> Inr b)"

definition match_pattern :: "regex_lib \<Rightarrow> Matcher \<Rightarrow> string \<Rightarrow> bool result" where
  "match_pattern rx m peer = any_ofM (regex_search rx peer) (ma_patterns m)"

definition domain_matches :: "string \<Rightarrow> string \<Rightarrow> bool" where
  "domain_matches sub domain =
     (let d = rev domain;
          s = rev (if hd sub = CHR ''.'' then drop 1 sub else drop 0 sub);
          dot = take 1 (drop (length d) s)
      in d = take (length d) s \<and> (dot = [] \<or> hd dot = CHR ''.''))"

definition match_domain :: "Matcher \<Rightarrow> Endpoint \<Rightarrow> bool" where
  "match_domain m peer \<longleftrightarrow>
     ep_type peer = DOMAIN_NAME \<and> ep_host peer \<noteq> [] \<and>
     list_ex (domain_matches (to_lower_str (ep_host peer))) (ma_domains m)"

definition append_range ::
  "ip_lib \<Rightarrow> network list \<times> network list \<Rightarrow> string \<Rightarrow> (network list \<times> network list) result" where
  "append_range ip acc rng =
     (case make_network_v4 ip rng of
        Some n4 \<Rightarrow> Inr (fst acc @ [n4], snd acc)
      | None \<Rightarrow>
          (case make_network_v6 ip rng of
             None \<Rightarrow> fail_with SEMANTIC_ERROR ''''
           | Some n6 \<Rightarrow> Inr (fst acc, snd acc @ [n6])))"

definition compile_regex :: "regex_lib \<Rightarrow> string \<Rightarrow> string result" where
  "compile_regex rx s = (if rx_valid rx s then Inr s else Inl RegexError)"

definition strip_dot :: "string \<Rightarrow> string" where
  "strip_dot s = (if s = [] \<or> hd s \<noteq> CHR ''.'' then drop 0 s else drop 1 s)"

definition rule_domains :: "string list \<Rightarrow> string list" where
  "rule_domains ds = map to_lower_str (filter (\<lambda>v. v \<noteq> []) (map strip_dot ds))"

definition make_matcher ::
  "router_env \<Rightarrow> string \<Rightarrow> RuleVO \<Rightarrow> string \<Rightarrow> EgressVO \<Rightarrow> Matcher result" where
  "make_matcher env rname rule ename egress =
     rbind (foldM (append_range (re_ip env)) ([], []) (ru_range rule)) (\<lambda>acc.
     rbind (foldM (append_range (re_ip env)) acc (ru_range_nr rule)) (\<lambda>ranges.
     rbind (mapM (compile_regex (re_regex env)) (ru_pattern rule)) (\<lambda>patterns.
     Inr \<lparr>ma_rname = rname, ma_ename = ename, ma_egress = egress,
          ma_resolve = (ru_country rule \<noteq> [] \<or> ru_range rule \<noteq> []),
          ma_ranges4 = fst ranges, ma_ranges6 = snd ranges,
          ma_inames = set (ru_ingress rule), ma_types = set (ru_type rule),
          ma_patterns = patterns, ma_domains = rule_domains (ru_domain rule),
          ma_countries = ru_country rule @ ru_country_nr rule\<rparr>)))"

definition match_country :: "router_env \<Rightarrow> Matcher \<Rightarrow> ResolveResults \<Rightarrow> bool result" where
  "match_country env m rs =
     any_ofM (\<lambda>r. any_ofM (mmdb_match (re_mmdb_lib env) (re_mmdb env) r) (ma_countries m)) rs"

definition matcher_match ::
  "router_env \<Rightarrow> Matcher \<Rightarrow> Endpoint \<Rightarrow> string \<Rightarrow> AdapterType \<Rightarrow> ResolveResults option \<Rightarrow> bool result" where
  "matcher_match env m peer iname type rs =
     rbind (case rs of
              None \<Rightarrow> Inr False
            | Some r \<Rightarrow> if r = [] then Inr False
                        else if match_range (re_ip env) m r then Inr True
                        else match_country env m r) (\<lambda>b.
     if b then Inr True
     else if iname \<in> ma_inames m then Inr True
     else if type \<in> ma_types m then Inr True
     else rbind (match_pattern (re_regex env) m (ep_host peer)) (\<lambda>p.
     if p then Inr True else Inr (match_domain m peer)))"

section \<open>The router\<close>

record Router =
  ro_matchers :: "Matcher list"
  ro_default :: "string \<times> string \<times> EgressVO"

definition rule_matcher ::
  "router_env \<Rightarrow> EgressVO value_map \<Rightarrow> RuleVO value_map \<Rightarrow> string \<Rightarrow> string \<Rightarrow> Matcher result" where
  "rule_matcher env egresses rules ename rname =
     rthen (assertTrue (map_contains rules rname) MISC '''')
    (rthen (assertTrue (map_contains egresses ename) MISC '''')
    (rbind (map_at rules rname) (\<lambda>rule.
     rbind (map_at egresses ename) (\<lambda>egress. make_matcher env rname rule ename egress))))"

definition parse_group_matchers ::
  "router_env \<Rightarrow> EgressVO value_map \<Rightarrow> RuleVO value_map \<Rightarrow> string list \<times> string \<Rightarrow> Matcher list result" where
  "parse_group_matchers env egresses rules p = mapM (rule_matcher env egresses rules (snd p)) (fst p)"

definition parse_route ::
  "router_env \<Rightarrow> RouteVO \<Rightarrow> EgressVO value_map \<Rightarrow> RuleVO value_map \<Rightarrow> Matcher list result" where
  "parse_route env route egresses rules =
     rbind (mapM (parse_group_matchers env egresses rules) (rt_rules route)) (\<lambda>ms. Inr (concat ms))"

definition make_router ::
  "router_env \<Rightarrow> EgressVO value_map \<Rightarrow> RuleVO value_map \<Rightarrow> RouteVO \<Rightarrow> Router result" where
  "make_router env egresses rules route =
     rbind (parse_route env route egresses rules) (\<lambda>ms.
     rbind (deref (rt_default route)) (\<lambda>d.
     rbind (map_at egresses d) (\<lambda>e.
     Inr \<lparr>ro_matchers = ms, ro_default = (''*'', d, e)\<rparr>)))"

type_synonym pending = "ResolveResults result option"

text \<open>\<^verbatim>\<open>redirect(std::move(resolve), ec)\<close>: a system error becomes its code, others pass through.\<close>

definition redirect_resolve :: "(pending, error_code option \<times> ResolveResults option) io" where
  "redirect_resolve p = (case p of
     None \<Rightarrow> (Inl UB, None)
   | Some (Inr rs) \<Rightarrow> (Inr (None, Some rs), None)
   | Some (Inl (SystemError ec _)) \<Rightarrow> (Inr (Some ec, None), None)
   | Some (Inl e) \<Rightarrow> (Inl e, None))"

definition resolve_now :: "(pending, ResolveResults) io" where
  "resolve_now = iobind redirect_resolve (\<lambda>(ec, rs).
     if ec = Some (makeErrorCode MISC) then ioret (Inl (SystemError (makeErrorCode MISC) ''''))
     else ioret (Inr (case rs of None \<Rightarrow> [] | Some r \<Rightarrow> r)))"

fun route_from ::
  "router_env \<Rightarrow> string \<times> string \<times> EgressVO \<Rightarrow> Endpoint \<Rightarrow> string \<Rightarrow> AdapterType \<Rightarrow> Matcher list \<Rightarrow>
   ResolveResults option \<Rightarrow> (pending, string \<times> string \<times> EgressVO) io" where
  "route_from env dflt peer iname itype [] rs = ioret (Inr dflt)"
| "route_from env dflt peer iname itype (m # ms) rs =
     iobind (if rs = None \<and> ma_resolve m then iobind resolve_now (\<lambda>r. ioret (Inr (Some r)))
             else ioret (Inr rs)) (\<lambda>rs.
     iobind (ioret (matcher_match env m peer iname itype rs)) (\<lambda>hit.
     if hit then ioret (Inr (ma_rname m, ma_ename m, ma_egress m))
     else route_from env dflt peer iname itype ms rs))"

definition route ::
  "router_env \<Rightarrow> Router \<Rightarrow> Endpoint \<Rightarrow> string \<Rightarrow> AdapterType \<Rightarrow> (pending, string \<times> string \<times> EgressVO) io"
where
  "route env router peer iname itype =
     iobind (ioret (if ep_type peer \<noteq> DOMAIN_NAME
                    then (case make_address (re_ip env) (ep_host peer) of
                            None \<Rightarrow> Inl (SystemError (Asio_code asio_invalid_argument) '''')
                          | Some a \<Rightarrow> Inr (Some [a]))
                    else Inr None)) (\<lambda>rs.
     route_from env (ro_default router) peer iname itype (ro_matchers router) rs)"

section \<open>Domain names\<close>

lemma rev_take_suffix: "rev d = take (length d) (rev s) \<longleftrightarrow> (\<exists>p. s = p @ d)"
proof
  assume "rev d = take (length d) (rev s)"
  then have "rev s = rev d @ drop (length d) (rev s)" by simp
  then have "s = rev (drop (length d) (rev s)) @ d"
    by (metis rev_append rev_rev_ident)
  then show "\<exists>p. s = p @ d" ..
qed auto

lemma dot_test: "take 1 xs = [] \<or> hd (take 1 xs) = c \<longleftrightarrow> xs = [] \<or> (\<exists>ys. xs = c # ys)"
  by (cases xs) auto

lemma rev_eq_Cons: "rev p = c # ys \<longleftrightarrow> p = rev ys @ [c]"
  by (metis rev.simps(2) rev_rev_ident)

lemma domain_matches_iff: "sub \<noteq> [] \<Longrightarrow>
  domain_matches sub d \<longleftrightarrow> strip_dot sub = d \<or> (\<exists>p. strip_dot sub = p @ CHR ''.'' # d)"
proof -
  assume "sub \<noteq> []"
  then have s: "(if hd sub = CHR ''.'' then drop 1 sub else drop 0 sub) = strip_dot sub"
    by (simp add: strip_dot_def)
  show ?thesis
    unfolding domain_matches_def Let_def s length_rev rev_take_suffix dot_test
    by (auto simp: rev_eq_Cons)
qed

section \<open>Matching\<close>

lemma any_ofM_total:
  assumes "\<And>x. x \<in> set xs \<Longrightarrow> f x = Inr (P x)"
  shows "any_ofM f xs = Inr (list_ex P xs)"
  using assms by (induction xs) auto

lemma any_ofM_Inl: "any_ofM f xs = Inl e \<Longrightarrow> \<exists>x \<in> set xs. f x = Inl e"
  by (induction xs) (auto simp: result_simps split: if_splits)

text \<open>Without exceptions, a matcher is the disjunction of its conditions.\<close>

definition env_total :: "router_env \<Rightarrow> bool" where
  "env_total env \<longleftrightarrow>
     (\<forall>pat s. rx_search (re_regex env) pat s \<noteq> None) \<and> md_db (re_mmdb env) \<noteq> Some None \<and>
     (\<forall>db e. mm_country (re_mmdb_lib env) db e \<noteq> MV_other)"

definition country_of :: "router_env \<Rightarrow> ip_address \<Rightarrow> string option" where
  "country_of env a = (case md_db (re_mmdb env) of
     Some (Some db) \<Rightarrow> (case mm_find (re_mmdb_lib env) db a of
         Some entry \<Rightarrow> (case mm_country (re_mmdb_lib env) db entry of MV_utf8 c \<Rightarrow> Some c | _ \<Rightarrow> None)
       | None \<Rightarrow> None)
   | _ \<Rightarrow> None)"

lemma mmdb_match_total:
  "env_total env \<Longrightarrow> mmdb_match (re_mmdb_lib env) (re_mmdb env) a c = Inr (country_of env a = Some c)"
  by (auto simp: mmdb_match_def country_of_def env_total_def fail_misc_def fail_with_def
      split: option.splits mmdb_value.splits)

lemma regex_search_total: "env_total env \<Longrightarrow>
  regex_search (re_regex env) peer pat = Inr (rx_search (re_regex env) pat peer = Some True)"
  by (auto simp: regex_search_def env_total_def split: option.splits)

lemma matcher_match_total:
  assumes "env_total env"
  shows "matcher_match env m peer iname itype rs = Inr
    ((case rs of None \<Rightarrow> False
      | Some r \<Rightarrow> (\<exists>a \<in> set r. match_address (re_ip env) m a \<or>
                    (\<exists>c \<in> set (ma_countries m). country_of env a = Some c))) \<or>
     iname \<in> ma_inames m \<or> itype \<in> ma_types m \<or>
     (\<exists>pat \<in> set (ma_patterns m). rx_search (re_regex env) pat (ep_host peer) = Some True) \<or>
     match_domain m peer)"
proof -
  have "match_country env m r =
      Inr (\<exists>a \<in> set r. \<exists>c \<in> set (ma_countries m). country_of env a = Some c)" for r
    unfolding match_country_def
    by (subst any_ofM_total, rule any_ofM_total, rule mmdb_match_total [OF assms])
       (simp add: list_ex_iff)
  moreover have "match_pattern (re_regex env) m (ep_host peer) =
      Inr (\<exists>pat \<in> set (ma_patterns m). rx_search (re_regex env) pat (ep_host peer) = Some True)"
    unfolding match_pattern_def
    by (subst any_ofM_total, rule regex_search_total [OF assms]) (simp add: list_ex_iff)
  ultimately show ?thesis
    by (cases rs) (auto simp: matcher_match_def match_range_def list_ex_iff)
qed

section \<open>Routing\<close>

text \<open>
  What the loop sees when it reaches matcher \<open>i\<close>: the results it started with, or, once a matcher up
  to \<open>i\<close> asked for them, the resolved ones (\<open>r\<close>).
\<close>

definition results_at ::
  "Matcher list \<Rightarrow> ResolveResults option \<Rightarrow> ResolveResults \<Rightarrow> nat \<Rightarrow> ResolveResults option" where
  "results_at ms rs r i =
     (if rs = None \<and> list_ex ma_resolve (take (Suc i) ms) then Some r else rs)"

definition hits ::
  "router_env \<Rightarrow> Endpoint \<Rightarrow> string \<Rightarrow> AdapterType \<Rightarrow> Matcher list \<Rightarrow> ResolveResults option \<Rightarrow>
   ResolveResults \<Rightarrow> nat \<Rightarrow> bool" where
  "hits env peer iname itype ms rs r i =
     (matcher_match env (ms ! i) peer iname itype (results_at ms rs r i) = Inr True)"

definition outcome :: "Matcher \<Rightarrow> string \<times> string \<times> EgressVO" where
  "outcome m = (ma_rname m, ma_ename m, ma_egress m)"

definition first_hit ::
  "router_env \<Rightarrow> string \<times> string \<times> EgressVO \<Rightarrow> Endpoint \<Rightarrow> string \<Rightarrow> AdapterType \<Rightarrow> Matcher list \<Rightarrow>
   ResolveResults option \<Rightarrow> ResolveResults \<Rightarrow> string \<times> string \<times> EgressVO" where
  "first_hit env dflt peer iname itype ms rs r =
     (case find (hits env peer iname itype ms rs r) [0..<length ms] of
        None \<Rightarrow> dflt | Some i \<Rightarrow> outcome (ms ! i))"

definition resolves_to :: "pending \<Rightarrow> ResolveResults \<Rightarrow> bool" where
  "resolves_to p r \<longleftrightarrow> resolve_now p = (Inr r, None)"

lemma resolves_to_Some [simp]: "resolves_to (Some (Inr rs)) r \<longleftrightarrow> r = rs"
  by (auto simp: resolves_to_def resolve_now_def redirect_resolve_def iobind_def)

lemma resolves_to_error: "ec \<noteq> Pichi_code MISC \<Longrightarrow>
  resolves_to (Some (Inl (SystemError ec msg))) r \<longleftrightarrow> r = []"
  by (auto simp: resolves_to_def resolve_now_def redirect_resolve_def iobind_def makeErrorCode_def)

lemma results_at_Suc:
  "results_at (m # ms) rs r (Suc i) = results_at ms (results_at (m # ms) rs r 0) r i"
  by (auto simp: results_at_def)

lemma hits_Suc: "hits env peer iname itype (m # ms) rs r (Suc i) =
  hits env peer iname itype ms (results_at (m # ms) rs r 0) r i"
  by (simp add: hits_def results_at_Suc)

lemma find_upt_Suc:
  "find P [0..<Suc n] = (if P 0 then Some 0 else map_option Suc (find (\<lambda>i. P (Suc i)) [0..<n]))"
proof -
  have "find P (map Suc xs) = map_option Suc (find (\<lambda>i. P (Suc i)) xs)" for xs
    by (induction xs) auto
  then show ?thesis by (simp add: upt_conv_Cons map_Suc_upt [symmetric] del: upt_Suc)
qed

lemma first_hit_Cons: "first_hit env dflt peer iname itype (m # ms) rs r =
  (if hits env peer iname itype (m # ms) rs r 0 then outcome m
   else first_hit env dflt peer iname itype ms (results_at (m # ms) rs r 0) r)"
  by (auto simp: first_hit_def find_upt_Suc hits_Suc simp del: upt_Suc split: option.splits)

lemma route_from_first_hit:
  assumes "\<And>m rs. m \<in> set ms \<Longrightarrow> \<exists>b. matcher_match env m peer iname itype rs = Inr b"
    and "rs = None \<Longrightarrow> resolves_to p r"
  shows "fst (route_from env dflt peer iname itype ms rs p) =
    Inr (first_hit env dflt peer iname itype ms rs r)"
  using assms
proof (induction ms arbitrary: rs p)
  case Nil
  then show ?case by (simp add: first_hit_def)
next
  case (Cons m ms)
  define q where "q = (if rs = None \<and> ma_resolve m then None else p)"
  define t where "t = results_at (m # ms) rs r 0"
  obtain b where b: "matcher_match env m peer iname itype t = Inr b"
    using Cons.prems(1) [of m] by auto
  have "(if rs = None \<and> ma_resolve m then iobind resolve_now (\<lambda>r. ioret (Inr (Some r)))
         else ioret (Inr rs)) p = (Inr t, q)"
    using Cons.prems(2) by (auto simp: t_def q_def results_at_def resolves_to_def iobind_def)
  moreover have "fst (route_from env dflt peer iname itype ms t q) =
      Inr (first_hit env dflt peer iname itype ms t r)"
    using Cons.prems by (intro Cons.IH) (auto simp: t_def q_def results_at_def split: if_splits)
  ultimately show ?case
    by (simp add: first_hit_Cons b hits_def t_def [symmetric] outcome_def iobind_def)
qed

lemma route_from_pending:
  assumes "\<And>m rs. m \<in> set ms \<Longrightarrow> \<exists>b. matcher_match env m peer iname itype rs = Inr b"
    and "resolves_to (Some p) r"
  shows "snd (route_from env dflt peer iname itype ms None (Some p)) = None \<longleftrightarrow>
    (\<exists>j < length ms. ma_resolve (ms ! j) \<and> (\<forall>i < j. \<not> hits env peer iname itype ms None r i))"
  using assms(1)
proof (induction ms)
  case Nil
  then show ?case by simp
next
  case (Cons m ms)
  show ?case
  proof (cases "ma_resolve m")
    case True
    have gone: "snd (route_from env dflt peer iname itype xs (Some q) None) = None" for xs q
      by (induction xs arbitrary: q) (auto simp: iobind_def split: sum.splits)
    have "snd (route_from env dflt peer iname itype (m # ms) None (Some p)) = None"
      using assms(2) True gone by (auto simp: resolves_to_def iobind_def split: sum.splits)
    then show ?thesis using True by auto
  next
    case False
    then have t: "results_at (m # ms) None r 0 = None" by (simp add: results_at_def)
    obtain b where b: "matcher_match env m peer iname itype None = Inr b"
      using Cons.prems [of m] by auto
    then have h: "hits env peer iname itype (m # ms) None r 0 \<longleftrightarrow> b"
      by (simp add: hits_def t)
    show ?thesis
      using False Cons b h
      by (auto simp: iobind_def All_less_Suc2 Ex_less_Suc2 hits_Suc t)
  qed
qed

text \<open>Once there are results, the pending resolution is left alone.\<close>

lemma route_from_known: "snd (route_from env dflt peer iname itype ms (Some q) p) = p"
  by (induction ms arbitrary: q) (auto simp: iobind_def split: sum.splits)

section \<open>Construction\<close>

definition valid_range :: "ip_lib \<Rightarrow> string \<Rightarrow> bool" where
  "valid_range ip s \<longleftrightarrow> make_network_v4 ip s \<noteq> None \<or> make_network_v6 ip s \<noteq> None"

definition valid_rule :: "router_env \<Rightarrow> RuleVO \<Rightarrow> bool" where
  "valid_rule env r \<longleftrightarrow> list_all (valid_range (re_ip env)) (ru_range r @ ru_range_nr r) \<and>
     list_all (rx_valid (re_regex env)) (ru_pattern r)"

definition nets_v4 :: "ip_lib \<Rightarrow> string list \<Rightarrow> network list" where
  "nets_v4 ip rs = List.map_filter (make_network_v4 ip) rs"

definition nets_v6 :: "ip_lib \<Rightarrow> string list \<Rightarrow> network list" where
  "nets_v6 ip rs = List.map_filter
     (\<lambda>s. if make_network_v4 ip s = None then make_network_v6 ip s else None) rs"

lemma append_ranges: "foldM (append_range ip) acc rs = Inr acc' \<longleftrightarrow>
  list_all (valid_range ip) rs \<and> acc' = (fst acc @ nets_v4 ip rs, snd acc @ nets_v6 ip rs)"
  by (induction rs arbitrary: acc)
     (auto simp: append_range_def valid_range_def fail_with_def nets_v4_def nets_v6_def
       map_filter_simps split: option.splits)

lemma append_ranges_Inl:
  "foldM (append_range ip) acc rs = Inl e \<Longrightarrow> e = SystemError (Pichi_code SEMANTIC_ERROR) ''''"
  by (induction rs arbitrary: acc)
     (auto simp: append_range_def result_simps split: option.splits)

lemma compile_patterns: "mapM (compile_regex rx) ps = Inr qs \<longleftrightarrow> list_all (rx_valid rx) ps \<and> qs = ps"
  by (induction ps arbitrary: qs) (auto simp: result_simps compile_regex_def)

lemma make_matcher_ok: "(\<exists>m. make_matcher env rn rule en eg = Inr m) \<longleftrightarrow> valid_rule env rule"
  by (auto simp: make_matcher_def valid_rule_def result_simps compile_patterns append_ranges)

lemma make_matcher_fields: "make_matcher env rn rule en eg = Inr m \<Longrightarrow>
  outcome m = (rn, en, eg) \<and> (ma_resolve m \<longleftrightarrow> ru_country rule \<noteq> [] \<or> ru_range rule \<noteq> []) \<and>
  ma_inames m = set (ru_ingress rule) \<and> ma_types m = set (ru_type rule) \<and>
  ma_patterns m = ru_pattern rule \<and> ma_domains m = rule_domains (ru_domain rule) \<and>
  ma_ranges4 m = nets_v4 (re_ip env) (ru_range rule @ ru_range_nr rule) \<and>
  ma_ranges6 m = nets_v6 (re_ip env) (ru_range rule @ ru_range_nr rule) \<and>
  ma_countries m = ru_country rule @ ru_country_nr rule"
  by (auto simp: make_matcher_def result_simps outcome_def compile_patterns append_ranges
      nets_v4_def nets_v6_def List.map_filter_def)

definition valid_group ::
  "router_env \<Rightarrow> EgressVO value_map \<Rightarrow> RuleVO value_map \<Rightarrow> string list \<times> string \<Rightarrow> bool" where
  "valid_group env egresses rules p \<longleftrightarrow> (\<forall>rn \<in> set (fst p).
     (case map_of rules rn of None \<Rightarrow> False | Some r \<Rightarrow> valid_rule env r) \<and>
     map_contains egresses (snd p))"

lemma mapM_ok: "(\<exists>ys. mapM f xs = Inr ys) \<longleftrightarrow> (\<forall>x \<in> set xs. \<exists>y. f x = Inr y)"
proof (induction xs)
  case (Cons x xs)
  then show ?case by (auto simp: result_simps)
qed simp

lemma rule_matcher_ok: "(\<exists>m. rule_matcher env egresses rules en rn = Inr m) \<longleftrightarrow>
  (case map_of rules rn of None \<Rightarrow> False | Some r \<Rightarrow> valid_rule env r) \<and> map_contains egresses en"
  using make_matcher_ok [of env rn _ en]
  by (auto simp: rule_matcher_def result_simps map_at_Inr_iff map_contains_def split: option.splits)

lemma parse_group_matchers_ok:
  "(\<exists>ms. parse_group_matchers env egresses rules p = Inr ms) \<longleftrightarrow> valid_group env egresses rules p"
  by (simp add: parse_group_matchers_def mapM_ok rule_matcher_ok valid_group_def)

lemma make_router_ok:
  "(\<exists>r. make_router env egresses rules rt = Inr r) \<longleftrightarrow>
   list_all (valid_group env egresses rules) (rt_rules rt) \<and>
   (case rt_default rt of None \<Rightarrow> False | Some d \<Rightarrow> map_contains egresses d)"
proof -
  have "(\<exists>ms. parse_route env rt egresses rules = Inr ms) \<longleftrightarrow>
      list_all (valid_group env egresses rules) (rt_rules rt)"
    by (auto simp: parse_route_def result_simps mapM_ok parse_group_matchers_ok list_all_iff)
  then show ?thesis
    by (auto simp: make_router_def result_simps map_contains_iff split: option.splits)
qed

section \<open>What a router depends on\<close>

lemma rule_matcher_cong:
  "map_of rules rn = map_of rules' rn \<Longrightarrow> map_of egresses en = map_of egresses' en \<Longrightarrow>
   rule_matcher env egresses rules en rn = rule_matcher env egresses' rules' en rn"
  by (simp add: rule_matcher_def map_contains_def map_at_def)

lemma parse_group_matchers_cong:
  assumes "\<And>rn. rn \<in> set (fst p) \<Longrightarrow> map_of rules rn = map_of rules' rn"
    and "map_of egresses (snd p) = map_of egresses' (snd p)"
  shows "parse_group_matchers env egresses rules p = parse_group_matchers env egresses' rules' p"
  unfolding parse_group_matchers_def by (rule mapM_cong) (auto intro: rule_matcher_cong assms)

lemma make_router_cong:
  assumes "\<And>p rn. p \<in> set (rt_rules rt) \<Longrightarrow> rn \<in> set (fst p) \<Longrightarrow> map_of rules rn = map_of rules' rn"
    and "\<And>p. p \<in> set (rt_rules rt) \<Longrightarrow> map_of egresses (snd p) = map_of egresses' (snd p)"
    and "\<And>d. rt_default rt = Some d \<Longrightarrow> map_of egresses d = map_of egresses' d"
  shows "make_router env egresses rules rt = make_router env egresses' rules' rt"
proof -
  have "mapM (parse_group_matchers env egresses rules) (rt_rules rt) =
      mapM (parse_group_matchers env egresses' rules') (rt_rules rt)"
    by (rule mapM_cong) (use assms in \<open>auto intro!: parse_group_matchers_cong\<close>)
  then show ?thesis
    using assms(3) by (cases "rt_default rt") (auto simp: make_router_def parse_route_def map_at_def)
qed

text \<open>Why a rule is refused: a range that is not a network, a pattern that does not compile.\<close>

definition rule_error :: "router_env \<Rightarrow> RuleVO \<Rightarrow> exn option" where
  "rule_error env r =
     (if \<not> list_all (valid_range (re_ip env)) (ru_range r @ ru_range_nr r)
      then Some (SystemError (Pichi_code SEMANTIC_ERROR) '''')
      else if \<not> list_all (rx_valid (re_regex env)) (ru_pattern r) then Some RegexError
      else None)"

lemma foldM_ranges_Inl: "\<not> list_all (valid_range ip) rs \<Longrightarrow>
  foldM (append_range ip) acc rs = Inl (SystemError (Pichi_code SEMANTIC_ERROR) '''')"
  using append_ranges [of ip acc rs] append_ranges_Inl [of ip acc rs]
  by (cases "foldM (append_range ip) acc rs") auto

lemma compile_patterns_Inl: "\<not> list_all (rx_valid rx) ps \<Longrightarrow> mapM (compile_regex rx) ps = Inl RegexError"
  by (induction ps) (auto simp: compile_regex_def)

lemma make_matcher_error: "rule_error env rule = Some e \<Longrightarrow> make_matcher env rn rule en eg = Inl e"
proof -
  assume e: "rule_error env rule = Some e"
  let ?ip = "re_ip env"
  show ?thesis
  proof (cases "list_all (valid_range ?ip) (ru_range rule)")
    case False
    then show ?thesis using e
      by (simp add: make_matcher_def foldM_ranges_Inl rule_error_def)
  next
    case True
    then have "foldM (append_range ?ip) ([], []) (ru_range rule) =
        Inr (nets_v4 ?ip (ru_range rule), nets_v6 ?ip (ru_range rule))"
      by (simp add: append_ranges)
    then show ?thesis using e True
      by (cases "list_all (valid_range ?ip) (ru_range_nr rule)")
         (auto simp: make_matcher_def foldM_ranges_Inl rule_error_def append_ranges
           compile_patterns_Inl rbind_Inl_iff split: if_splits)
  qed
qed

lemma mapM_first_error:
  assumes "\<And>x. x \<in> set xs \<Longrightarrow> (\<exists>y. f x = Inr y) \<or> f x = Inl e" and "\<exists>x \<in> set xs. f x = Inl e"
  shows "mapM f xs = Inl e"
  using assms by (induction xs) (force simp: rbind_def split: sum.splits)+

text \<open>A rule that is used by the route and is replaced by a bad one makes the construction fail.\<close>

lemma make_router_bad_rule:
  assumes ok: "make_router env egresses rules rt = Inr r" and e: "rule_error env vo = Some e"
    and used: "p \<in> set (rt_rules rt)" "n \<in> set (fst p)"
  shows "make_router env egresses (AList.update n vo rules) rt = Inl e"
proof -
  let ?rules = "AList.update n vo rules"
  have valid: "valid_group env egresses rules q" if "q \<in> set (rt_rules rt)" for q
    using ok that make_router_ok [of env egresses rules rt] by (auto simp: list_all_iff)
  have new: "rule_matcher env egresses ?rules (snd q) n = Inl e"
    if "q \<in> set (rt_rules rt)" "n \<in> set (fst q)" for q
    using valid [OF that(1)] that(2) make_matcher_error [OF e]
    by (auto simp: valid_group_def rule_matcher_def map_at_def AList.update_conv' map_contains_def
        split: option.splits)
  have old: "\<exists>m. rule_matcher env egresses ?rules (snd q) rn = Inr m"
    if "q \<in> set (rt_rules rt)" "rn \<in> set (fst q)" "rn \<noteq> n" for q rn
    using valid [OF that(1)] that(2,3)
    by (auto simp: rule_matcher_ok valid_group_def AList.update_conv')
  have group: "parse_group_matchers env egresses ?rules q = Inl e"
    if "q \<in> set (rt_rules rt)" "n \<in> set (fst q)" for q
    unfolding parse_group_matchers_def
    using new [OF that] old [OF that(1)] that(2) by (intro mapM_first_error) auto
  have "(\<exists>y. parse_group_matchers env egresses ?rules q = Inr y) \<or>
      parse_group_matchers env egresses ?rules q = Inl e" if "q \<in> set (rt_rules rt)" for q
  proof (cases "n \<in> set (fst q)")
    case True
    then show ?thesis using group [OF that] by simp
  next
    case False
    have "parse_group_matchers env egresses ?rules q = parse_group_matchers env egresses rules q"
      using False by (intro parse_group_matchers_cong) (auto simp: AList.update_conv')
    then show ?thesis using valid [OF that] parse_group_matchers_ok by metis
  qed
  then have "mapM (parse_group_matchers env egresses ?rules) (rt_rules rt) = Inl e"
    using used(1) group [OF used] by (intro mapM_first_error) auto
  then show ?thesis by (simp add: make_router_def parse_route_def)
qed

section \<open>Properties\<close>

definition sample_regex :: regex_lib where
  "sample_regex = \<lparr>rx_valid = (\<lambda>p. p \<noteq> ''(''), rx_search = (\<lambda>p s. Some (p = s))\<rparr>"

definition sample_mmdb_lib :: mmdb_lib where
  "sample_mmdb_lib = \<lparr>mm_open = (\<lambda>_. None), mm_find = (\<lambda>_ _. None), mm_country = (\<lambda>_ _. MV_missing)\<rparr>"

definition sample_env :: router_env where
  "sample_env = \<lparr>re_ip = sample_ip, re_regex = sample_regex, re_mmdb_lib = sample_mmdb_lib,
     re_mmdb = mmdb_new\<rparr>"

lemma sample_env_total: "env_total sample_env"
  by (simp add: env_total_def sample_env_def sample_regex_def sample_mmdb_lib_def mmdb_new_def)

definition empty_rule :: RuleVO where
  "empty_rule = \<lparr>ru_range = [], ru_ingress = [], ru_type = [], ru_pattern = [], ru_domain = [],
     ru_country = [], ru_range_nr = [], ru_country_nr = []\<rparr>"

definition sample_matcher :: "string \<Rightarrow> Matcher" where
  "sample_matcher name = \<lparr>ma_rname = name, ma_ename = ''direct'', ma_egress = empty_egress DIRECT,
     ma_resolve = True, ma_ranges4 = [([10], 8)], ma_ranges6 = [], ma_inames = {}, ma_types = {},
     ma_patterns = [], ma_domains = [''example.com''], ma_countries = []\<rparr>"

definition sample_router :: Router where
  "sample_router = \<lparr>ro_matchers = [sample_matcher ''lan''],
     ro_default = (''*'', ''proxy'', empty_egress DIRECT)\<rparr>"

text \<open>
  C1: The first matcher that matches decides, and the default when none does. A matcher is asked
  with the address of the peer when the peer is numeric, and otherwise with the resolved addresses
  as soon as it or an earlier matcher needs them. A failed resolution counts as no address.
\<close>

theorem route_first_match:
  assumes "env_total env"
    and "ep_type peer = DOMAIN_NAME \<Longrightarrow> resolves_to (Some p) r"
    and "ep_type peer \<noteq> DOMAIN_NAME \<Longrightarrow> make_address (re_ip env) (ep_host peer) = Some a"
  shows "fst (route env router peer iname itype (Some p)) =
    Inr (first_hit env (ro_default router) peer iname itype (ro_matchers router)
           (if ep_type peer = DOMAIN_NAME then None else Some [a]) r)"
proof -
  have "\<exists>b. matcher_match env m peer iname itype rs = Inr b" for m rs
    using matcher_match_total [OF assms(1)] by blast
  note first = route_from_first_hit [of "ro_matchers router", OF this]
  show ?thesis
  proof (cases "ep_type peer = DOMAIN_NAME")
    case True
    then show ?thesis using first [OF assms(2)] by (simp add: route_def iobind_def)
  next
    case False
    then show ?thesis using first [of "Some [a]" "Some p" r "ro_default router"] assms(3)
      by (simp add: route_def iobind_def)
  qed
qed

theorem route_first_match_witness:
  "fst (route sample_env sample_router
      \<lparr>ep_type = DOMAIN_NAME, ep_host = ''intranet'', ep_port = 80\<rparr> ''in'' SOCKS5
      (Some (Inr [V4 [10, 1, 2, 3]]))) =
    Inr (''lan'', ''direct'', empty_egress DIRECT)"
proof -
  have "first_hit sample_env (ro_default sample_router)
      \<lparr>ep_type = DOMAIN_NAME, ep_host = ''intranet'', ep_port = 80\<rparr> ''in'' SOCKS5
      (ro_matchers sample_router) None [V4 [10, 1, 2, 3]] = (''lan'', ''direct'', empty_egress DIRECT)"
    by code_simp
  then show ?thesis
    using route_first_match [OF sample_env_total, of "\<lparr>ep_type = DOMAIN_NAME, ep_host = ''intranet'', ep_port = 80\<rparr>"
        "Inr [V4 [10, 1, 2, 3]]" "[V4 [10, 1, 2, 3]]" undefined sample_router "''in''" SOCKS5]
    by simp
qed

text \<open>
  C5: Names are resolved lazily and at most once: the pending resolution is consumed exactly when
  the peer is a domain name and a matcher that needs addresses is reached, that is, no earlier
  matcher matches. A numeric peer is never resolved.
\<close>

theorem route_resolves_lazily:
  assumes "env_total env" and "resolves_to (Some p) r"
  shows "snd (route env router peer iname itype (Some p)) = None \<longleftrightarrow>
    ep_type peer = DOMAIN_NAME \<and>
    (\<exists>j < length (ro_matchers router). ma_resolve (ro_matchers router ! j) \<and>
       (\<forall>i < j. \<not> hits env peer iname itype (ro_matchers router) None r i))"
proof (cases "ep_type peer = DOMAIN_NAME")
  case True
  have "\<exists>b. matcher_match env m peer iname itype rs = Inr b" for m rs
    using matcher_match_total [OF assms(1)] by blast
  from route_from_pending [of "ro_matchers router", OF this assms(2)] True show ?thesis
    by (simp add: route_def iobind_def)
next
  case False
  then show ?thesis
    using route_from_known [of env "ro_default router" peer iname itype "ro_matchers router" _ "Some p"]
    by (auto simp: route_def iobind_def split: option.splits)
qed

theorem route_resolves_lazily_witness:
  "snd (route sample_env sample_router
      \<lparr>ep_type = DOMAIN_NAME, ep_host = ''intranet'', ep_port = 80\<rparr> ''in'' SOCKS5
      (Some (Inr [V4 [10, 1, 2, 3]]))) = None"
  using route_resolves_lazily [OF sample_env_total, of "Inr [V4 [10, 1, 2, 3]]" "[V4 [10, 1, 2, 3]]"
      sample_router "\<lparr>ep_type = DOMAIN_NAME, ep_host = ''intranet'', ep_port = 80\<rparr>" "''in''" SOCKS5]
  by (simp add: sample_router_def sample_matcher_def)

text \<open>
  C4: What a rule means. A matcher built from a rule matches when one of the peer's addresses lies
  in one of its ranges or countries, when the ingress name or type is listed, when a pattern is
  found in the host, or when one of its domains is a suffix of the host, label by label and without
  regard to case or to a leading dot: \<^verbatim>\<open>example.com\<close> matches \<^verbatim>\<open>www.Example.com\<close>, not \<^verbatim>\<open>myexample.com\<close>.
\<close>

theorem rule_meaning:
  assumes "env_total env" and "make_matcher env rn rule en eg = Inr m"
  shows "matcher_match env m peer iname itype rs = Inr
    ((\<exists>as a. rs = Some as \<and> a \<in> set as \<and>
        ((\<exists>b net. a = V4 b \<and> net \<in> set (nets_v4 (re_ip env) (ru_range rule @ ru_range_nr rule)) \<and>
            hosts_find_v4 (re_ip env) net b) \<or>
         (\<exists>b net. a = V6 b \<and> net \<in> set (nets_v6 (re_ip env) (ru_range rule @ ru_range_nr rule)) \<and>
            hosts_find_v6 (re_ip env) net b) \<or>
         (\<exists>c \<in> set (ru_country rule @ ru_country_nr rule). country_of env a = Some c))) \<or>
     iname \<in> set (ru_ingress rule) \<or> itype \<in> set (ru_type rule) \<or>
     (\<exists>pat \<in> set (ru_pattern rule). rx_search (re_regex env) pat (ep_host peer) = Some True) \<or>
     ep_type peer = DOMAIN_NAME \<and> ep_host peer \<noteq> [] \<and>
     (\<exists>d \<in> set (ru_domain rule). strip_dot d \<noteq> [] \<and>
        suffix (labels (to_lower_str (strip_dot d))) (labels (strip_dot (to_lower_str (ep_host peer))))))"
proof -
  note fields = make_matcher_fields [OF assms(2)]
  have addr: "match_address (re_ip env) m a \<longleftrightarrow>
      (\<exists>b net. a = V4 b \<and> net \<in> set (ma_ranges4 m) \<and> hosts_find_v4 (re_ip env) net b) \<or>
      (\<exists>b net. a = V6 b \<and> net \<in> set (ma_ranges6 m) \<and> hosts_find_v6 (re_ip env) net b)" for a
    by (cases a) (auto simp: list_ex_iff)
  have dom: "match_domain m peer \<longleftrightarrow> ep_type peer = DOMAIN_NAME \<and> ep_host peer \<noteq> [] \<and>
     (\<exists>d \<in> set (ru_domain rule). strip_dot d \<noteq> [] \<and>
        suffix (labels (to_lower_str (strip_dot d))) (labels (strip_dot (to_lower_str (ep_host peer)))))"
    using domain_matches_iff [of "to_lower_str (ep_host peer)"] fields
    by (auto simp: match_domain_def list_ex_iff rule_domains_def suffix_labels_iff to_lower_str_def)
  show ?thesis unfolding matcher_match_total [OF assms(1)] addr dom
    using fields by (auto split: option.splits)
qed

theorem rule_meaning_witness:
  "\<exists>m. make_matcher sample_env ''r'' (empty_rule\<lparr>ru_domain := [''.Example.com'']\<rparr>) ''e'' (empty_egress DIRECT) = Inr m \<and>
     matcher_match sample_env m \<lparr>ep_type = DOMAIN_NAME, ep_host = ''www.example.COM'', ep_port = 443\<rparr>
       ''in'' HTTP None = Inr True \<and>
     matcher_match sample_env m \<lparr>ep_type = DOMAIN_NAME, ep_host = ''myexample.com'', ep_port = 443\<rparr>
       ''in'' HTTP None = Inr False"
proof -
  let ?r = "empty_rule\<lparr>ru_domain := [''.Example.com'']\<rparr>"
  have ok: "valid_rule sample_env ?r" by (simp add: valid_rule_def empty_rule_def)
  then obtain m where m: "make_matcher sample_env ''r'' ?r ''e'' (empty_egress DIRECT) = Inr m"
    using make_matcher_ok by blast
  have "suffix (labels (to_lower_str (strip_dot ''.Example.com'')))
      (labels (strip_dot (to_lower_str ''www.example.COM'')))"
    "\<not> suffix (labels (to_lower_str (strip_dot ''.Example.com'')))
      (labels (strip_dot (to_lower_str ''myexample.com'')))"
    "strip_dot ''.Example.com'' \<noteq> []"
    by code_simp+
  then show ?thesis using m
    by (intro exI [of _ m]) (simp add: rule_meaning [OF sample_env_total m] empty_rule_def)
qed

text \<open>
  C11: A router can be built exactly when every rule and every egress that the route names exists,
  every range of those rules is a network and every pattern compiles, and the route has a default
  that exists.
\<close>

theorem router_constructible:
  "(\<exists>r. make_router env egresses rules rt = Inr r) \<longleftrightarrow>
   (\<forall>p \<in> set (rt_rules rt). \<forall>rn \<in> set (fst p).
      (\<exists>rule. map_of rules rn = Some rule \<and>
         list_all (valid_range (re_ip env)) (ru_range rule @ ru_range_nr rule) \<and>
         list_all (rx_valid (re_regex env)) (ru_pattern rule)) \<and>
      map_contains egresses (snd p)) \<and>
   (\<exists>d. rt_default rt = Some d \<and> map_contains egresses d)"
proof -
  have "(case map_of rules rn of None \<Rightarrow> False | Some r \<Rightarrow> valid_rule env r) \<longleftrightarrow>
      (\<exists>rule. map_of rules rn = Some rule \<and>
         list_all (valid_range (re_ip env)) (ru_range rule @ ru_range_nr rule) \<and>
         list_all (rx_valid (re_regex env)) (ru_pattern rule))" for rn
    by (cases "map_of rules rn") (simp_all add: valid_rule_def)
  moreover have "(case rt_default rt of None \<Rightarrow> False | Some d \<Rightarrow> map_contains egresses d) \<longleftrightarrow>
      (\<exists>d. rt_default rt = Some d \<and> map_contains egresses d)"
    by (cases "rt_default rt") simp_all
  ultimately show ?thesis unfolding make_router_ok list_all_iff valid_group_def by simp
qed

theorem router_constructible_witness:
  "\<exists>r. make_router sample_env [(''direct'', empty_egress DIRECT)] [(''a'', empty_rule)]
     \<lparr>rt_default = Some ''direct'', rt_rules = [([''a''], ''direct'')]\<rparr> = Inr r"
  using router_constructible [of sample_env "[(''direct'', empty_egress DIRECT)]" "[(''a'', empty_rule)]"
      "\<lparr>rt_default = Some ''direct'', rt_rules = [([''a''], ''direct'')]\<rparr>"]
  by (simp add: empty_rule_def map_contains_def)

end
