(* ===== verification/Pichi_Server.thy ===== *)
theory Pichi_Server
  imports Pichi_Router Pichi_Balancer Pichi_Regex
begin

text \<open>
  The API server (\<^verbatim>\<open>include/pichi/actor/server.hpp\<close>, \<^verbatim>\<open>src/actor/server.cpp\<close>), the listeners it owns
  (\<^verbatim>\<open>src/actor/listener.cpp\<close>) and the handler of detached coroutines (\<^verbatim>\<open>src/actor/detached.cpp\<close>).

  \<open>handle\<close> runs on the server's strand from its first statement to its response, so that one request
  is one step on the server's state: the tables of listeners, egresses and rules, the route, and
  the router built from them. What it posts to other strands is kept in \<open>sv_posted\<close> and runs later:
  the new router of a listener, the start of a listener, the removal of a balancer. A posted
  function keeps the address of its listener (\<open>li_id\<close>); when the listener is gone by then, running
  it is undefined.

  The operating system's answer to opening an acceptor, the JSON text format and the messages of
  foreign error codes are parameters.
\<close>

section \<open>Requests and responses\<close>

datatype verb = verb_get | verb_options | verb_delete | verb_put | verb_other

record Request =
  rq_method :: verb
  rq_target :: string
  rq_body :: string

record Response =
  rp_status :: nat
  rp_methods :: "string option"
  rp_body :: string

abbreviation status_ok :: nat where "status_ok \<equiv> 200"
abbreviation status_no_content :: nat where "status_no_content \<equiv> 204"
abbreviation status_bad_request :: nat where "status_bad_request \<equiv> 400"
abbreviation status_forbidden :: nat where "status_forbidden \<equiv> 403"
abbreviation status_not_found :: nat where "status_not_found \<equiv> 404"
abbreviation status_unprocessable_entity :: nat where "status_unprocessable_entity \<equiv> 422"
abbreviation status_locked :: nat where "status_locked \<equiv> 423"
abbreviation status_internal_server_error :: nat where "status_internal_server_error \<equiv> 500"

type_synonym tcp_endpoint = "ip_address \<times> u16"

record server_env =
  se_router :: router_env
  se_json :: json_text
  se_open :: "tcp_endpoint list \<Rightarrow> tcp_endpoint \<Rightarrow> error_code option"
  se_message :: "error_code \<Rightarrow> string"
  se_draw :: "nat \<Rightarrow> nat \<Rightarrow> nat"

fun verb_name :: "verb \<Rightarrow> string" where
  "verb_name verb_get = ''GET''"
| "verb_name verb_options = ''OPTIONS''"
| "verb_name verb_delete = ''DELETE''"
| "verb_name verb_put = ''PUT''"
| "verb_name verb_other = ''<unknown>''"

definition gen_resp :: "nat \<Rightarrow> Response" where
  "gen_resp status = \<lparr>rp_status = status, rp_methods = None, rp_body = []\<rparr>"

definition gen_resp_body :: "server_env \<Rightarrow> nat \<Rightarrow> json \<Rightarrow> Response" where
  "gen_resp_body env status body = (gen_resp status)\<lparr>rp_body := json_toString (se_json env) body\<rparr>"

definition error_status :: "error_code \<Rightarrow> nat" where
  "error_status ec =
     (if ec = Asio_code asio_address_in_use then status_locked
      else if ec = Pichi_code RES_IN_USE then status_forbidden
      else if ec = Pichi_code BAD_JSON then status_bad_request
      else if ec = Pichi_code SEMANTIC_ERROR then status_unprocessable_entity
      else status_internal_server_error)"

definition ec_message :: "server_env \<Rightarrow> error_code \<Rightarrow> string" where
  "ec_message env ec = (case ec of Pichi_code e \<Rightarrow> pichi_message e | _ \<Rightarrow> se_message env ec)"

definition gen_resp_error :: "server_env \<Rightarrow> error_code \<Rightarrow> Response" where
  "gen_resp_error env ec = gen_resp_body env (error_status ec) (toJson_Error (ec_message env ec))"

fun verbs_text :: "verb list \<Rightarrow> string" where
  "verbs_text [] = []"
| "verbs_text (v # vs) = verb_name v @ concat (map (\<lambda>w. '','' @ verb_name w) vs)"

definition gen_resp_verbs :: "verb list \<Rightarrow> Response" where
  "gen_resp_verbs vs = (gen_resp status_no_content)\<lparr>rp_methods := Some (verbs_text vs)\<rparr>"

text \<open>The object of all named items of a table.\<close>

definition to_json :: "('v \<Rightarrow> json result) \<Rightarrow> 'v value_map \<Rightarrow> json result" where
  "to_json f pairs =
     rbind (mapM (\<lambda>(name, item).
       rthen (assertFalse (name = []) MISC '''')
      (rbind (f item) (\<lambda>j. Inr (name, j)))) pairs) (\<lambda>ms. Inr (JObject ms))"

section \<open>Targets\<close>

definition rest_rx :: rx where
  "rest_rx = RSeq (ROpt (RLit ''/'')) (ROpt (RGroup 2 (RSeq (ROneOf ''?#'') (RStar RDot))))"

definition list_rest_rx :: rx where
  "list_rest_rx = RSeq (ROpt (RLit ''/'')) (ROpt (RGroup 1 (RSeq (ROneOf ''?#'') (RStar RDot))))"

definition INGRESS_REGEX :: rx where
  "INGRESS_REGEX = RSeq (RLit ''/ingresses'') list_rest_rx"

definition INGRESS_NAME_REGEX :: rx where
  "INGRESS_NAME_REGEX = RSeq (RLit ''/ingresses/'') (RSeq (RGroup 1 (RPlus (RNot ''?#/''))) rest_rx)"

definition EGRESS_REGEX :: rx where
  "EGRESS_REGEX = RSeq (RLit ''/egresses'') list_rest_rx"

definition EGRESS_NAME_REGEX :: rx where
  "EGRESS_NAME_REGEX = RSeq (RLit ''/egresses/'') (RSeq (RGroup 1 (RPlus (RNot ''?#''))) rest_rx)"

definition RULE_REGEX :: rx where
  "RULE_REGEX = RSeq (RLit ''/rules'') list_rest_rx"

definition RULE_NAME_REGEX :: rx where
  "RULE_NAME_REGEX = RSeq (RLit ''/rules/'') (RSeq (RGroup 1 (RPlus (RNot ''?#''))) rest_rx)"

definition ROUTE_REGEX :: rx where
  "ROUTE_REGEX = RLit ''/route''"

section \<open>Listeners\<close>

record Listener =
  li_id :: nat
  li_router :: Router
  li_vo :: IngressVO
  li_acceptors :: "tcp_endpoint list"

fun open_acceptors ::
  "server_env \<Rightarrow> tcp_endpoint list \<Rightarrow> Endpoint list \<Rightarrow> tcp_endpoint list result" where
  "open_acceptors env opened [] = Inr []"
| "open_acceptors env opened (ep # eps) =
     (case make_address (re_ip (se_router env)) (ep_host ep) of
        None \<Rightarrow> Inl (SystemError (Asio_code asio_invalid_argument) '''')
      | Some a \<Rightarrow>
          (case se_open env opened (a, ep_port ep) of
             Some ec \<Rightarrow> Inl (SystemError ec '''')
           | None \<Rightarrow> rbind (open_acceptors env ((a, ep_port ep) # opened) eps) (\<lambda>as.
                      Inr ((a, ep_port ep) # as))))"

definition make_listener ::
  "server_env \<Rightarrow> tcp_endpoint list \<Rightarrow> nat \<Rightarrow> Router \<Rightarrow> IngressVO \<Rightarrow> Listener result" where
  "make_listener env opened addr router vo =
     rbind (open_acceptors env opened (in_bind vo)) (\<lambda>as.
     Inr \<lparr>li_id = addr, li_router = router, li_vo = vo, li_acceptors = as\<rparr>)"

section \<open>The server\<close>

datatype posted =
    P_Reroute nat Router
  | P_Listen nat
  | P_Erase string

record server =
  sv_listeners :: "Listener value_map"
  sv_egresses :: "EgressVO value_map"
  sv_rules :: "RuleVO value_map"
  sv_route :: RouteVO
  sv_router :: Router
  sv_balancers :: balancer_service
  sv_posted :: "posted list"
  sv_next :: nat

abbreviation DEFAULT_EGRESS_NAME :: string where "DEFAULT_EGRESS_NAME \<equiv> ''direct''"

definition server_new :: "server_env \<Rightarrow> server result" where
  "server_new env =
     (let egresses = [(DEFAULT_EGRESS_NAME, empty_egress DIRECT)];
          route = \<lparr>rt_default = Some DEFAULT_EGRESS_NAME, rt_rules = []\<rparr>
      in rbind (make_router (se_router env) egresses [] route) (\<lambda>r.
         Inr \<lparr>sv_listeners = [], sv_egresses = egresses, sv_rules = [], sv_route = route,
              sv_router = r, sv_balancers = service_new, sv_posted = [], sv_next = 0\<rparr>))"

definition post :: "posted list \<Rightarrow> server \<Rightarrow> server" where
  "post ps s = s\<lparr>sv_posted := sv_posted s @ ps\<rparr>"

text \<open>\<^verbatim>\<open>~Listener\<close>: posting to the strand of a balancer service that was never initialised is undefined.\<close>

definition destroy_listener :: "Listener \<Rightarrow> (server, unit) io" where
  "destroy_listener l s =
     (if in_type (li_vo l) = TUNNEL
      then if bs_strand (sv_balancers s) then (Inr (), post [P_Erase (in_name (li_vo l))] s)
           else (Inl UB, s)
      else (Inr (), s))"

definition update_router :: "server_env \<Rightarrow> (server, unit) io" where
  "update_router env s =
     (case make_router (se_router env) (sv_egresses s) (sv_rules s) (sv_route s) of
        Inl e \<Rightarrow> (Inl e, s)
      | Inr r \<Rightarrow> (Inr (), post (map (\<lambda>(name, l). P_Reroute (li_id l) r) (sv_listeners s))
                            (s\<lparr>sv_router := r\<rparr>)))"

text \<open>
  \<^verbatim>\<open>insert_or_assign\<close> moves the new listener into the node of the old one, or into a new node. The
  destructor of the moved-from temporary does nothing, since its router is gone.
\<close>

definition assign_listener :: "string \<Rightarrow> Listener \<Rightarrow> server \<Rightarrow> Listener \<times> server" where
  "assign_listener name l s =
     (case map_of (sv_listeners s) name of
        Some old \<Rightarrow> let l' = l\<lparr>li_id := li_id old\<rparr>
                    in (l', s\<lparr>sv_listeners := AList.update name l' (sv_listeners s)\<rparr>)
      | None \<Rightarrow> let l' = l\<lparr>li_id := sv_next s\<rparr>
                in (l', s\<lparr>sv_listeners := AList.update name l' (sv_listeners s),
                          sv_next := Suc (sv_next s)\<rparr>))"

definition opened_by :: "server \<Rightarrow> tcp_endpoint list" where
  "opened_by s = concat (map (\<lambda>(name, l). li_acceptors l) (sv_listeners s))"

definition handle_ingresses :: "server_env \<Rightarrow> Request \<Rightarrow> (server, Response) io" where
  "handle_ingresses env req s =
     (case rq_method req of
        verb_get \<Rightarrow> (rbind (to_json (\<lambda>l. toJson_Ingress (li_vo l)) (sv_listeners s)) (\<lambda>j.
                     Inr (gen_resp_body env status_ok j)), s)
      | verb_options \<Rightarrow> (Inr (gen_resp_verbs [verb_get, verb_options]), s)
      | _ \<Rightarrow> (Inr (gen_resp status_not_found), s))"

definition put_ingress :: "server_env \<Rightarrow> string \<Rightarrow> IngressVO \<Rightarrow> (server, Response) io" where
  "put_ingress env name vo s =
     (case make_listener env (opened_by s) 0 (sv_router s) (vo\<lparr>in_name := name\<rparr>) of
        Inl e \<Rightarrow> (Inl e, s)
      | Inr l \<Rightarrow>
          (let (l', s1) = assign_listener name l s
           in (Inr (gen_resp status_no_content),
               post (map (\<lambda>_. P_Listen (li_id l')) (li_acceptors l')) s1)))"

definition handle_ingress :: "server_env \<Rightarrow> string \<Rightarrow> Request \<Rightarrow> (server, Response) io" where
  "handle_ingress env name req s =
     (case rq_method req of
        verb_delete \<Rightarrow>
          (case map_of (sv_listeners s) name of
             None \<Rightarrow> (Inr (gen_resp status_no_content), s)
           | Some l \<Rightarrow> iobind (destroy_listener l) (\<lambda>_ s.
               (Inr (gen_resp status_no_content),
                s\<lparr>sv_listeners := AList.delete name (sv_listeners s)\<rparr>)) s)
      | verb_options \<Rightarrow> (Inr (gen_resp_verbs [verb_delete, verb_options, verb_put]), s)
      | verb_put \<Rightarrow>
          iobind (ioret (parse_text (se_json env) (parse_Ingress (re_ip (se_router env))) (rq_body req)))
            (put_ingress env name) s
      | _ \<Rightarrow> (Inr (gen_resp status_not_found), s))"

definition handle_egresses :: "server_env \<Rightarrow> Request \<Rightarrow> (server, Response) io" where
  "handle_egresses env req s =
     (case rq_method req of
        verb_get \<Rightarrow> (rbind (to_json toJson_Egress (sv_egresses s)) (\<lambda>j.
                     Inr (gen_resp_body env status_ok j)), s)
      | verb_options \<Rightarrow> (Inr (gen_resp_verbs [verb_get, verb_options]), s)
      | _ \<Rightarrow> (Inr (gen_resp status_not_found), s))"

definition egress_in_use :: "RouteVO \<Rightarrow> string \<Rightarrow> bool result" where
  "egress_in_use rt ename =
     rbind (deref (rt_default rt)) (\<lambda>d.
     Inr (d = ename \<or> list_ex (\<lambda>item. snd item = ename) (rt_rules rt)))"

definition handle_egress :: "server_env \<Rightarrow> string \<Rightarrow> Request \<Rightarrow> (server, Response) io" where
  "handle_egress env ename req s =
     (case rq_method req of
        verb_delete \<Rightarrow>
          iobind (ioret (rbind (egress_in_use (sv_route s) ename) (\<lambda>used.
                         assertFalse used RES_IN_USE ''''))) (\<lambda>_ s.
            (Inr (gen_resp status_no_content),
             s\<lparr>sv_egresses := AList.delete ename (sv_egresses s)\<rparr>)) s
      | verb_options \<Rightarrow> (Inr (gen_resp_verbs [verb_delete, verb_options, verb_put]), s)
      | verb_put \<Rightarrow>
          iobind (ioret (parse_text (se_json env) (parse_Egress (re_ip (se_router env))) (rq_body req)))
            (\<lambda>vo s. let s1 = s\<lparr>sv_egresses := AList.update ename vo (sv_egresses s)\<rparr> in
               iobind (ioret (egress_in_use (sv_route s1) ename)) (\<lambda>used.
               iobind (if used then update_router env else ioret (Inr ())) (\<lambda>_.
               ioret (Inr (gen_resp status_no_content)))) s1) s
      | _ \<Rightarrow> (Inr (gen_resp status_not_found), s))"

definition handle_rules :: "server_env \<Rightarrow> Request \<Rightarrow> (server, Response) io" where
  "handle_rules env req s =
     (case rq_method req of
        verb_get \<Rightarrow> (rbind (to_json (\<lambda>r. Inr (toJson_Rule r)) (sv_rules s)) (\<lambda>j.
                     Inr (gen_resp_body env status_ok j)), s)
      | verb_options \<Rightarrow> (Inr (gen_resp_verbs [verb_get, verb_options]), s)
      | _ \<Rightarrow> (Inr (gen_resp status_not_found), s))"

definition rule_in_use :: "RouteVO \<Rightarrow> string \<Rightarrow> bool" where
  "rule_in_use rt rname = list_ex (\<lambda>item. list_ex (\<lambda>rn. rn = rname) (fst item)) (rt_rules rt)"

definition handle_rule :: "server_env \<Rightarrow> string \<Rightarrow> Request \<Rightarrow> (server, Response) io" where
  "handle_rule env rname req s =
     (case rq_method req of
        verb_delete \<Rightarrow>
          iobind (ioret (assertFalse (rule_in_use (sv_route s) rname) RES_IN_USE '''')) (\<lambda>_ s.
            (Inr (gen_resp status_no_content),
             s\<lparr>sv_rules := AList.delete rname (sv_rules s)\<rparr>)) s
      | verb_options \<Rightarrow> (Inr (gen_resp_verbs [verb_delete, verb_options, verb_put]), s)
      | verb_put \<Rightarrow>
          iobind (ioret (parse_text (se_json env) parse_Rule (rq_body req)))
            (\<lambda>vo s. let s1 = s\<lparr>sv_rules := AList.update rname vo (sv_rules s)\<rparr> in
               iobind (if rule_in_use (sv_route s1) rname then update_router env else ioret (Inr ()))
                 (\<lambda>_. ioret (Inr (gen_resp status_no_content))) s1) s
      | _ \<Rightarrow> (Inr (gen_resp status_not_found), s))"

definition check_route :: "EgressVO value_map \<Rightarrow> RuleVO value_map \<Rightarrow> RouteVO \<Rightarrow> unit result" where
  "check_route egresses rules rt =
     rthen (assertTrue (list_all (\<lambda>item. list_all (map_contains rules) (fst item)) (rt_rules rt))
              SEMANTIC_ERROR '''')
    (rthen (assertTrue (list_all (\<lambda>item. map_contains egresses (snd item)) (rt_rules rt))
              SEMANTIC_ERROR '''')
    (case rt_default rt of
       None \<Rightarrow> Inr ()
     | Some d \<Rightarrow> assertTrue (map_contains egresses d) SEMANTIC_ERROR ''''))"

definition handle_route :: "server_env \<Rightarrow> Request \<Rightarrow> (server, Response) io" where
  "handle_route env req s =
     (case rq_method req of
        verb_get \<Rightarrow> (rbind (toJson_Route (sv_route s)) (\<lambda>j. Inr (gen_resp_body env status_ok j)), s)
      | verb_options \<Rightarrow> (Inr (gen_resp_verbs [verb_get, verb_options, verb_put]), s)
      | verb_put \<Rightarrow>
          iobind (ioret (parse_text (se_json env) parse_Route (rq_body req))) (\<lambda>route.
          iobind (ioret (check_route (sv_egresses s) (sv_rules s) route)) (\<lambda>_ s.
          iobind (update_router env) (\<lambda>_.
          ioret (Inr (gen_resp status_no_content))) (s\<lparr>sv_route := route\<rparr>))) s
      | _ \<Rightarrow> (Inr (gen_resp status_not_found), s))"

definition handle :: "server_env \<Rightarrow> Request \<Rightarrow> (server, Response) io" where
  "handle env req =
     (let t = rq_target req in
      if rx_match INGRESS_REGEX t \<noteq> None then handle_ingresses env req
      else case rx_match INGRESS_NAME_REGEX t of
        Some mr \<Rightarrow> handle_ingress env (group_str mr 1) req
      | None \<Rightarrow>
      if rx_match EGRESS_REGEX t \<noteq> None then handle_egresses env req
      else case rx_match EGRESS_NAME_REGEX t of
        Some mr \<Rightarrow> handle_egress env (group_str mr 1) req
      | None \<Rightarrow>
      if rx_match RULE_REGEX t \<noteq> None then handle_rules env req
      else case rx_match RULE_NAME_REGEX t of
        Some mr \<Rightarrow> handle_rule env (group_str mr 1) req
      | None \<Rightarrow>
      if rx_match ROUTE_REGEX t \<noteq> None then handle_route env req
      else ioret (Inr (gen_resp status_not_found)))"

text \<open>
  One turn of the loop of \<^verbatim>\<open>do_session\<close>: a system error becomes a response, every other exception
  leaves the coroutine and reaches \<^verbatim>\<open>Detached::handler\<close>.
\<close>

definition respond :: "server_env \<Rightarrow> Request \<Rightarrow> (server, Response) io" where
  "respond env req s =
     (case handle env req s of
        (Inl (SystemError ec msg), s') \<Rightarrow> (Inr (gen_resp_error env ec), s')
      | r \<Rightarrow> r)"

datatype fate = F_silent | F_logged | F_terminate | F_undefined

definition detached_handler :: "exn \<Rightarrow> fate" where
  "detached_handler e =
     (case e of
        SystemError ec msg \<Rightarrow>
          if ec \<noteq> Asio_code asio_eof \<and> ec \<noteq> Asio_code asio_operation_aborted \<and>
             ec \<noteq> Http_code http_end_of_stream
          then F_logged else F_silent
      | UB \<Rightarrow> F_undefined
      | Diverges \<Rightarrow> F_undefined
      | _ \<Rightarrow> F_terminate)"

section \<open>What was posted\<close>

definition find_listener :: "nat \<Rightarrow> server \<Rightarrow> (string \<times> Listener) option" where
  "find_listener addr s = find (\<lambda>(name, l). li_id l = addr) (sv_listeners s)"

text \<open>The first step of \<^verbatim>\<open>Listener::listen\<close>: a tunnel creates its balancer, once per acceptor.\<close>

fun run_posted :: "server_env \<Rightarrow> posted \<Rightarrow> (server, unit) io" where
  "run_posted env (P_Reroute addr r) s =
     (case find_listener addr s of
        None \<Rightarrow> (Inl UB, s)
      | Some (name, l) \<Rightarrow>
          (Inr (), s\<lparr>sv_listeners := AList.update name (l\<lparr>li_router := r\<rparr>) (sv_listeners s)\<rparr>))"
| "run_posted env (P_Listen addr) s =
     (case find_listener addr s of
        None \<Rightarrow> (Inl UB, s)
      | Some (name, l) \<Rightarrow>
          if in_type (li_vo l) = TUNNEL
          then (let (r, b) = create_balancer (se_draw env) (li_vo l) (sv_balancers s)
                in (r, s\<lparr>sv_balancers := b\<rparr>))
          else (Inr (), s))"
| "run_posted env (P_Erase name) s =
     (Inr (), s\<lparr>sv_balancers := service_erase name (sv_balancers s)\<rparr>)"

end
