(* ===== verification/Pichi_Session.thy ===== *)
theory Pichi_Session
  imports Pichi_Factory Pichi_Server
begin

text \<open>
  One proxied connection (\<^verbatim>\<open>src/actor/session.cpp\<close>): the handshake, which asks the ingress for the endpoint, the
  router for an egress, connects the egress and then confirms the ingress; and the relay, two copies of
  \<^verbatim>\<open>bridge\<close> that run at the same time on the same two adapters until one of them ends.

  A bridge is a program counter: the place where it waits. One step of it is one completed operation
  of an adapter, so an interleaving of the two bridges is a sequence of steps of the relation \<open>relay_step\<close>.
  \<^verbatim>\<open>make_parallel_group ... wait_for_one\<close> cancels the bridge that is still running when the other one has
  ended: it may go on for some operations, and then ends with \<^verbatim>\<open>operation_aborted\<close>, because every \<^verbatim>\<open>co_await\<close> of a
  cancelled coroutine throws that. An operation that is cancelled is either not done or done completely.
\<close>

section \<open>Redirecting errors\<close>

definition redirect :: "('s, 'a) io \<Rightarrow> ('s, error_code + 'a) io" where
  "redirect a s =
     (case a s of
        (Inr x, s') \<Rightarrow> (Inr (Inr x), s')
      | (Inl (SystemError ec msg), s') \<Rightarrow> (Inr (Inl ec), s')
      | (Inl e, s') \<Rightarrow> (Inl e, s'))"

lemma redirect_simps [simp]:
  "a s = (Inr x, s') \<Longrightarrow> redirect a s = (Inr (Inr x), s')"
  "a s = (Inl (SystemError ec msg), s') \<Longrightarrow> redirect a s = (Inr (Inl ec), s')"
  by (simp_all add: redirect_def)

section \<open>Bridges\<close>

text \<open>A bridge only ends with an exception: the loop is left with an error, which is thrown at the end.\<close>

datatype bridge =
    B_recv
  | B_send bytes
  | B_close_from error_code
  | B_close_to error_code
  | B_done exn

definition bridge_step ::
  "(nat \<Rightarrow> ('w, bytes) io) \<Rightarrow> ('w, unit) io \<Rightarrow> (bytes \<Rightarrow> ('w, unit) io) \<Rightarrow> ('w, unit) io \<Rightarrow> bridge \<Rightarrow> 'w \<Rightarrow> bridge \<times> 'w"
where
  "bridge_step recv close_from send close_to pc w =
     (case pc of
        B_recv \<Rightarrow>
          (case redirect (recv 0xffff) w of
             (Inl e, w') \<Rightarrow> (B_done e, w')
           | (Inr (Inl ec), w') \<Rightarrow> (B_close_from ec, w')
           | (Inr (Inr bs), w') \<Rightarrow> (B_send bs, w'))
      | B_send bs \<Rightarrow>
          (case redirect (send bs) w of
             (Inl e, w') \<Rightarrow> (B_done e, w')
           | (Inr (Inl ec), w') \<Rightarrow> (B_close_from ec, w')
           | (Inr (Inr _), w') \<Rightarrow> (B_recv, w'))
      | B_close_from ec \<Rightarrow>
          (case close_from w of
             (Inl e, w') \<Rightarrow> (B_done e, w')
           | (Inr _, w') \<Rightarrow> (B_close_to ec, w'))
      | B_close_to ec \<Rightarrow>
          (case close_to w of
             (Inl e, w') \<Rightarrow> (B_done e, w')
           | (Inr _, w') \<Rightarrow> (B_done (SystemError ec ''''), w'))
      | B_done e \<Rightarrow> (B_done e, w))"

fun bridge_done :: "bridge \<Rightarrow> bool" where
  "bridge_done (B_done _) = True"
| "bridge_done _ = False"

section \<open>The relay\<close>

record ('s, 'x, 'd) ends =
  en_services :: services
  en_ingress :: "('s, 'x, 'd) Ingress"
  en_egress :: "('s, 'x, 'd) Egress"

definition at_ingress :: "(services \<times> ('s, 'x, 'd) Ingress, 'a) io \<Rightarrow> (('s, 'x, 'd) ends, 'a) io" where
  "at_ingress f w =
     (case f (en_services w, en_ingress w) of (r, (sv, i)) \<Rightarrow> (r, w\<lparr>en_services := sv, en_ingress := i\<rparr>))"

definition at_egress :: "(services \<times> ('s, 'x, 'd) Egress, 'a) io \<Rightarrow> (('s, 'x, 'd) ends, 'a) io" where
  "at_egress f w =
     (case f (en_services w, en_egress w) of (r, (sv, e)) \<Rightarrow> (r, w\<lparr>en_services := sv, en_egress := e\<rparr>))"

definition bridge_up :: "('s, 'x, 'd) net \<Rightarrow> bridge \<Rightarrow> ('s, 'x, 'd) ends \<Rightarrow> bridge \<times> ('s, 'x, 'd) ends" where
  "bridge_up net = bridge_step (\<lambda>n. at_ingress (ingress_recv net n)) (at_ingress (ingress_close net))
     (\<lambda>bs. at_egress (egress_send net bs)) (at_egress (egress_close net))"

definition bridge_down :: "('s, 'x, 'd) net \<Rightarrow> bridge \<Rightarrow> ('s, 'x, 'd) ends \<Rightarrow> bridge \<times> ('s, 'x, 'd) ends" where
  "bridge_down net = bridge_step (\<lambda>n. at_egress (egress_recv net n)) (at_egress (egress_close net))
     (\<lambda>bs. at_ingress (ingress_send net bs)) (at_ingress (ingress_close net))"

record ('s, 'x, 'd) relay =
  rl_up :: bridge
  rl_down :: bridge
  rl_ends :: "('s, 'x, 'd) ends"

abbreviation aborted :: exn where
  "aborted \<equiv> SystemError (Asio_code asio_operation_aborted) ''''"

inductive relay_step :: "('s, 'x, 'd) net \<Rightarrow> ('s, 'x, 'd) relay \<Rightarrow> ('s, 'x, 'd) relay \<Rightarrow> bool" for net where
  up: "\<not> bridge_done (rl_up r) \<Longrightarrow> bridge_up net (rl_up r) (rl_ends r) = (pc, w) \<Longrightarrow>
    relay_step net r (r\<lparr>rl_up := pc, rl_ends := w\<rparr>)"
| down: "\<not> bridge_done (rl_down r) \<Longrightarrow> bridge_down net (rl_down r) (rl_ends r) = (pc, w) \<Longrightarrow>
    relay_step net r (r\<lparr>rl_down := pc, rl_ends := w\<rparr>)"
| cancel_up: "\<not> bridge_done (rl_up r) \<Longrightarrow> bridge_done (rl_down r) \<Longrightarrow>
    relay_step net r (r\<lparr>rl_up := B_done aborted\<rparr>)"
| cancel_down: "\<not> bridge_done (rl_down r) \<Longrightarrow> bridge_done (rl_up r) \<Longrightarrow>
    relay_step net r (r\<lparr>rl_down := B_done aborted\<rparr>)"

definition relay_new :: "services \<Rightarrow> ('s, 'x, 'd) Ingress \<Rightarrow> ('s, 'x, 'd) Egress \<Rightarrow> ('s, 'x, 'd) relay" where
  "relay_new sv i e =
     \<lparr>rl_up = B_recv, rl_down = B_recv, rl_ends = \<lparr>en_services = sv, en_ingress = i, en_egress = e\<rparr>\<rparr>"

section \<open>The handshake\<close>

text \<open>
  \<open>ss_resolver\<close> is what the system's resolver will answer, \<open>ss_router\<close> the pointer that a session drops when it
  does not need the router any more.
\<close>

record ('s, 'x, 'd) session =
  ss_router :: "Router option"
  ss_resolver :: pending
  ss_services :: services
  ss_ingress :: "('s, 'x, 'd) Ingress"

definition on_ingress :: "(services \<times> ('s, 'x, 'd) Ingress, 'a) io \<Rightarrow> (('s, 'x, 'd) session, 'a) io" where
  "on_ingress f w =
     (case f (ss_services w, ss_ingress w) of (r, (sv, i)) \<Rightarrow> (r, w\<lparr>ss_services := sv, ss_ingress := i\<rparr>))"

definition connect_egress ::
  "('s, 'x, 'd) net \<Rightarrow> Endpoint \<Rightarrow> ('s, 'x, 'd) Egress \<Rightarrow> (('s, 'x, 'd) session, ('s, 'x, 'd) Egress) io" where
  "connect_egress net peer egress w =
     (case egress_connect net peer (ss_services w, egress) of
        (Inl e, (sv, _)) \<Rightarrow> (Inl e, w\<lparr>ss_services := sv\<rparr>)
      | (Inr _, (sv, egress')) \<Rightarrow> (Inr egress', w\<lparr>ss_services := sv\<rparr>))"

definition session_route ::
  "router_env \<Rightarrow> Endpoint \<Rightarrow> IngressVO \<Rightarrow> (('s, 'x, 'd) session, string \<times> string \<times> EgressVO) io" where
  "session_route env peer vo w =
     (case ss_router w of
        None \<Rightarrow> (Inl UB, w)
      | Some router \<Rightarrow>
          (case route env router peer (in_name vo) (in_type vo) (ss_resolver w) of (r, p) \<Rightarrow>
             (r, w\<lparr>ss_resolver := p\<rparr>)))"

definition forget_router :: "(('s, 'x, 'd) session, unit) io" where
  "forget_router w = (Inr (), w\<lparr>ss_router := None\<rparr>)"

definition reject_vo :: EgressVO where
  "reject_vo = (empty_egress REJECT)\<lparr>eg_opt := Some (EO_Reject \<lparr>rj_mode = DelayMode.RANDOM, rj_delay = None\<rparr>)\<rparr>"

definition handshake ::
  "('s, 'x, 'd) net \<Rightarrow> router_env \<Rightarrow> IngressVO \<Rightarrow> (('s, 'x, 'd) session, ('s, 'x, 'd) Egress) io" where
  "handshake net env vo =
     iobind (redirect (on_ingress (ingress_read_remote net))) (\<lambda>remote.
     case remote of
       Inl ec \<Rightarrow>
         if ec = makeErrorCode BAD_PROTO \<and> in_type vo = SS
         then iobind forget_router (\<lambda>_.
              iobind (ioret (create_egress net reject_vo)) (\<lambda>egress.
              connect_egress net empty_endpoint egress))
         else ioret (Inl (SystemError ec ''''))
     | Inr peer \<Rightarrow>
         iobind (session_route env peer vo) (\<lambda>(rname, ename, evo).
         iobind (ioret (create_egress net evo)) (\<lambda>egress.
         iobind (connect_egress net peer egress) (\<lambda>egress.
         iobind (on_ingress (ingress_confirm net)) (\<lambda>_.
         iobind forget_router (\<lambda>_.
         ioret (Inr egress)))))))"

section \<open>Starting\<close>

text \<open>The first half of \<^verbatim>\<open>start\<close>, up to the two bridges.\<close>

definition session_open ::
  "('s, 'x, 'd) net \<Rightarrow> router_env \<Rightarrow> IngressVO \<Rightarrow> (('s, 'x, 'd) session, ('s, 'x, 'd) relay) io" where
  "session_open net env vo =
     iobind (redirect (handshake net env vo)) (\<lambda>egress.
     case egress of
       Inl ec \<Rightarrow>
         iobind (on_ingress (ingress_disconnect net ec)) (\<lambda>_. ioret (Inl (SystemError ec '''')))
     | Inr egress \<Rightarrow> (\<lambda>w. (Inr (relay_new (ss_services w) (ss_ingress w) egress), w)))"

text \<open>
  \<^verbatim>\<open>Session::start\<close> on a new socket, as the exception it ends with and the services it leaves, an
  adapter of a tunnel having been destroyed. Both bridges end with an exception, and the one of the
  bridge from the ingress to the egress is thrown.
\<close>

definition end_of_session :: "('s, 'x, 'd) Ingress \<Rightarrow> services \<Rightarrow> services" where
  "end_of_session i sv = fst (snd (ingress_destroy (sv, i)))"

definition session_new ::
  "Router \<Rightarrow> pending \<Rightarrow> services \<Rightarrow> ('s, 'x, 'd) Ingress \<Rightarrow> ('s, 'x, 'd) session" where
  "session_new router p sv i = \<lparr>ss_router = Some router, ss_resolver = p, ss_services = sv, ss_ingress = i\<rparr>"

inductive session_start ::
  "('s, 'x, 'd) net \<Rightarrow> router_env \<Rightarrow> IngressVO \<Rightarrow> 's \<Rightarrow> Router \<times> pending \<times> services \<Rightarrow> exn \<times> services \<Rightarrow> bool"
  for net env vo s where
  no_ingress: "create_ingress net (svc_sentry sv) vo s = Inl e \<Longrightarrow>
    session_start net env vo s (router, p, sv) (e, sv)"
| no_relay: "create_ingress net (svc_sentry sv) vo s = Inr i \<Longrightarrow>
    session_open net env vo (session_new router p sv i) = (Inl e, w) \<Longrightarrow>
    session_start net env vo s (router, p, sv) (e, end_of_session (ss_ingress w) (ss_services w))"
| relayed: "create_ingress net (svc_sentry sv) vo s = Inr i \<Longrightarrow>
    session_open net env vo (session_new router p sv i) = (Inr r, w) \<Longrightarrow>
    (relay_step net)\<^sup>*\<^sup>* r r' \<Longrightarrow> rl_up r' = B_done e0 \<Longrightarrow> rl_down r' = B_done e1 \<Longrightarrow>
    session_start net env vo s (router, p, sv)
      (e0, end_of_session (en_ingress (rl_ends r')) (en_services (rl_ends r')))"

section \<open>What a relay carries\<close>

text \<open>The bytes an operation has delivered, or taken.\<close>

fun got :: "bytes result \<Rightarrow> bytes" where
  "got (Inl e) = []"
| "got (Inr bs) = bs"

fun taken :: "bytes \<Rightarrow> unit result \<Rightarrow> bytes" where
  "taken bs (Inl e) = []"
| "taken bs (Inr _) = bs"

text \<open>
  The contract of one end of a relay. Its view is what it will still deliver and what has been written
  to it; an end without a view promises nothing.
\<close>

locale relay_end =
  fixes recv :: "nat \<Rightarrow> ('v \<times> 'a, bytes) io" and send :: "bytes \<Rightarrow> ('v \<times> 'a, unit) io" and close :: "('v \<times> 'a, unit) io"
    and view :: "'a \<Rightarrow> (bytes \<times> bytes) option"
  assumes recv_law: "view a = Some (p, q) \<Longrightarrow> recv n (v, a) = (r, (v', a')) \<Longrightarrow>
      \<exists>p'. view a' = Some (p', q) \<and> p = got r @ p' \<and> length (got r) \<le> n"
    and recv_some: "view a = Some x \<Longrightarrow> recv n (v, a) = (Inr bs, (v', a')) \<Longrightarrow> 0 < n \<Longrightarrow> bs \<noteq> []"
    and send_law: "view a = Some (p, q) \<Longrightarrow> send bs (v, a) = (r', (v', a')) \<Longrightarrow> view a' = Some (p, q @ taken bs r')"
    and close_law: "view a = Some x \<Longrightarrow> close (v, a) = (r', (v', a')) \<Longrightarrow> view a' = Some x"

text \<open>
  What a bridge has carried: \<open>all\<close> is what its source was going to deliver, \<open>out\<close> what its sink had been sent
  when the bridge started; \<open>p\<close> and \<open>q\<close> are the same now. In the loop nothing is lost, nothing is repeated
  and nothing is reordered.
\<close>

definition carries :: "bytes \<Rightarrow> bytes \<Rightarrow> bridge \<Rightarrow> bytes \<Rightarrow> bytes \<Rightarrow> bool" where
  "carries all out pc p q \<longleftrightarrow> (\<exists>u. q = out @ u \<and>
     (case pc of
        B_recv \<Rightarrow> all = u @ p
      | B_send bs \<Rightarrow> all = u @ bs @ p \<and> length bs \<le> 0xffff
      | _ \<Rightarrow> prefix u all))"

text \<open>How many steps a bridge has still to go, at most.\<close>

fun bridge_rest :: "bridge \<Rightarrow> bytes \<Rightarrow> nat" where
  "bridge_rest B_recv p = 2 * length p + 3"
| "bridge_rest (B_send bs) p = 2 * length p + 4"
| "bridge_rest (B_close_from ec) p = 2"
| "bridge_rest (B_close_to ec) p = 1"
| "bridge_rest (B_done e) p = 0"

text \<open>The two ends as a bridge sees them.\<close>

locale bridge_ends =
  fixes recv :: "nat \<Rightarrow> ('w, bytes) io" and close_from :: "('w, unit) io"
    and send :: "bytes \<Rightarrow> ('w, unit) io" and close_to :: "('w, unit) io"
    and fview :: "'w \<Rightarrow> (bytes \<times> bytes) option" and tview :: "'w \<Rightarrow> (bytes \<times> bytes) option"
  assumes recv_ends: "fview w = Some (p, q) \<Longrightarrow> recv n w = (r, w') \<Longrightarrow>
      \<exists>p'. fview w' = Some (p', q) \<and> tview w' = tview w \<and> p = got r @ p' \<and> length (got r) \<le> n"
    and recv_some: "fview w = Some x \<Longrightarrow> recv n w = (Inr bs, w') \<Longrightarrow> 0 < n \<Longrightarrow> bs \<noteq> []"
    and send_ends: "tview w = Some (p, q) \<Longrightarrow> send bs w = (r', w') \<Longrightarrow>
      fview w' = fview w \<and> tview w' = Some (p, q @ taken bs r')"
    and close_from_ends: "fview w = Some v \<Longrightarrow> close_from w = (r', w') \<Longrightarrow> fview w' = Some v \<and> tview w' = tview w"
    and close_to_ends: "tview w = Some v \<Longrightarrow> close_to w = (r', w') \<Longrightarrow> fview w' = fview w \<and> tview w' = Some v"
begin

abbreviation step :: "bridge \<Rightarrow> 'w \<Rightarrow> bridge \<times> 'w" where
  "step \<equiv> bridge_step recv close_from send close_to"

lemma step_carries:
  assumes "fview w = Some (p, q)" and "tview w = Some (p', q')" and "carries all out pc p q'"
    and "step pc w = (pc1, w1)"
  shows "\<exists>p1 q1. fview w1 = Some (p1, q) \<and> tview w1 = Some (p', q1) \<and> carries all out pc1 p1 q1"
proof (cases pc)
  case B_recv
  obtain r w' where r: "recv 0xffff w = (r, w')" by fastforce
  then obtain p1 where "fview w' = Some (p1, q)" "tview w' = Some (p', q')" "p = got r @ p1" "length (got r) \<le> 0xffff"
    using recv_ends [OF assms(1)] assms(2) by metis
  then show ?thesis using assms(3,4) B_recv r
    by (auto simp: bridge_step_def redirect_def carries_def split: sum.splits exn.splits)
next
  case (B_send bs)
  obtain r w' where r: "send bs w = (r, w')" by fastforce
  then have "fview w' = Some (p, q)" "tview w' = Some (p', q' @ taken bs r)"
    using send_ends [OF assms(2)] assms(1) by metis+
  then show ?thesis using assms(3,4) B_send r
    by (auto simp: bridge_step_def redirect_def carries_def split: sum.splits exn.splits)
next
  case (B_close_from ec)
  obtain r w' where r: "close_from w = (r, w')" by fastforce
  then have "fview w' = Some (p, q)" "tview w' = Some (p', q')"
    using close_from_ends [OF assms(1)] assms(2) by metis+
  then show ?thesis using assms(3,4) B_close_from r
    by (auto simp: bridge_step_def carries_def split: sum.splits)
next
  case (B_close_to ec)
  obtain r w' where r: "close_to w = (r, w')" by fastforce
  then have "fview w' = Some (p, q)" "tview w' = Some (p', q')"
    using close_to_ends [OF assms(2)] assms(1) by metis+
  then show ?thesis using assms(3,4) B_close_to r
    by (auto simp: bridge_step_def carries_def split: sum.splits)
next
  case (B_done e)
  then show ?thesis using assms by (simp add: bridge_step_def)
qed

lemma step_rest:
  assumes "fview w = Some (p, q)" and "tview w = Some (p', q')" and "\<not> bridge_done pc" and "step pc w = (pc1, w1)"
  shows "\<exists>p1 q1 q2. fview w1 = Some (p1, q1) \<and> tview w1 = Some (p', q2) \<and> bridge_rest pc1 p1 < bridge_rest pc p"
proof (cases pc)
  case B_recv
  obtain r w' where r: "recv 0xffff w = (r, w')" by fastforce
  obtain p1 where p1: "fview w' = Some (p1, q)" "tview w' = Some (p', q')" "p = got r @ p1"
    using recv_ends [OF assms(1) r] assms(2) by auto
  have "bs \<noteq> []" if "r = Inr bs" for bs using recv_some [OF assms(1), of "0xffff" bs w'] r that by simp
  then show ?thesis using assms(4) B_recv r p1
    by (auto simp: bridge_step_def redirect_def neq_Nil_conv split: sum.splits exn.splits)
next
  case (B_send bs)
  obtain r w' where r: "send bs w = (r, w')" by fastforce
  then have "fview w' = Some (p, q)" "\<exists>y. tview w' = Some (p', y)" using send_ends [OF assms(2)] assms(1) by auto
  then show ?thesis using assms(4) B_send r
    by (auto simp: bridge_step_def redirect_def split: sum.splits exn.splits)
next
  case (B_close_from ec)
  obtain r w' where r: "close_from w = (r, w')" by fastforce
  then have "fview w' = Some (p, q)" "tview w' = Some (p', q')" using close_from_ends [OF assms(1)] assms(2) by metis+
  then show ?thesis using assms(4) B_close_from r by (auto simp: bridge_step_def split: sum.splits)
next
  case (B_close_to ec)
  obtain r w' where r: "close_to w = (r, w')" by fastforce
  then have "fview w' = Some (p, q)" "tview w' = Some (p', q')" using close_to_ends [OF assms(2)] assms(1) by metis+
  then show ?thesis using assms(4) B_close_to r by (auto simp: bridge_step_def split: sum.splits)
next
  case (B_done e)
  then show ?thesis using assms(3) by simp
qed

end

lemma carries_abort: "carries all out pc p q \<Longrightarrow> carries all out (B_done e) p q"
  by (cases pc) (auto simp: carries_def)

locale relayed =
  ing: relay_end "ingress_recv net" "ingress_send net" "ingress_close net" iview +
  eg: relay_end "egress_recv net" "egress_send net" "egress_close net" eview
  for net :: "('s, 'x, 'd) net" and iview eview

sublocale relayed \<subseteq> up: bridge_ends "\<lambda>n. at_ingress (ingress_recv net n)" "at_ingress (ingress_close net)"
    "\<lambda>bs. at_egress (egress_send net bs)" "at_egress (egress_close net)"
    "\<lambda>w. iview (en_ingress w)" "\<lambda>w. eview (en_egress w)"
  by unfold_locales
     (auto simp: at_ingress_def at_egress_def split: prod.splits dest: ing.recv_law ing.recv_some ing.close_law eg.send_law eg.close_law)

sublocale relayed \<subseteq> down: bridge_ends "\<lambda>n. at_egress (egress_recv net n)" "at_egress (egress_close net)"
    "\<lambda>bs. at_ingress (ingress_send net bs)" "at_ingress (ingress_close net)"
    "\<lambda>w. eview (en_egress w)" "\<lambda>w. iview (en_ingress w)"
  by unfold_locales
     (auto simp: at_ingress_def at_egress_def split: prod.splits dest: eg.recv_law eg.recv_some eg.close_law ing.send_law ing.close_law)

text \<open>What the two bridges of a relay have carried together.\<close>

definition relay_carries ::
  "(('s, 'x, 'd) Ingress \<Rightarrow> (bytes \<times> bytes) option) \<Rightarrow> (('s, 'x, 'd) Egress \<Rightarrow> (bytes \<times> bytes) option) \<Rightarrow>
   bytes \<times> bytes \<Rightarrow> bytes \<times> bytes \<Rightarrow> ('s, 'x, 'd) relay \<Rightarrow> bool" where
  "relay_carries iview eview i0 e0 r \<longleftrightarrow> (\<exists>ip iq ep eq.
     iview (en_ingress (rl_ends r)) = Some (ip, iq) \<and> eview (en_egress (rl_ends r)) = Some (ep, eq) \<and>
     carries (fst i0) (snd e0) (rl_up r) ip eq \<and> carries (fst e0) (snd i0) (rl_down r) ep iq)"

lemma relay_not_stuck: "\<not> (bridge_done (rl_up r) \<and> bridge_done (rl_down r)) \<Longrightarrow> \<exists>r'. relay_step net r r'"
  by (metis relay_step.up relay_step.down surj_pair)

context relayed
begin

lemma relay_step_carries:
  assumes "relay_step net r r'" and "relay_carries iview eview i0 e0 r"
  shows "relay_carries iview eview i0 e0 r'"
proof -
  obtain ip iq ep eq where v: "iview (en_ingress (rl_ends r)) = Some (ip, iq)" "eview (en_egress (rl_ends r)) = Some (ep, eq)"
    and c: "carries (fst i0) (snd e0) (rl_up r) ip eq" "carries (fst e0) (snd i0) (rl_down r) ep iq"
    using assms(2) by (auto simp: relay_carries_def)
  show ?thesis using assms(1)
  proof cases
    case (up pc w)
    then show ?thesis using up.step_carries [OF v c(1)] c(2) by (auto simp: relay_carries_def bridge_up_def)
  next
    case (down pc w)
    then show ?thesis using down.step_carries [OF v(2,1) c(2)] c(1) by (auto simp: relay_carries_def bridge_down_def)
  next
    case cancel_up
    then show ?thesis using v c carries_abort by (auto simp: relay_carries_def)
  next
    case cancel_down
    then show ?thesis using v c carries_abort by (auto simp: relay_carries_def)
  qed
qed

lemma relay_carries_always:
  assumes "(relay_step net)\<^sup>*\<^sup>* (relay_new sv i e) r" and "iview i = Some i0" and "eview e = Some e0"
  shows "relay_carries iview eview i0 e0 r"
  using assms(1)
proof (induction rule: rtranclp_induct)
  case base
  then show ?case using assms(2,3) by (cases i0; cases e0) (simp add: relay_carries_def relay_new_def carries_def)
next
  case (step r r')
  then show ?case using relay_step_carries by blast
qed

lemma relay_step_rest:
  assumes "relay_step net r r'" and "iview (en_ingress (rl_ends r)) = Some (ip, iq)"
    and "eview (en_egress (rl_ends r)) = Some (ep, eq)"
  shows "\<exists>ip' iq' ep' eq'. iview (en_ingress (rl_ends r')) = Some (ip', iq') \<and>
    eview (en_egress (rl_ends r')) = Some (ep', eq') \<and>
    bridge_rest (rl_up r') ip' + bridge_rest (rl_down r') ep' < bridge_rest (rl_up r) ip + bridge_rest (rl_down r) ep"
  using assms(1)
proof cases
  case (up pc w)
  then show ?thesis using up.step_rest [OF assms(2,3) up(2)] by (fastforce simp: bridge_up_def)
next
  case (down pc w)
  then show ?thesis using down.step_rest [OF assms(3,2) down(2)] by (fastforce simp: bridge_down_def)
next
  case cancel_up
  then show ?thesis using assms(2,3) by (cases "rl_up r") auto
next
  case cancel_down
  then show ?thesis using assms(2,3) by (cases "rl_down r") auto
qed

lemma relay_steps_bound:
  assumes "(relay_step net ^^ n) r r'" and "iview (en_ingress (rl_ends r)) = Some (ip, iq)"
    and "eview (en_egress (rl_ends r)) = Some (ep, eq)"
  shows "n \<le> bridge_rest (rl_up r) ip + bridge_rest (rl_down r) ep"
  using assms
proof (induction n arbitrary: r ip iq ep eq)
  case (Suc n)
  then obtain r1 where r1: "relay_step net r r1" "(relay_step net ^^ n) r1 r'" by (metis relpowp_Suc_E2)
  from relay_step_rest [OF r1(1) Suc.prems(2,3)] obtain ip' iq' ep' eq' where
    "iview (en_ingress (rl_ends r1)) = Some (ip', iq')" "eview (en_egress (rl_ends r1)) = Some (ep', eq')"
    "bridge_rest (rl_up r1) ip' + bridge_rest (rl_down r1) ep' < bridge_rest (rl_up r) ip + bridge_rest (rl_down r) ep"
    by blast
  with Suc.IH [OF r1(2)] show ?case by fastforce
qed simp

lemma relay_can_end:
  assumes "iview (en_ingress (rl_ends r)) = Some (ip, iq)" and "eview (en_egress (rl_ends r)) = Some (ep, eq)"
  shows "\<exists>r'. (relay_step net)\<^sup>*\<^sup>* r r' \<and> bridge_done (rl_up r') \<and> bridge_done (rl_down r')"
  using assms
proof (induction "bridge_rest (rl_up r) ip + bridge_rest (rl_down r) ep" arbitrary: r ip iq ep eq rule: less_induct)
  case less
  show ?case
  proof (cases "bridge_done (rl_up r) \<and> bridge_done (rl_down r)")
    case False
    then obtain r1 where r1: "relay_step net r r1" using relay_not_stuck by blast
    then show ?thesis using relay_step_rest [OF r1 less.prems] less.hyps by (meson converse_rtranclp_into_rtranclp)
  qed blast
qed

end

section \<open>Relays between sockets\<close>

text \<open>
  The adapters that add nothing to the bytes of an established connection, over the socket: SOCKS5,
  transparent and tunnel ingresses, an HTTP ingress in a CONNECT tunnel, a dual ingress with one of those
  delegates; direct, SOCKS5 and HTTP egresses. Nothing goes through a reject egress.
\<close>

definition socket_view :: "socket \<Rightarrow> (bytes \<times> bytes) option" where
  "socket_view s = Some (sk_content s, sk_wBuf s)"

definition http_view :: "socket http \<Rightarrow> (bytes \<times> bytes) option" where
  "http_view h = (case ht_manner h of
     M_Connect cache \<Rightarrow> Some (cache @ sk_content (ht_underlying h), sk_wBuf (ht_underlying h)) | _ \<Rightarrow> None)"

definition dual_view :: "socket dual \<Rightarrow> (bytes \<times> bytes) option" where
  "dual_view d = (case du_delegate d of
     None \<Rightarrow> None | Some (DD_Http _ h) \<Rightarrow> http_view h | Some (DD_Socks5 _ s) \<Rightarrow> socket_view s)"

fun ingress_view :: "(socket, 'x, 'd) Ingress \<Rightarrow> (bytes \<times> bytes) option" where
  "ingress_view (I_Socks5_Socket c s) = socket_view s"
| "ingress_view (I_Transparent s) = socket_view s"
| "ingress_view (I_Tunnel t) = socket_view (tu_socket t)"
| "ingress_view (I_Http_Socket c h) = http_view h"
| "ingress_view (I_Dual_Socket d) = dual_view d"
| "ingress_view _ = None"

fun egress_view :: "(socket, 'x, 'd) Egress \<Rightarrow> (bytes \<times> bytes) option" where
  "egress_view (E_Direct s) = socket_view s"
| "egress_view (E_Socks5_Socket c p s) = socket_view s"
| "egress_view (E_Http_Socket c p u) = Some (snd u @ sk_content (fst u), sk_wBuf (fst u))"
| "egress_view (E_Reject r) = Some ([], [])"
| "egress_view _ = None"

text \<open>The socket with a way to connect it: \<open>conn\<close> says which connections the system makes.\<close>

definition wire :: "(Endpoint \<Rightarrow> (socket, unit) io) \<Rightarrow> socket layer" where
  "wire conn = socket_layer\<lparr>ly_connect := conn\<rparr>"

lemma wire_simps [simp]: "ly_read (wire conn) = stream_read" "ly_read_some (wire conn) = read_some"
  "ly_write (wire conn) = stream_write" "ly_accept (wire conn) = ioret (Inr ())" "ly_connect (wire conn) = conn"
  "ly_close (wire conn) = socket_close"
  by (simp_all add: wire_def socket_layer_def)

definition over_wire :: "(Endpoint \<Rightarrow> (socket, unit) io) \<Rightarrow> (socket, 'x, 'd) net \<Rightarrow> (socket, 'x, 'd) net" where
  "over_wire conn net = net\<lparr>nt_layer := wire conn\<rparr>"

lemma over_wire_layer [simp]: "nt_layer (over_wire conn net) = wire conn"
  by (simp add: over_wire_def)

lemma over_wire_id: "nt_layer net = wire conn \<Longrightarrow> over_wire conn net = net"
  by (simp add: over_wire_def)

lemma read_some_view:
  assumes "read_some n s = (r, s')"
  shows "sk_content s = got r @ sk_content s' \<and> sk_wBuf s' = sk_wBuf s \<and> length (got r) \<le> n"
  using assms by (auto simp: read_some_def sk_content_def fail_misc_def fail_with_def Let_def
      split: if_splits list.splits)

lemma write_view:
  assumes "stream_write bs s = (r, s')"
  shows "sk_content s' = sk_content s \<and> sk_wBuf s' = sk_wBuf s @ taken bs r"
  using assms by (auto simp: stream_write_def sk_content_def split: if_splits)

lemma close_view:
  assumes "socket_close s = (r, s')"
  shows "sk_content s' = sk_content s \<and> sk_wBuf s' = sk_wBuf s"
  using assms by (auto simp: socket_close_def sk_content_def)

text \<open>\<^verbatim>\<open>redirect\<close> of a close, and a cache in front of the socket.\<close>

lemma redirect_close_view:
  assumes "redirect_void (socket_close) s = (r, s')"
  shows "sk_content s' = sk_content s \<and> sk_wBuf s' = sk_wBuf s"
  using assms by (auto simp: redirect_void_def socket_close_def sk_content_def)

lemma cached_view:
  assumes "connect_manner_recv (wire conn) n (s, c) = (r, (s', c'))"
  shows "c @ sk_content s = got r @ c' @ sk_content s' \<and> sk_wBuf s' = sk_wBuf s \<and> length (got r) \<le> n"
  using assms read_some_view [of n s]
  by (auto simp: connect_manner_recv_def Let_def simp flip: append_assoc split: if_splits prod.splits)

lemma http_recv_view:
  assumes "http_view h = Some (p, q)" and "http_ingress_recv (wire conn) n h = (r, h')"
  shows "\<exists>p'. http_view h' = Some (p', q) \<and> p = got r @ p' \<and> length (got r) \<le> n"
  using assms cached_view [where n = n and s = "ht_underlying h"]
  by (cases "ht_manner h") (auto simp: http_view_def http_ingress_recv_def split: prod.splits)

lemma http_send_view:
  assumes "http_view h = Some (p, q)" and "http_ingress_send lib (wire conn) bs h = (r, h')"
  shows "http_view h' = Some (p, q @ taken bs r)"
  using assms write_view [of bs "ht_underlying h"]
  by (cases "ht_manner h") (auto simp: http_view_def http_ingress_send_def on_http_def split: prod.splits)

lemma http_close_view:
  assumes "http_view h = Some v" and "http_ingress_close (wire conn) h = (r, h')"
  shows "http_view h' = Some v"
proof (cases "redirect_void (socket_close) (ht_underlying h)")
  case (Pair x u)
  then have "h' = h\<lparr>ht_underlying := u\<rparr>" using assms(2)
    by (cases x) (auto simp: http_ingress_close_def on_http_def iobind_def)
  then show ?thesis using assms(1) redirect_close_view [OF Pair] by (cases "ht_manner h") (simp_all add: http_view_def)
qed

lemma socks5_close_view:
  assumes "socks5_ingress_close (wire conn) s = (r, s')"
  shows "sk_content s' = sk_content s \<and> sk_wBuf s' = sk_wBuf s"
  using assms by (auto simp: socks5_ingress_close_def redirect_void_def socket_close_def sk_content_def iobind_def)

lemmas delegate_simps = dual_view_def has_delegate_def visit_delegate_def

lemma dual_recv_view:
  assumes "dual_view d = Some (p, q)" and "dual_recv (wire conn) n d = (r, d')"
  shows "\<exists>p'. dual_view d' = Some (p', q) \<and> p = got r @ p' \<and> length (got r) \<le> n"
  using assms http_recv_view read_some_view
  by (auto simp: delegate_simps dual_recv_def iobind_def socks5_ingress_recv_def socket_view_def
      split: option.splits dual_delegate.splits prod.splits)

lemma dual_send_view:
  assumes "dual_view d = Some (p, q)" and "dual_send lib (wire conn) bs d = (r, d')"
  shows "dual_view d' = Some (p, q @ taken bs r)"
  using assms http_send_view write_view
  by (auto simp: delegate_simps dual_send_def iobind_def socks5_ingress_send_def socket_view_def
      split: option.splits dual_delegate.splits prod.splits)

lemma dual_close_view:
  assumes "dual_view d = Some v" and "dual_close (wire conn) d = (r, d')"
  shows "dual_view d' = Some v"
  using assms
  by (auto simp: delegate_simps dual_close_def iobind_def socket_view_def
      split: option.splits dual_delegate.splits prod.splits dest: http_close_view socks5_close_view)

text \<open>The ends of a relay keep the contract.\<close>

lemma direct_close_view: "direct_close (over_wire conn net) (sv, s) = (r, (sv', s')) \<Longrightarrow>
    sk_content s' = sk_content s \<and> sk_wBuf s' = sk_wBuf s"
  by (auto simp: direct_close_def socket_close_def sk_content_def split: sum.splits prod.splits)

lemmas plain_ops = inside_def with_services_def on_tunnel_def on_fst_def tunnel_recv_def tunnel_send_def tunnel_close_def
  transparent_recv_def transparent_send_def transparent_close_def socks5_ingress_recv_def socks5_ingress_send_def
  socks5_egress_recv_def socks5_egress_send_def direct_recv_def direct_send_def reject_recv_def reject_send_def
  reject_close_def http_egress_send_def

lemma ingress_recv_view:
  assumes "ingress_view a = Some (p, q)" and "ingress_recv (over_wire conn net) n (v, a) = (r, (v', a'))"
  shows "\<exists>p'. ingress_view a' = Some (p', q) \<and> p = got r @ p' \<and> length (got r) \<le> n"
  using assms by (cases a) (auto simp: plain_ops socket_view_def split: prod.splits
      dest: http_recv_view dual_recv_view read_some_view)

lemma read_some_some: "read_some n s = (Inr bs, s') \<Longrightarrow> 0 < n \<Longrightarrow> bs \<noteq> []"
  by (rule read_some_progress)

lemma cached_some: "connect_manner_recv (wire conn) n (s, c) = (Inr bs, u) \<Longrightarrow> 0 < n \<Longrightarrow> bs \<noteq> []"
  by (auto simp: connect_manner_recv_def Let_def min_def split: if_splits prod.splits dest: read_some_some)

lemma http_recv_some: "http_view h = Some x \<Longrightarrow> http_ingress_recv (wire conn) n h = (Inr bs, h') \<Longrightarrow> 0 < n \<Longrightarrow> bs \<noteq> []"
  by (cases "ht_manner h") (auto simp: http_view_def http_ingress_recv_def split: prod.splits dest: cached_some)

lemma dual_recv_some: "dual_view d = Some x \<Longrightarrow> dual_recv (wire conn) n d = (Inr bs, d') \<Longrightarrow> 0 < n \<Longrightarrow> bs \<noteq> []"
  by (auto simp: delegate_simps dual_recv_def iobind_def socks5_ingress_recv_def
      split: option.splits dual_delegate.splits prod.splits dest: http_recv_some read_some_some)

lemma ingress_recv_some:
  assumes "ingress_view a = Some x" and "ingress_recv (over_wire conn net) n (v, a) = (Inr bs, (v', a'))" and "0 < n"
  shows "bs \<noteq> []"
  using assms by (cases a) (auto simp: plain_ops split: prod.splits dest: http_recv_some dual_recv_some read_some_some)

lemma ingress_send_view:
  assumes "ingress_view a = Some (p, q)" and "ingress_send (over_wire conn net) bs (v, a) = (r, (v', a'))"
  shows "ingress_view a' = Some (p, q @ taken bs r)"
  using assms by (cases a) (auto simp: plain_ops socket_view_def split: prod.splits
      dest: http_send_view dual_send_view write_view)

lemma ingress_close_view:
  assumes "ingress_view a = Some x" and "ingress_close (over_wire conn net) (v, a) = (r, (v', a'))"
  shows "ingress_view a' = Some x"
  using assms by (cases a) (auto simp: plain_ops socket_view_def split: prod.splits
      dest: http_close_view dual_close_view close_view socks5_close_view)

lemma http_egress_recv_cached: "http_egress_recv ly n (s, c) = connect_manner_recv ly n (s, c)"
  by (simp add: http_egress_recv_def connect_manner_recv_def min.commute)

lemma egress_recv_view:
  assumes "egress_view a = Some (p, q)" and "egress_recv (over_wire conn net) n (v, a) = (r, (v', a'))"
  shows "\<exists>p'. egress_view a' = Some (p', q) \<and> p = got r @ p' \<and> length (got r) \<le> n"
  using assms by (cases a) (auto simp: plain_ops socket_view_def http_egress_recv_cached fail_misc_def fail_with_def
      split: prod.splits dest: cached_view read_some_view)

lemma egress_recv_some:
  assumes "egress_view a = Some x" and "egress_recv (over_wire conn net) n (v, a) = (Inr bs, (v', a'))" and "0 < n"
  shows "bs \<noteq> []"
  using assms by (cases a) (auto simp: plain_ops http_egress_recv_cached split: prod.splits dest: cached_some read_some_some)

lemma egress_send_view:
  assumes "egress_view a = Some (p, q)" and "egress_send (over_wire conn net) bs (v, a) = (r, (v', a'))"
  shows "egress_view a' = Some (p, q @ taken bs r)"
  using assms by (cases a) (auto simp: plain_ops socket_view_def fail_misc_def fail_with_def
      split: prod.splits dest: write_view)

lemma egress_close_plain: "socks5_egress_close = socks5_ingress_close"
  by (simp add: fun_eq_iff socks5_egress_close_def socks5_ingress_close_def)

lemma http_egress_close_view:
  assumes "http_egress_close (wire conn) u = (r, u')"
  shows "snd u' = snd u \<and> sk_content (fst u') = sk_content (fst u) \<and> sk_wBuf (fst u') = sk_wBuf (fst u)"
  using assms by (auto simp: http_egress_close_def on_fst_def redirect_void_def socket_close_def
      sk_content_def iobind_def)

lemma egress_close_view:
  assumes "egress_view a = Some x" and "egress_close (over_wire conn net) (v, a) = (r, (v', a'))"
  shows "egress_view a' = Some x"
  using assms by (cases a) (auto simp: plain_ops socket_view_def egress_close_plain split: prod.splits
      dest: direct_close_view socks5_close_view http_egress_close_view)

interpretation plain: relayed "over_wire conn net" ingress_view egress_view for conn net
  by unfold_locales
     (rule ingress_recv_view ingress_recv_some egress_recv_some ingress_send_view ingress_close_view egress_recv_view egress_send_view egress_close_view; assumption)+

lemma relay_prefixes:
  assumes "nt_layer net = wire conn" and "ingress_view i = Some (ip, iq)" and "egress_view e = Some (ep, eq)"
    and "(relay_step net)\<^sup>*\<^sup>* (relay_new sv i e) r"
  shows "\<exists>ip' ep' u d. ingress_view (en_ingress (rl_ends r)) = Some (ip', iq @ d) \<and>
    egress_view (en_egress (rl_ends r)) = Some (ep', eq @ u) \<and> prefix u ip \<and> prefix d ep \<and>
    (rl_up r = B_recv \<longrightarrow> ip = u @ ip') \<and> (rl_down r = B_recv \<longrightarrow> ep = d @ ep')"
proof -
  have c: "carries all out pc p q \<Longrightarrow> \<exists>u. q = out @ u \<and> prefix u all \<and> (pc = B_recv \<longrightarrow> all = u @ p)" for all out pc p q
    by (cases pc) (auto simp: carries_def)
  have "relay_carries ingress_view egress_view (ip, iq) (ep, eq) r"
    using plain.relay_carries_always [where net = net and conn = conn, unfolded over_wire_id [OF assms(1)], OF assms(4,2,3)] .
  then obtain ip' iq' ep' eq' where v: "ingress_view (en_ingress (rl_ends r)) = Some (ip', iq')"
      "egress_view (en_egress (rl_ends r)) = Some (ep', eq')"
      "carries ip eq (rl_up r) ip' eq'" "carries ep iq (rl_down r) ep' iq'"
    by (auto simp: relay_carries_def)
  from c [OF v(3)] c [OF v(4)] v(1,2) show ?thesis by blast
qed

section \<open>Properties\<close>

text \<open>
  C7: Between sockets a relay loses, repeats, reorders and invents nothing, whichever way the two bridges
  interleave and whenever one of them fails, is cancelled or finds a socket closed by the other: what has been written to
  the egress is a prefix of what the client has sent, what has been written to the client
  is a prefix of what the egress has delivered, and while a bridge is at its read everything that was taken from
  one side has been written to the other.
\<close>

theorem relay_faithful:
  assumes "nt_layer net = wire conn" and "ingress_view i = Some (ip, iq)" and "egress_view e = Some (ep, eq)"
    and "(relay_step net)\<^sup>*\<^sup>* (relay_new sv i e) r"
  shows "\<exists>ip' ep' u d. ingress_view (en_ingress (rl_ends r)) = Some (ip', iq @ d) \<and>
    egress_view (en_egress (rl_ends r)) = Some (ep', eq @ u) \<and> prefix u ip \<and> prefix d ep \<and>
    (rl_up r = B_recv \<longrightarrow> ip = u @ ip') \<and> (rl_down r = B_recv \<longrightarrow> ep = d @ ep')"
  by (rule relay_prefixes [OF assms])

text \<open>Two bytes of the client's, two of the server's: the client's first byte has arrived and is on its way.\<close>

definition sample_services :: services where
  "sample_services = \<lparr>svc_sentry = sentry_initialize sentry_new, svc_balancers = service_new,
     svc_clients = clients_initialize clients_new\<rparr>"

definition sample_relay :: "(socket, unit, unit) relay" where
  "sample_relay = relay_new sample_services (I_Transparent (sample_socket [[1], [2]])) (E_Direct (sample_socket [[3, 4]]))"

definition sample_relay_next :: "(socket, unit, unit) relay" where
  "sample_relay_next = sample_relay\<lparr>rl_up := B_send [1], rl_ends := (rl_ends sample_relay)
     \<lparr>en_ingress := I_Transparent (sample_socket [[2]])\<rparr>\<rparr>"

lemma sample_relay_step: "relay_step sample_net sample_relay sample_relay_next"
proof -
  have "bridge_up sample_net (rl_up sample_relay) (rl_ends sample_relay) =
      (B_send [1], (rl_ends sample_relay)\<lparr>en_ingress := I_Transparent (sample_socket [[2]])\<rparr>)"
    by (simp add: bridge_up_def bridge_step_def redirect_def at_ingress_def inside_def transparent_recv_def
        sample_net_def socket_layer_def read_some_def sample_socket_def sample_relay_def relay_new_def)
  from relay_step.up [OF _ this] show ?thesis by (simp add: sample_relay_def relay_new_def sample_relay_next_def)
qed

lemma sample_relay_views:
  "nt_layer sample_net = wire (\<lambda>_. ioret (Inr ()))"
  "ingress_view (I_Transparent (sample_socket [[1], [2]]) :: (socket, unit, unit) Ingress) = Some ([1, 2], [])"
  "egress_view (E_Direct (sample_socket [[3, 4]]) :: (socket, unit, unit) Egress) = Some ([3, 4], [])"
  by (simp_all add: sample_net_def wire_def socket_layer_def socket_view_def sample_socket_def sk_content_def)

theorem relay_faithful_witness:
  "\<exists>ip' ep' u d. ingress_view (en_ingress (rl_ends sample_relay_next)) = Some (ip', [] @ d) \<and>
    egress_view (en_egress (rl_ends sample_relay_next)) = Some (ep', [] @ u) \<and> prefix u [1, 2] \<and> prefix d [3, 4] \<and>
    (rl_up sample_relay_next = B_recv \<longrightarrow> [1, 2] = u @ ip') \<and> (rl_down sample_relay_next = B_recv \<longrightarrow> [3, 4] = d @ ep')"
  by (rule relay_faithful [OF sample_relay_views])
     (fact r_into_rtranclp [where r = "relay_step sample_net", OF sample_relay_step, unfolded sample_relay_def])

text \<open>
  C8: A relay between sockets ends: no run of it has more than twice as many steps as there are bytes to
  relay in both directions, and six, and every run can be completed to one in which both bridges have ended.
\<close>

theorem relay_terminates:
  assumes "nt_layer net = wire conn" and "ingress_view i = Some (ip, iq)" and "egress_view e = Some (ep, eq)"
    and "(relay_step net ^^ n) (relay_new sv i e) r"
  shows "n \<le> 2 * (length ip + length ep) + 6 \<and>
    (\<exists>r'. (relay_step net)\<^sup>*\<^sup>* r r' \<and> bridge_done (rl_up r') \<and> bridge_done (rl_down r'))"
proof
  note net = over_wire_id [OF assms(1)]
  show "n \<le> 2 * (length ip + length ep) + 6"
    using plain.relay_steps_bound [where net = net and conn = conn, unfolded net, OF assms(4), of ip iq ep eq] assms(2,3)
    by (simp add: relay_new_def)
  have "(relay_step net)\<^sup>*\<^sup>* (relay_new sv i e) r" by (rule relpowp_imp_rtranclp [OF assms(4)])
  then have "relay_carries ingress_view egress_view (ip, iq) (ep, eq) r"
    using plain.relay_carries_always [where net = net and conn = conn, unfolded net] assms(2,3) by blast
  then show "\<exists>r'. (relay_step net)\<^sup>*\<^sup>* r r' \<and> bridge_done (rl_up r') \<and> bridge_done (rl_down r')"
    using plain.relay_can_end [where net = net and conn = conn, unfolded net] by (auto simp: relay_carries_def)
qed

theorem relay_terminates_witness:
  "1 \<le> 2 * (length [1 :: byte, 2] + length [3 :: byte, 4]) + 6 \<and>
    (\<exists>r'. (relay_step sample_net)\<^sup>*\<^sup>* sample_relay_next r' \<and> bridge_done (rl_up r') \<and> bridge_done (rl_down r'))"
proof (rule relay_terminates [OF sample_relay_views])
  have "(relay_step sample_net ^^ 1) sample_relay sample_relay_next" by (simp only: relpowp_1 sample_relay_step)
  then show "(relay_step sample_net ^^ 1) (relay_new sample_services (I_Transparent (sample_socket [[1], [2]]))
      (E_Direct (sample_socket [[3, 4]]))) sample_relay_next" by (simp only: sample_relay_def)
qed

lemma socks5_over_wire: "socks5_read_remote ip (wire conn) c = socks5_read_remote ip socket_layer c"
  by (simp add: socks5_read_remote_def socks5_continue_read_remote_def socks5_authenticate_def socks5_read_request_def
      read_string_def socket_layer_def)

abbreviation socks5_success :: bytes where
  "socks5_success \<equiv> [0x05, 0x00, 0x00, 0x01, 0x00, 0x00, 0x00, 0x00, 0x00, 0x00]"

text \<open>A session of a SOCKS5 ingress, once the client's request has been read and routed.\<close>

lemma socks5_session_handshake:
  fixes net :: "('s, 'x, 'd) net"
  assumes "socks5_read_remote (nt_ip net) (nt_layer net) users s = (Inr peer, s1)"
    and "route env router peer (in_name vo) (in_type vo) p = (Inr (rname, ename, evo), p')"
    and "create_egress net evo = Inr e"
  shows "handshake net env vo (session_new router p sv (I_Socks5_Socket users s)) =
    iobind (connect_egress net peer e) (\<lambda>e'. iobind (on_ingress (ingress_confirm net)) (\<lambda>_.
      iobind forget_router (\<lambda>_. ioret (Inr e'))))
      \<lparr>ss_router = Some router, ss_resolver = p', ss_services = sv, ss_ingress = I_Socks5_Socket users s1\<rparr>"
proof -
  let ?w = "\<lparr>ss_router = Some router, ss_resolver = p, ss_services = sv,
    ss_ingress = I_Socks5_Socket users s1\<rparr> :: ('s, 'x, 'd) session"
  have "redirect (on_ingress (ingress_read_remote net)) (session_new router p sv (I_Socks5_Socket users s)) =
      (Inr (Inr peer), ?w)"
    using assms(1) by (simp add: redirect_def on_ingress_def session_new_def inside_def)
  moreover have "session_route env peer vo ?w = (Inr (rname, ename, evo), ?w\<lparr>ss_resolver := p'\<rparr>)"
    using assms(2) by (simp add: session_route_def)
  ultimately show ?thesis using assms(3) by (simp add: handshake_def)
qed

text \<open>
  C9: A SOCKS5 client learns why it cannot be served: when the egress that the router has chosen fails to
  connect, the client has been sent the answers to its greeting and then the reply for that very error, never the
  reply of success, and the session ends with the error.
\<close>

theorem failed_connect_reported:
  assumes "nt_layer net = wire conn" and "socks5_read_remote (nt_ip net) (nt_layer net) users s = (Inr peer, s1)" and "sk_open s1"
    and "route env router peer (in_name vo) (in_type vo) p = (Inr (rname, ename, evo), p')"
    and "create_egress net evo = Inr e" and "egress_connect net peer (sv, e) = (Inl (SystemError ec msg), (sv', e'))"
  shows "session_open net env vo (session_new router p sv (I_Socks5_Socket users s)) =
      (Inl (SystemError ec ''''), \<lparr>ss_router = Some router, ss_resolver = p', ss_services = sv',
         ss_ingress = I_Socks5_Socket users (s1\<lparr>sk_wBuf := sk_wBuf s1 @ socks5_err_to_buf ec\<rparr>)\<rparr>) \<and>
    \<not> prefix socks5_success (socks5_err_to_buf ec)"
proof
  let ?w = "\<lparr>ss_router = Some router, ss_resolver = p', ss_services = sv', ss_ingress = I_Socks5_Socket users s1\<rparr>"
  have "redirect (handshake net env vo) (session_new router p sv (I_Socks5_Socket users s)) = (Inr (Inl ec), ?w)"
    using assms(6) by (simp add: redirect_def socks5_session_handshake [OF assms(2,4,5)] connect_egress_def iobind_def)
  then show "session_open net env vo (session_new router p sv (I_Socks5_Socket users s)) =
      (Inl (SystemError ec ''''), \<lparr>ss_router = Some router, ss_resolver = p', ss_services = sv',
         ss_ingress = I_Socks5_Socket users (s1\<lparr>sk_wBuf := sk_wBuf s1 @ socks5_err_to_buf ec\<rparr>)\<rparr>)"
    using assms(1,3) by (simp add: session_open_def on_ingress_def inside_def socks5_disconnect_def redirect_void_def
        stream_write_def iobind_def)
  show "\<not> prefix socks5_success (socks5_err_to_buf ec)"
    by (simp add: socks5_err_to_buf_def)
qed

definition sample_refusing :: "(socket, unit, unit) net" where
  "sample_refusing = over_wire (\<lambda>_ s. (Inl (SystemError (Asio_code asio_connection_refused) ''''), s)) sample_net"

definition direct_router :: Router where
  "direct_router = \<lparr>ro_matchers = [], ro_default = (''*'', ''out'', empty_egress DIRECT)\<rparr>"

definition sample_client :: socket where
  "sample_client = sample_socket [[5, 1, 0], [5, 1, 0, 1, 10, 0, 0, 1, 0, 80, 42]]"

abbreviation sample_target :: Endpoint where
  "sample_target \<equiv> \<lparr>ep_type = IPV4, ep_host = ''10.0.0.1'', ep_port = 80\<rparr>"

lemma sample_client_request:
  "socks5_read_remote sample_ip socket_layer [] sample_client =
    (Inr sample_target, \<lparr>sk_rBufs = [[42]], sk_wBuf = [5, 0], sk_end = Asio_code asio_eof, sk_open = True\<rparr>)"
  by code_simp

lemma sample_client_route:
  "route sample_env direct_router sample_target ''in'' SOCKS5 None = (Inr (''*'', ''out'', empty_egress DIRECT), None)"
  by code_simp

theorem failed_connect_reported_witness:
  "session_open sample_refusing sample_env ((empty_ingress SOCKS5 [])\<lparr>in_name := ''in''\<rparr>)
      (session_new direct_router None sample_services (I_Socks5_Socket [] sample_client)) =
      (Inl (SystemError (Asio_code asio_connection_refused) ''''),
       \<lparr>ss_router = Some direct_router, ss_resolver = None, ss_services = sample_services,
         ss_ingress = I_Socks5_Socket [] \<lparr>sk_rBufs = [[42]], sk_wBuf = [5, 0, 5, 5, 0, 1, 0, 0, 0, 0, 0, 0],
           sk_end = Asio_code asio_eof, sk_open = True\<rparr>\<rparr>) \<and>
    \<not> prefix socks5_success (socks5_err_to_buf (Asio_code asio_connection_refused))"
proof -
  let ?vo = "(empty_ingress SOCKS5 [])\<lparr>in_name := ''in''\<rparr>"
  have net: "nt_layer sample_refusing = wire (\<lambda>_ s. (Inl (SystemError (Asio_code asio_connection_refused) ''''), s))"
    "nt_ip sample_refusing = sample_ip" by (simp_all add: sample_refusing_def over_wire_def sample_net_def)
  have 1: "socks5_read_remote (nt_ip sample_refusing) (nt_layer sample_refusing) [] sample_client =
    (Inr sample_target, \<lparr>sk_rBufs = [[42]], sk_wBuf = [5, 0], sk_end = Asio_code asio_eof, sk_open = True\<rparr>)"
    using sample_client_request by (simp only: net socks5_over_wire)
  have 2: "route sample_env direct_router sample_target (in_name ?vo) (in_type ?vo) None = (Inr (''*'', ''out'', empty_egress DIRECT), None)"
    using sample_client_route by (simp add: empty_ingress_def)
  have 3: "create_egress sample_refusing (empty_egress DIRECT) = Inr (E_Direct (nt_socket sample_refusing))"
    by (simp add: create_egress_def empty_egress_def)
  have 4: "egress_connect sample_refusing sample_target (sample_services, E_Direct (nt_socket sample_refusing)) =
      (Inl (SystemError (Asio_code asio_connection_refused) ''''), (sample_services, E_Direct (nt_socket sample_refusing)))"
    by (simp add: with_services_def direct_connect_def net)
  from failed_connect_reported [OF net(1) 1 _ 2 3 4] show ?thesis by (simp add: socks5_err_to_buf_def)
qed

text \<open>
  C6: A SOCKS5 session from the first byte to the last. A client that sends a request for an endpoint and then
  a payload, cut into chunks in any way, and that the router sends to a direct egress, gets the answers to its
  greeting and the reply of success once the connection to the endpoint it named has been made (nothing is
  assumed of connections to other endpoints); from then on
  the pool of local connections answers that it knows the connection; and, however the
  two bridges interleave, the server is sent a prefix of the payload and the client a prefix of what the server
  sends, behind the reply.
\<close>

theorem socks5_direct_session:
  assumes "ip_laws (nt_ip net)" and "nt_layer net = wire conn"
    and "in_type vo = SOCKS5" and "in_tls vo = None" and "socks5_ingress_credential vo = Inr users"
    and "endpoint_bytes (nt_ip net) ep = Inr eb" and "credentials_agree users data"
    and "sk_ok s" and "sk_content s = socks5_request data eb @ payload"
    and "route env router (canonical (nt_ip net) ep) (in_name vo) (in_type vo) p = (Inr (rname, ename, empty_egress DIRECT), p')"
    and "conn (canonical (nt_ip net) ep) (nt_socket net) = (Inr (), t)" and "nt_local net t = Inr here" and "tc_strand (svc_clients sv)"
  shows "\<exists>i r w. create_ingress net (svc_sentry sv) vo s = Inr i \<and>
    session_open net env vo (session_new router p sv i) = (Inr r, w) \<and> fst (clients_contains here (svc_clients (ss_services w))) = Inr True \<and>
    (\<forall>r'. (relay_step net)\<^sup>*\<^sup>* r r' \<longrightarrow> (\<exists>from_client from_server u d.
      ingress_view (en_ingress (rl_ends r')) =
        Some (from_client, sk_wBuf s @ socks5_answer (users \<noteq> []) @ socks5_success @ d) \<and>
      egress_view (en_egress (rl_ends r')) = Some (from_server, sk_wBuf t @ u) \<and>
      prefix u payload \<and> prefix d (sk_content t)))"
proof -
  let ?peer = "canonical (nt_ip net) ep" and ?i = "I_Socks5_Socket users s :: (socket, 'a, 'b) Ingress"
  let ?sv = "sv\<lparr>svc_clients := clients_post (Emplace here) (svc_clients sv)\<rparr>"
  obtain s1 where s1: "socks5_read_remote (nt_ip net) socket_layer users s = (Inr ?peer, s1)" "sk_content s1 = payload"
      "sk_wBuf s1 = sk_wBuf s @ socks5_answer (users \<noteq> [])" "sk_ok s1"
    using sk.ingress_handshake [OF assms(8,1,6,7,9)] by blast
  then have rr: "socks5_read_remote (nt_ip net) (nt_layer net) users s = (Inr ?peer, s1)"
    using assms(2) by (simp add: socks5_over_wire)
  define s2 where "s2 = s1\<lparr>sk_wBuf := sk_wBuf s1 @ socks5_success\<rparr>"
  let ?w = "\<lparr>ss_router = None, ss_resolver = p', ss_services = ?sv, ss_ingress = I_Socks5_Socket users s2\<rparr> :: (socket, 'a, 'b) session"
  let ?r = "relay_new ?sv (I_Socks5_Socket users s2) (E_Direct t) :: (socket, 'a, 'b) relay"
  have e: "create_egress net (empty_egress DIRECT) = Inr (E_Direct (nt_socket net))"
    by (simp add: create_egress_def empty_egress_def)
  have "egress_connect net ?peer (sv, E_Direct (nt_socket net)) = (Inr (), (?sv, E_Direct t))"
    using assms(2,11-13) by (simp add: with_services_def direct_connect_def clients_insert_def)
  then have "handshake net env vo (session_new router p sv ?i) = (Inr (E_Direct t), ?w)"
    using s1(4) assms(2) unfolding socks5_session_handshake [OF rr assms(10) e]
    by (simp add: iobind_def connect_egress_def on_ingress_def inside_def socks5_confirm_def stream_write_def
        sk_ok_def forget_router_def s2_def)
  then have "session_open net env vo (session_new router p sv ?i) = (Inr ?r, ?w)"
    by (simp add: session_open_def)
  moreover have "create_ingress net (svc_sentry sv) vo s = Inr ?i"
    using assms(3-5) by (simp add: create_ingress_def)
  moreover have "fst (clients_contains here (svc_clients (ss_services ?w))) = Inr True"
    using assms(13) by (simp add: clients_contains_known)
  moreover have "\<exists>from_client from_server u d.
      ingress_view (en_ingress (rl_ends r')) = Some (from_client, sk_wBuf s2 @ d) \<and>
      egress_view (en_egress (rl_ends r')) = Some (from_server, sk_wBuf t @ u) \<and>
      prefix u payload \<and> prefix d (sk_content t)" if "(relay_step net)\<^sup>*\<^sup>* ?r r'" for r'
  proof -
    have "ingress_view (I_Socks5_Socket users s2 :: (socket, 'a, 'b) Ingress) = Some (payload, sk_wBuf s2)"
      "egress_view (E_Direct t :: (socket, 'a, 'b) Egress) = Some (sk_content t, sk_wBuf t)"
      using s1(2) by (simp_all add: socket_view_def s2_def sk_content_def)
    from relay_prefixes [OF assms(2) this that] show ?thesis by blast
  qed
  ultimately show ?thesis
    using s1(3) by (intro exI [of _ ?i] exI [of _ ?r] exI [of _ ?w] conjI) (simp_all add: s2_def)
qed

lemma sample_wire: "sample_net = over_wire (\<lambda>_. ioret (Inr ())) sample_net" "nt_ip sample_net = sample_ip"
  "nt_socket sample_net = sample_socket []"
  using sample_relay_views(1) by (simp_all add: over_wire_id sample_net_def)

theorem socks5_direct_session_witness:
  "\<exists>i r w. create_ingress sample_net (svc_sentry sample_services) (empty_ingress SOCKS5 []) sample_client = Inr i \<and>
    session_open sample_net sample_env (empty_ingress SOCKS5 []) (session_new direct_router None sample_services i) = (Inr r, w) \<and>
    fst (clients_contains (V4 [127, 0, 0, 1], 1234) (svc_clients (ss_services w))) = Inr True \<and>
    (\<forall>r'. (relay_step sample_net)\<^sup>*\<^sup>* r r' \<longrightarrow> (\<exists>from_client from_server u d.
      ingress_view (en_ingress (rl_ends r')) =
        Some (from_client, sk_wBuf sample_client @ socks5_answer False @ socks5_success @ d) \<and>
      egress_view (en_egress (rl_ends r')) = Some (from_server, [] @ u) \<and> prefix u [42] \<and> prefix d []))"
proof -
  let ?vo = "empty_ingress SOCKS5 []"
  have vo: "in_type ?vo = SOCKS5" "in_tls ?vo = None" "socks5_ingress_credential ?vo = Inr []"
    by (simp_all add: empty_ingress_def socks5_ingress_credential_def)
  have eb: "endpoint_bytes (nt_ip sample_net) sample_target = Inr [1, 10, 0, 0, 1, 0, 80]"
    unfolding sample_wire(2) by code_simp
  have s: "sk_ok sample_client" "sk_content sample_client = socks5_request [] [1, 10, 0, 0, 1, 0, 80] @ [42]"
    by (simp_all add: sample_client_def sample_socket_def sk_ok_def sk_content_def socks5_request_def auth_method_def)
  have peer: "canonical sample_ip sample_target = sample_target" by code_simp
  have route: "route sample_env direct_router (canonical (nt_ip sample_net) sample_target) (in_name ?vo) (in_type ?vo) None =
      (Inr (''*'', ''out'', empty_egress DIRECT), None)"
    unfolding sample_wire(2) peer by code_simp
  have 1: "ip_laws (nt_ip sample_net)" "credentials_agree [] []" "tc_strand (svc_clients sample_services)"
    using sample_ip_laws by (simp_all add: sample_net_def credentials_agree_def sample_services_def clients_initialize_def)
  have 2: "ioret (Inr ()) (nt_socket sample_net) = (Inr (), sample_socket [])"
    "nt_local sample_net (sample_socket []) = Inr (V4 [127, 0, 0, 1], 1234)" by (simp_all add: sample_net_def)
  from socks5_direct_session [OF 1(1) sample_relay_views(1) vo eb 1(2) s route, of "sample_socket []"] 2 1(3)
  show ?thesis by (simp add: sample_socket_def sk_content_def)
qed

text \<open>
  C31: A replayed Shadowsocks connection is held up and dropped. When the salt of a connection has been
  seen, its session asks neither the resolver nor the router, sends nothing to the client, and ends with the
  error of the reject egress, after the egress has drawn a delay and waited for it; the salt
  stays known.
\<close>

theorem replayed_session_rejected:
  assumes "crypto_laws (nt_crypto net)" and "nt_layer net = wire conn" and "\<not> nt_aborted net"
    and "in_type vo = SS" and "in_opt vo = Some (IO_SS opt)" and "length salt = KEY_SIZE (ss_method opt)"
    and "sk_ok s" and "sk_content s = salt @ rest" and "sy_strand (svc_sentry sv)"
    and "nt_hex net salt \<in> sy_active (svc_sentry sv) \<union> sy_expiring (svc_sentry sv)"
  shows "\<exists>i sh w. create_ingress net (svc_sentry sv) vo s = Inr i \<and>
    session_open net env vo (session_new router p sv i) = (Inl (SystemError (Pichi_code MISC) ''''), w) \<and>
    ss_router w = None \<and> ss_resolver w = p \<and> ss_ingress w = I_SS sh \<and> sk_wBuf (sh_socket sh) = sk_wBuf s \<and>
    nt_hex net salt \<in> sy_active (svc_sentry (ss_services w))"
proof -
  let ?st = "\<lparr>sh_pw = bytes_of (ss_password opt), sh_cache = [], sh_sentry = Some (svc_sentry sv), sh_socket = s,
    sh_enc = \<lparr>en_cryptor = \<lparr>cr_method = ss_method opt, cr_key = Some (subkey (nt_crypto net) (bytes_of (ss_password opt)) (nt_salt net)),
      cr_nonce = replicate (NONCE_SIZE (ss_method opt)) 0\<rparr>, en_salt = nt_salt net\<rparr>, sh_dec = decryptor_new (ss_method opt)\<rparr>"
  have i: "create_ingress net (svc_sentry sv) vo s = Inr (I_SS ?st)"
    using assms(4,5) by (simp add: create_ingress_def create_stream_ingress_def shadow_new_eq [OF assms(1)])
  have accept: "shadow_accept lib hex (wire conn) = shadow_accept lib hex socket_layer" for lib hex
    by (simp add: shadow_accept_def read_salt_def socket_layer_def)
  obtain sh where sh: "shadow_accept (nt_crypto net) (nt_hex net) (nt_layer net) ?st = (Inl (SystemError (Pichi_code BAD_PROTO) ''''), sh)"
      "sh_sentry sh = Some ((svc_sentry sv)\<lparr>sy_active := insert (nt_hex net salt) (sy_active (svc_sentry sv))\<rparr>)"
      "sk_wBuf (sh_socket sh) = sk_wBuf s"
    by (rule shadow_accept_remembers [OF assms(1), of ?st "svc_sentry sv" salt rest "nt_hex net"])
       (use assms(2,6-10) accept in \<open>simp_all add: decryptor_new_def\<close>)
  let ?sv = "sv\<lparr>svc_sentry := (svc_sentry sv)\<lparr>sy_active := insert (nt_hex net salt) (sy_active (svc_sentry sv))\<rparr>\<rparr>"
  let ?w = "\<lparr>ss_router = None, ss_resolver = p, ss_services = ?sv, ss_ingress = I_SS sh\<rparr> :: (socket, 'a, 'b) session"
  have "redirect (on_ingress (ingress_read_remote net)) (session_new router p sv (I_SS ?st)) =
      (Inr (Inl (Pichi_code BAD_PROTO)), ?w\<lparr>ss_router := Some router\<rparr>)"
    using sh(1,2) by (simp add: redirect_def on_ingress_def session_new_def with_services_def with_sentry_def ss_read_remote_def)
  then have "handshake net env vo (session_new router p sv (I_SS ?st)) =
      (Inl (SystemError (Pichi_code MISC) ''Force to reject connection''), ?w)"
    using assms(3,4)
    by (simp add: handshake_def makeErrorCode_def forget_router_def create_egress_def reject_vo_def reject_new_def calc_delay_def
        empty_egress_def connect_egress_def inside_def reject_connect_def fail_misc_def fail_with_def iobind_def)
  then have "session_open net env vo (session_new router p sv (I_SS ?st)) = (Inl (SystemError (Pichi_code MISC) ''''), ?w)"
    by (simp add: session_open_def on_ingress_def inside_def ss_disconnect_def redirect_def iobind_def)
  then show ?thesis using i sh(3) by (intro exI [of _ "I_SS ?st"] exI [of _ sh] exI [of _ ?w]) simp
qed

definition sample_sentry :: sentry where
  "sample_sentry = (sentry_initialize sentry_new)\<lparr>sy_active := {string_of (replicate 16 7)}\<rparr>"

theorem replayed_session_rejected_witness:
  "\<exists>i sh w. create_ingress sample_net (sample_sentry) sample_ss_ingress (sample_socket [replicate 16 7 @ [5]]) = Inr i \<and>
    session_open sample_net sample_env sample_ss_ingress (session_new direct_router None
      (sample_services\<lparr>svc_sentry := sample_sentry\<rparr>) i) = (Inl (SystemError (Pichi_code MISC) ''''), w) \<and>
    ss_router w = None \<and> ss_resolver w = None \<and> ss_ingress w = I_SS sh \<and> sk_wBuf (sh_socket sh) = [] \<and>
    string_of (replicate 16 7) \<in> sy_active (svc_sentry (ss_services w))"
proof -
  let ?sv = "sample_services\<lparr>svc_sentry := sample_sentry\<rparr>"
  have ok: "sk_ok (sample_socket [replicate 16 7 @ [5]])" "sk_content (sample_socket [replicate 16 7 @ [5]]) = replicate 16 7 @ [5]"
    "sk_wBuf (sample_socket [replicate 16 7 @ [5]]) = []"
    by (simp_all add: sample_socket_def sk_ok_def sk_content_def)
  have opt: "in_type sample_ss_ingress = SS" "in_opt sample_ss_ingress = Some (IO_SS sample_ss)"
    "length (replicate 16 (7 :: byte)) = KEY_SIZE (ss_method sample_ss)"
    by (simp_all add: sample_ss_ingress_def sample_ss_def empty_ingress_def)
  have net: "crypto_laws (nt_crypto sample_net)" "\<not> nt_aborted sample_net" "nt_hex sample_net = string_of"
    using sample_crypto_laws by (simp_all add: sample_net_def)
  have sy: "sy_strand (svc_sentry ?sv)"
    "nt_hex sample_net (replicate 16 7) \<in> sy_active (svc_sentry ?sv) \<union> sy_expiring (svc_sentry ?sv)"
    by (simp_all add: sample_sentry_def sentry_initialize_def net(3))
  from replayed_session_rejected [OF net(1) sample_relay_views(1) net(2) opt ok(1,2) sy, where env = sample_env
      and router = direct_router and p = None] ok(3)
  show ?thesis by (simp add: net(3))
qed

text \<open>
  When the server's side ends a session the reason is lost: the client's bridge is cancelled, the group reports
  its exception, \<^verbatim>\<open>operation_aborted\<close>, which the handler of detached coroutines does not log, whatever the
  bridge from the egress has thrown.
\<close>

theorem egress_error_unreported:
  assumes "create_ingress net (svc_sentry sv) vo s = Inr i" and "session_open net env vo (session_new router p sv i) = (Inr r, w)"
    and "(relay_step net)\<^sup>*\<^sup>* r r'" and "rl_down r' = B_done e1" and "\<not> bridge_done (rl_up r')"
  shows "\<exists>sv'. session_start net env vo s (router, p, sv) (aborted, sv') \<and> detached_handler aborted = F_silent"
proof -
  have "relay_step net r' (r'\<lparr>rl_up := B_done aborted\<rparr>)" using assms(4,5) by (intro relay_step.cancel_up) simp_all
  then have "(relay_step net)\<^sup>*\<^sup>* r (r'\<lparr>rl_up := B_done aborted\<rparr>)" by (rule rtranclp.rtrancl_into_rtrancl [OF assms(3)])
  from session_start.relayed [OF assms(1,2) this] assms(4) show ?thesis
    by (auto simp: detached_handler_def)
qed

end
