(* ===== verification/Pichi_Server_Inv.thy ===== *)
theory Pichi_Server_Inv
  imports Pichi_Server
begin

text \<open>
  Invariants of the API server. The states the server can be in are the ones a step relation
  reaches: requests, in any order, and the posted functions in the order they were posted (the
  program runs one thread, \<^verbatim>\<open>io.run()\<close> in \<^verbatim>\<open>server/run.cpp\<close>), interleaved with them in any way.
\<close>

section \<open>Names in targets\<close>

lemma rx_group_mem: "(x, t, k) \<in> set (rx_matches (RGroup n a) s) \<longleftrightarrow>
  (\<exists>k0. k = (n, x) # k0 \<and> (x, t, k0) \<in> set (rx_matches a s))"
  by force

lemma rx_star_class:
  assumes "\<And>s. rx_matches a s = rx_char P s"
  shows "(x, t, k) \<in> set (rx_matches (RStar a) s) \<Longrightarrow> (\<forall>c \<in> set x. P c) \<and> k = []"
proof (induction "length s" arbitrary: s x t k rule: less_induct)
  case less
  consider x1 t1 k1 y l where "(x1, t1, k1) \<in> set (rx_char P s)" "length t1 < length s"
      "(y, t, l) \<in> set (rx_matches (RStar a) t1)" "x = x1 @ y" "k = l @ k1"
    | "x = []" "k = []"
    using rx_star_mem [THEN iffD1, OF less.prems] assms by auto
  then show ?case
  proof cases
    case 1
    then show ?thesis using less.hyps [OF 1(2,3)] rx_char_split [OF 1(1)] by auto
  qed simp
qed

lemma rx_plus_class:
  assumes "(x, t, k) \<in> set (rx_matches (RPlus (RNot cs)) s)"
  shows "x \<noteq> []" and "set x \<inter> set cs = {}" and "k = []"
proof -
  obtain x1 t1 k1 y l where "(x1, t1, k1) \<in> set (rx_char (\<lambda>c. c \<notin> set cs) s)"
      "(y, t, l) \<in> set (rx_matches (RStar (RNot cs)) t1)" "x = x1 @ y" "k = l @ k1"
    using assms unfolding RPlus_def rx_seq_mem by auto
  moreover from this have "(\<forall>c \<in> set y. c \<notin> set cs) \<and> l = []"
    by (intro rx_star_class [where P = "\<lambda>c. c \<notin> set cs"]) auto
  ultimately show "x \<noteq> []" "set x \<inter> set cs = {}" "k = []"
    using rx_char_split by fastforce+
qed

lemma rx_opt_mem: "(x, t, k) \<in> set (rx_matches (ROpt a) s) \<Longrightarrow>
  x = [] \<and> t = s \<and> k = [] \<or> (x, t, k) \<in> set (rx_matches a s)"
  by auto

lemma rest_rx_groups: "(x, t, k) \<in> set (rx_matches rest_rx s) \<Longrightarrow> map_of k 1 = None"
proof -
  assume "(x, t, k) \<in> set (rx_matches rest_rx s)"
  then obtain x1 t1 k1 y l where m: "(x1, t1, k1) \<in> set (rx_matches (ROpt (RLit ''/'')) s)"
      "(y, t, l) \<in> set (rx_matches (ROpt (RGroup 2 (RSeq (ROneOf ''?#'') (RStar RDot)))) t1)"
      "k = l @ k1"
    unfolding rest_rx_def rx_seq_mem by blast
  have "k1 = []" using rx_opt_mem [OF m(1)] by (auto split: if_splits)
  moreover have "map_of l 1 = None"
  proof -
    consider "l = []" | k0 where "l = (2, y) # k0"
        "(y, t, k0) \<in> set (rx_matches (RSeq (ROneOf ''?#'') (RStar RDot)) t1)"
      using rx_opt_mem [OF m(2)] unfolding rx_group_mem by blast
    then show ?thesis
    proof cases
      case 2
      then obtain x2 t2 k2 y2 l2 where "(x2, t2, k2) \<in> set (rx_matches (ROneOf ''?#'') t1)"
          "(y2, t, l2) \<in> set (rx_matches (RStar RDot) t2)" "k0 = l2 @ k2"
        unfolding rx_seq_mem by blast
      then have "k0 = []"
        using rx_star_class [of RDot, OF rx_matches.simps(2)] rx_char_split by fastforce
      then show ?thesis using 2 by simp
    qed simp
  qed
  ultimately show ?thesis using m(3) by simp
qed

lemma name_target:
  assumes "rx_match (RSeq (RLit p) (RSeq (RGroup 1 (RPlus (RNot cs))) rest_rx)) t = Some k"
  shows "group_str k 1 \<noteq> [] \<and> set (group_str k 1) \<inter> set cs = {}"
proof -
  obtain x where "(x, [], k) \<in> set (rx_matches (RSeq (RLit p) (RSeq (RGroup 1 (RPlus (RNot cs))) rest_rx)) t)"
    using rx_match_SomeD [OF assms] by blast
  then obtain x1 t1 k1 y l where m: "(x1, t1, k1) \<in> set (rx_matches (RLit p) t)"
      "(y, [], l) \<in> set (rx_matches (RSeq (RGroup 1 (RPlus (RNot cs))) rest_rx) t1)" "k = l @ k1"
    unfolding rx_seq_mem [of _ _ _ "RLit p"] by blast
  then obtain x2 t2 k2 y2 l2 where m2: "(x2, t2, k2) \<in> set (rx_matches (RGroup 1 (RPlus (RNot cs))) t1)"
      "(y2, [], l2) \<in> set (rx_matches rest_rx t2)" "l = l2 @ k2"
    unfolding rx_seq_mem by blast
  obtain k0 where k2: "k2 = (1, x2) # k0" "(x2, t2, k0) \<in> set (rx_matches (RPlus (RNot cs)) t1)"
    using m2(1) unfolding rx_group_mem by blast
  have "k = l2 @ (1, x2) # k0 @ k1" using m(3) m2(3) k2(1) by simp
  then have "group_str k 1 = x2"
    using rest_rx_groups [OF m2(2)] by (simp add: group_str_def map_add_def)
  then show ?thesis using rx_plus_class [OF k2(2)] by simp
qed

lemmas target_names =
  name_target [of "''/ingresses/''" "''?#/''", folded INGRESS_NAME_REGEX_def]
  name_target [of "''/egresses/''" "''?#''", folded EGRESS_NAME_REGEX_def]
  name_target [of "''/rules/''" "''?#''", folded RULE_NAME_REGEX_def]

text \<open>The other way round: the target made of a prefix and a name has that name.\<close>

lemma name_greedy: "n \<noteq> [] \<Longrightarrow> set n \<inter> set cs = {} \<Longrightarrow> t = [] \<or> hd t \<in> set cs \<Longrightarrow>
  \<exists>ms. rx_matches (RPlus (RNot cs)) (n @ t) = (n, t, []) # ms"
  by (rule rx_plus_greedy [where P = "\<lambda>c. c \<notin> set cs"]) (auto simp: list_all_iff)

lemma rest_rx_nil: "rx_matches rest_rx [] = [([], [], [])]"
  by (simp add: rest_rx_def rx_char_def)

lemma rest_rx_slash: "\<exists>ms. rx_matches rest_rx ''/'' = (''/'', [], []) # ms"
  by (simp add: rest_rx_def rx_char_def)

lemma name_target_match: "n \<noteq> [] \<Longrightarrow> set n \<inter> set cs = {} \<Longrightarrow>
  rx_match (RSeq (RLit p) (RSeq (RGroup 1 (RPlus (RNot cs))) rest_rx)) (p @ n) = Some [(1, n)]"
proof -
  assume n: "n \<noteq> []" "set n \<inter> set cs = {}"
  then obtain ms where "rx_matches (RPlus (RNot cs)) n = (n, [], []) # ms"
    using name_greedy [of n cs "[]"] by auto
  then show ?thesis by (simp add: rx_match_def rest_rx_nil)
qed

lemma name_target_slash: "n \<noteq> [] \<Longrightarrow> set n \<inter> set cs = {} \<Longrightarrow> CHR ''/'' \<in> set cs \<Longrightarrow>
  rx_match (RSeq (RLit p) (RSeq (RGroup 1 (RPlus (RNot cs))) rest_rx)) (p @ n @ ''/'') = Some [(1, n)]"
proof -
  assume n: "n \<noteq> []" "set n \<inter> set cs = {}" "CHR ''/'' \<in> set cs"
  then obtain ms where "rx_matches (RPlus (RNot cs)) (n @ ''/'') = (n, ''/'', []) # ms"
    using name_greedy [of n cs "''/''"] by auto
  moreover obtain ks where "rx_matches rest_rx ''/'' = (''/'', [], []) # ks" using rest_rx_slash by blast
  ultimately show ?thesis by (simp add: rx_match_def)
qed

section \<open>The invariant\<close>

text \<open>What the route names exists.\<close>

definition refs_ok :: "server \<Rightarrow> bool" where
  "refs_ok s \<longleftrightarrow>
     (\<forall>item \<in> set (rt_rules (sv_route s)).
        (\<forall>rn \<in> set (fst item). map_contains (sv_rules s) rn) \<and>
        map_contains (sv_egresses s) (snd item)) \<and>
     (\<forall>d. rt_default (sv_route s) = Some d \<longrightarrow> map_contains (sv_egresses s) d)"

text \<open>Everything in the tables is what a parser accepted, under a name that is not empty.\<close>

definition vos_ok :: "server_env \<Rightarrow> server \<Rightarrow> bool" where
  "vos_ok env s \<longleftrightarrow>
     distinct (map fst (sv_egresses s)) \<and> distinct (map fst (sv_rules s)) \<and>
     distinct (map fst (sv_listeners s)) \<and>
     (\<forall>(n, e) \<in> set (sv_egresses s). n \<noteq> [] \<and> wf_Egress (re_ip (se_router env)) e) \<and>
     (\<forall>(n, r) \<in> set (sv_rules s). n \<noteq> [] \<and> wf_Rule r) \<and>
     (\<forall>(n, l) \<in> set (sv_listeners s). n \<noteq> [] \<and> set n \<inter> set ''?#/'' = {} \<and> in_name (li_vo l) = n \<and>
        wf_Ingress (re_ip (se_router env)) ((li_vo l)\<lparr>in_name := []\<rparr>)) \<and>
     wf_Route (sv_route s)"

text \<open>Addresses of listeners are unique and never used again.\<close>

fun posted_to :: "posted \<Rightarrow> nat set" where
  "posted_to (P_Reroute a r) = {a}"
| "posted_to (P_Listen a) = {a}"
| "posted_to (P_Erase n) = {}"

definition ids_ok :: "server \<Rightarrow> bool" where
  "ids_ok s \<longleftrightarrow> inj_on (\<lambda>x. li_id (snd x)) (set (sv_listeners s)) \<and>
     (\<forall>x \<in> set (sv_listeners s). li_id (snd x) < sv_next s) \<and>
     (\<forall>p \<in> set (sv_posted s). \<forall>a \<in> posted_to p. a < sv_next s)"

text \<open>The router a listener has once everything posted so far has run.\<close>

fun effective :: "posted list \<Rightarrow> nat \<Rightarrow> Router \<Rightarrow> Router" where
  "effective [] a r = r"
| "effective (P_Reroute b r' # ps) a r = effective ps a (if b = a then r' else r)"
| "effective (_ # ps) a r = effective ps a r"

definition routers_ok :: "server \<Rightarrow> bool" where
  "routers_ok s \<longleftrightarrow> (\<forall>x \<in> set (sv_listeners s).
     effective (sv_posted s) (li_id (snd x)) (li_router (snd x)) = sv_router s)"

definition server_ok :: "server_env \<Rightarrow> server \<Rightarrow> bool" where
  "server_ok env s \<longleftrightarrow> refs_ok s \<and> vos_ok env s \<and> ids_ok s \<and> routers_ok s"

lemma effective_append [simp]: "effective (ps @ qs) a r = effective qs a (effective ps a r)"
  by (induction ps a r rule: effective.induct) auto

lemma effective_other: "\<forall>p \<in> set ps. a \<notin> posted_to p \<Longrightarrow> effective ps a r = r"
  by (induction ps a r rule: effective.induct) auto

lemma effective_listens [simp]: "effective (map (\<lambda>x. P_Listen a) xs) b r = r"
  by (induction xs) auto

lemma effective_reroutes: "effective (map (\<lambda>(n, l). P_Reroute (li_id l) r') ls) a r =
  (if \<exists>x \<in> set ls. li_id (snd x) = a then r' else r)"
  by (induction ls arbitrary: r) force+

section \<open>Every request keeps it\<close>

lemma update_router_ok: "server_ok env s \<Longrightarrow> server_ok env (snd (update_router env s))"
  by (auto simp: server_ok_def update_router_def refs_ok_def vos_ok_def ids_ok_def routers_ok_def
      post_def effective_reroutes split: sum.splits)

lemma set_egress_ok: "server_ok env s \<Longrightarrow> n \<noteq> [] \<Longrightarrow> wf_Egress (re_ip (se_router env)) e \<Longrightarrow>
  server_ok env (s\<lparr>sv_egresses := AList.update n e (sv_egresses s)\<rparr>)"
  by (auto simp: server_ok_def refs_ok_def vos_ok_def ids_ok_def routers_ok_def set_AList_update
      distinct_AList)

lemma erase_egress_ok: "server_ok env s \<Longrightarrow> egress_in_use (sv_route s) n = Inr False \<Longrightarrow>
  server_ok env (s\<lparr>sv_egresses := AList.delete n (sv_egresses s)\<rparr>)"
  by (auto simp: server_ok_def refs_ok_def vos_ok_def ids_ok_def routers_ok_def set_AList_delete
      distinct_AList egress_in_use_def result_simps list_ex_iff)

lemma set_rule_ok: "server_ok env s \<Longrightarrow> n \<noteq> [] \<Longrightarrow> wf_Rule r \<Longrightarrow>
  server_ok env (s\<lparr>sv_rules := AList.update n r (sv_rules s)\<rparr>)"
  by (auto simp: server_ok_def refs_ok_def vos_ok_def ids_ok_def routers_ok_def set_AList_update
      distinct_AList)

lemma erase_rule_ok: "server_ok env s \<Longrightarrow> \<not> rule_in_use (sv_route s) n \<Longrightarrow>
  server_ok env (s\<lparr>sv_rules := AList.delete n (sv_rules s)\<rparr>)"
  by (auto simp: server_ok_def refs_ok_def vos_ok_def ids_ok_def routers_ok_def set_AList_delete
      distinct_AList rule_in_use_def list_ex_iff)

lemma set_route_ok: "server_ok env s \<Longrightarrow> wf_Route rt \<Longrightarrow>
  check_route (sv_egresses s) (sv_rules s) rt = Inr () \<Longrightarrow> server_ok env (s\<lparr>sv_route := rt\<rparr>)"
  by (auto simp: server_ok_def refs_ok_def vos_ok_def ids_ok_def routers_ok_def check_route_def
      result_simps list_all_iff)

lemma erase_listener_ok: "server_ok env s \<Longrightarrow>
  server_ok env (s\<lparr>sv_listeners := AList.delete n (sv_listeners s)\<rparr>)"
  by (auto simp: server_ok_def refs_ok_def vos_ok_def ids_ok_def routers_ok_def set_AList_delete
      distinct_AList inj_on_def)

lemma post_erase_ok: "server_ok env s \<Longrightarrow> server_ok env (post [P_Erase n] s)"
  by (auto simp: server_ok_def refs_ok_def vos_ok_def ids_ok_def routers_ok_def post_def)

lemma destroy_listener_ok: "server_ok env s \<Longrightarrow> server_ok env (snd (destroy_listener l s))"
  by (simp add: destroy_listener_def post_erase_ok)

lemma destroy_listener_listeners [simp]:
  "sv_listeners (snd (destroy_listener l s)) = sv_listeners s"
  by (simp add: destroy_listener_def post_def)

lemma make_listener_fields: "make_listener env opened a r vo = Inr l \<Longrightarrow>
  li_id l = a \<and> li_router l = r \<and> li_vo l = vo"
  by (auto simp: make_listener_def result_simps)

lemma inj_on_replace:
  assumes d: "distinct (map fst m)" and inj: "inj_on (\<lambda>x. li_id (snd x)) (set m)"
    and l: "(n, l) \<in> set m" and l': "li_id l' = li_id l"
  shows "inj_on (\<lambda>x. li_id (snd x)) (set (AList.update n l' m))"
proof -
  have "li_id (snd x) \<noteq> li_id l" if "x \<in> set m" "fst x \<noteq> n" for x
    using inj_onD [OF inj, of x "(n, l)"] l that by auto
  then have "li_id l' \<notin> (\<lambda>x. li_id (snd x)) ` {x \<in> set m. fst x \<noteq> n}" unfolding l' by force
  moreover have "inj_on (\<lambda>x. li_id (snd x)) {x \<in> set m. fst x \<noteq> n}"
    by (rule inj_on_subset [OF inj]) auto
  ultimately show ?thesis by (simp add: set_AList_update [OF d])
qed

lemma assign_listener_ok:
  assumes ok: "server_ok env s" and n: "n \<noteq> []" "set n \<inter> set ''?#/'' = {}"
    and l: "li_router l = sv_router s" "in_name (li_vo l) = n"
      "wf_Ingress (re_ip (se_router env)) ((li_vo l)\<lparr>in_name := []\<rparr>)"
    and a: "assign_listener n l s = (l', s')"
  shows "server_ok env s' \<and> li_id l' < sv_next s'"
proof (cases "map_of (sv_listeners s) n")
  case None
  then have fresh: "n \<notin> fst ` set (sv_listeners s)" by (simp add: map_of_eq_None_iff)
  have s': "s' = s\<lparr>sv_listeners := AList.update n l' (sv_listeners s), sv_next := Suc (sv_next s)\<rparr>"
    and l': "l' = l\<lparr>li_id := sv_next s\<rparr>"
    using a None by (auto simp: assign_listener_def Let_def)
  have d: "distinct (map fst (sv_listeners s))" using ok by (simp add: server_ok_def vos_ok_def)
  have "effective (sv_posted s) (sv_next s) r = r" for r
    using ok by (intro effective_other) (auto simp: server_ok_def ids_ok_def)
  then show ?thesis
    using ok n l d unfolding s' l'
    by (auto simp: server_ok_def refs_ok_def vos_ok_def ids_ok_def routers_ok_def set_AList_update
        distinct_AList inj_on_def less_Suc_eq)
next
  case (Some old)
  then have old: "(n, old) \<in> set (sv_listeners s)" by (rule map_of_SomeD)
  have s': "s' = s\<lparr>sv_listeners := AList.update n l' (sv_listeners s)\<rparr>"
    and l': "l' = l\<lparr>li_id := li_id old\<rparr>"
    using a Some by (auto simp: assign_listener_def Let_def)
  have d: "distinct (map fst (sv_listeners s))" using ok by (simp add: server_ok_def vos_ok_def)
  have eff: "effective ps a (effective ps a r) = effective ps a r" for ps a r
  proof -
    have "\<exists>f. (\<forall>r. effective ps a r = f) \<or> (\<forall>r. effective ps a r = r)"
      by (induction ps a r rule: effective.induct) auto
    then show ?thesis by metis
  qed
  have "effective (sv_posted s) (li_id old) (sv_router s) = sv_router s"
    using ok old eff [of "sv_posted s" "li_id old" "li_router old"]
    by (auto simp: server_ok_def routers_ok_def)
  moreover have "li_id old < sv_next s" using ok old by (auto simp: server_ok_def ids_ok_def)
  moreover have "inj_on (\<lambda>x. li_id (snd x)) (set (sv_listeners s'))"
    using ok inj_on_replace [OF d _ old, of l'] by (simp add: s' l' server_ok_def ids_ok_def)
  ultimately show ?thesis
    using ok n l d unfolding s' l'
    by (auto simp: server_ok_def refs_ok_def vos_ok_def ids_ok_def routers_ok_def set_AList_update
        distinct_AList)
qed

lemma post_listen_ok: "server_ok env s \<Longrightarrow> a < sv_next s \<Longrightarrow>
  server_ok env (post (map (\<lambda>_. P_Listen a) xs) s)"
  by (auto simp: server_ok_def refs_ok_def vos_ok_def ids_ok_def routers_ok_def post_def)

lemma put_ingress_ok:
  assumes ok: "server_ok env s" and n: "n \<noteq> []" "set n \<inter> set ''?#/'' = {}"
    and vo: "parse_Ingress (re_ip (se_router env)) v = Inr vo"
  shows "server_ok env (snd (put_ingress env n vo s))"
proof -
  have wf: "wf_Ingress (re_ip (se_router env)) vo" using vo by (rule ingress.parse_wf)
  have nm: "vo\<lparr>in_name := []\<rparr> = vo" using wf by (rule wf_Ingress_name)
  show ?thesis
  proof (cases "make_listener env (opened_by s) 0 (sv_router s) (vo\<lparr>in_name := n\<rparr>)")
    case (Inr l)
    obtain l' s' where a: "assign_listener n l s = (l', s')" by fastforce
    have "server_ok env s' \<and> li_id l' < sv_next s'"
      using make_listener_fields [OF Inr] wf nm by (intro assign_listener_ok [OF ok n _ _ _ a]) auto
    then show ?thesis using Inr a by (simp add: put_ingress_def post_listen_ok)
  qed (simp add: put_ingress_def ok)
qed

lemma parse_text_Inr: "parse_text jt p src = Inr x \<Longrightarrow> \<exists>v. p v = Inr x"
  by (auto simp: parse_text_def fail_with_def split: option.splits)

lemma handle_ingress_ok:
  assumes ok: "server_ok env s" and n: "n \<noteq> []" "set n \<inter> set ''?#/'' = {}"
  shows "server_ok env (snd (handle_ingress env n req s))"
proof (cases "rq_method req")
  case verb_delete
  show ?thesis
  proof (cases "map_of (sv_listeners s) n")
    case (Some l)
    obtain r s1 where d: "destroy_listener l s = (r, s1)" by fastforce
    then have "server_ok env s1" using destroy_listener_ok [OF ok, of l] by simp
    then show ?thesis using Some verb_delete d
      by (cases r) (simp_all add: handle_ingress_def erase_listener_ok)
  qed (simp add: handle_ingress_def verb_delete ok)
next
  case verb_put
  show ?thesis
  proof (cases "parse_text (se_json env) (parse_Ingress (re_ip (se_router env))) (rq_body req)")
    case (Inr vo)
    then obtain v where "parse_Ingress (re_ip (se_router env)) v = Inr vo"
      using parse_text_Inr [OF Inr] by auto
    then show ?thesis using put_ingress_ok [OF ok n] verb_put Inr by (simp add: handle_ingress_def)
  qed (simp add: handle_ingress_def verb_put ok)
qed (simp_all add: handle_ingress_def ok)

lemma iobind_update_ok: "server_ok env s \<Longrightarrow>
  server_ok env (snd (iobind (update_router env) (\<lambda>_. ioret (Inr resp)) s))"
  using update_router_ok [of env s] by (auto simp: iobind_def split: prod.splits sum.splits)

lemma handle_egress_ok:
  assumes ok: "server_ok env s" and n: "n \<noteq> []"
  shows "server_ok env (snd (handle_egress env n req s))"
proof (cases "rq_method req")
  case verb_delete
  show ?thesis
  proof (cases "egress_in_use (sv_route s) n")
    case (Inr used)
    then show ?thesis using verb_delete ok erase_egress_ok [OF ok]
      by (cases used) (auto simp: handle_egress_def fail_with_def)
  qed (simp add: handle_egress_def verb_delete ok)
next
  case verb_put
  show ?thesis
  proof (cases "parse_text (se_json env) (parse_Egress (re_ip (se_router env))) (rq_body req)")
    case (Inr vo)
    then have wf: "wf_Egress (re_ip (se_router env)) vo"
      using parse_text_Inr [OF Inr] egress.parse_wf by auto
    let ?s1 = "s\<lparr>sv_egresses := AList.update n vo (sv_egresses s)\<rparr>"
    have s1: "server_ok env ?s1" using ok n wf by (rule set_egress_ok)
    show ?thesis using verb_put Inr s1
      by (cases "egress_in_use (sv_route s) n") (simp_all add: handle_egress_def iobind_update_ok)
  qed (simp add: handle_egress_def verb_put ok)
qed (simp_all add: handle_egress_def ok)

lemma handle_rule_ok:
  assumes ok: "server_ok env s" and n: "n \<noteq> []"
  shows "server_ok env (snd (handle_rule env n req s))"
proof (cases "rq_method req")
  case verb_delete
  then show ?thesis using ok erase_rule_ok [OF ok]
    by (cases "rule_in_use (sv_route s) n") (auto simp: handle_rule_def fail_with_def)
next
  case verb_put
  show ?thesis
  proof (cases "parse_text (se_json env) parse_Rule (rq_body req)")
    case (Inr vo)
    then have "wf_Rule vo" using parse_text_Inr [OF Inr] rule.parse_wf by auto
    then have "server_ok env (s\<lparr>sv_rules := AList.update n vo (sv_rules s)\<rparr>)"
      by (rule set_rule_ok [OF ok n])
    then show ?thesis using verb_put Inr by (simp add: handle_rule_def iobind_update_ok)
  qed (simp add: handle_rule_def verb_put ok)
qed (simp_all add: handle_rule_def ok)

lemma handle_route_ok:
  assumes ok: "server_ok env s"
  shows "server_ok env (snd (handle_route env req s))"
proof (cases "rq_method req")
  case verb_put
  show ?thesis
  proof (cases "parse_text (se_json env) parse_Route (rq_body req)")
    case (Inr rt)
    then have wf: "wf_Route rt" using parse_text_Inr [OF Inr] parse_Route_wf by auto
    show ?thesis
    proof (cases "check_route (sv_egresses s) (sv_rules s) rt")
      case (Inr u)
      then have "server_ok env (s\<lparr>sv_route := rt\<rparr>)" using set_route_ok [OF ok wf] by simp
      then show ?thesis using verb_put Inr \<open>parse_text _ _ _ = _\<close>
        by (simp add: handle_route_def iobind_update_ok)
    qed (simp add: handle_route_def verb_put ok Inr)
  qed (simp add: handle_route_def verb_put ok)
qed (simp_all add: handle_route_def ok)

lemma handle_lists_same [simp]:
  "snd (handle_ingresses env req s) = s" "snd (handle_egresses env req s) = s"
  "snd (handle_rules env req s) = s"
  by (simp_all add: handle_ingresses_def handle_egresses_def handle_rules_def split: verb.split)

text \<open>Which handler a request reaches.\<close>

lemma handle_elim:
  assumes "P (handle_ingresses env req)" "P (handle_egresses env req)" "P (handle_rules env req)"
    "P (handle_route env req)" "P (ioret (Inr (gen_resp status_not_found)))"
    "\<And>n. n \<noteq> [] \<Longrightarrow> set n \<inter> set ''?#/'' = {} \<Longrightarrow> P (handle_ingress env n req)"
    "\<And>n. n \<noteq> [] \<Longrightarrow> P (handle_egress env n req)" "\<And>n. n \<noteq> [] \<Longrightarrow> P (handle_rule env n req)"
  shows "P (handle env req)"
  using assms target_names by (simp add: handle_def Let_def split: option.splits)

lemma handle_ok: "server_ok env s \<Longrightarrow> server_ok env (snd (handle env req s))"
  by (rule handle_elim [where P = "\<lambda>h. server_ok env (snd (h s))"])
     (simp_all add: handle_ingress_ok handle_egress_ok handle_rule_ok handle_route_ok)

lemma respond_snd: "snd (respond env req s) = snd (handle env req s)"
  by (auto simp: respond_def split: prod.splits sum.splits exn.splits)

section \<open>Posted functions keep it\<close>

lemma find_listener_Some: "find_listener a s = Some (n, l) \<Longrightarrow>
  (n, l) \<in> set (sv_listeners s) \<and> li_id l = a"
  by (auto simp: find_listener_def find_Some_iff in_set_conv_nth)

lemma server_ok_frame:
  assumes ok: "server_ok env s" and ps: "sv_posted s = p # ps"
    and fr: "sv_listeners s' = sv_listeners s" "sv_egresses s' = sv_egresses s"
      "sv_rules s' = sv_rules s" "sv_route s' = sv_route s" "sv_router s' = sv_router s"
      "sv_posted s' = ps" "sv_next s' = sv_next s"
    and p: "\<And>a r. effective (p # ps) a r = effective ps a r"
  shows "server_ok env s'"
  using ok unfolding server_ok_def refs_ok_def vos_ok_def ids_ok_def routers_ok_def ps fr p
  by simp

lemma run_posted_ok:
  assumes ok: "server_ok env s" and ps: "sv_posted s = p # ps"
    and r: "run_posted env p (s\<lparr>sv_posted := ps\<rparr>) = (Inr (), s')"
  shows "server_ok env s'"
proof (cases p)
  case (P_Reroute a r')
  then obtain n l where f: "find_listener a (s\<lparr>sv_posted := ps\<rparr>) = Some (n, l)"
    and s': "s' = s\<lparr>sv_posted := ps, sv_listeners := AList.update n (l\<lparr>li_router := r'\<rparr>) (sv_listeners s)\<rparr>"
    using r by (auto split: option.splits)
  have l: "(n, l) \<in> set (sv_listeners s)" "li_id l = a" using find_listener_Some [OF f] by auto
  have d: "distinct (map fst (sv_listeners s))" using ok by (simp add: server_ok_def vos_ok_def)
  have inj: "inj_on (\<lambda>x. li_id (snd x)) (set (sv_listeners s))"
    using ok by (simp add: server_ok_def ids_ok_def)
  have "ids_ok s'"
    using ok l inj_on_replace [OF d inj l(1), of "l\<lparr>li_router := r'\<rparr>"]
    unfolding s' by (auto simp: server_ok_def ids_ok_def set_AList_update [OF d] ps)
  moreover have "routers_ok s'" unfolding routers_ok_def
  proof
    fix x assume "x \<in> set (sv_listeners s')"
    then consider "x = (n, l\<lparr>li_router := r'\<rparr>)" | "x \<in> set (sv_listeners s)" "fst x \<noteq> n"
      using d by (auto simp: s' set_AList_update)
    then show "effective (sv_posted s') (li_id (snd x)) (li_router (snd x)) = sv_router s'"
    proof cases
      case 1
      then show ?thesis using ok l by (fastforce simp: server_ok_def routers_ok_def ps P_Reroute s')
    next
      case 2
      then have "li_id (snd x) \<noteq> a" using inj l by (auto simp: inj_on_def)
      then show ?thesis using ok 2 by (fastforce simp: server_ok_def routers_ok_def ps P_Reroute s')
    qed
  qed
  moreover have "vos_ok env s'"
    using ok l d unfolding s' by (auto simp: server_ok_def vos_ok_def set_AList_update distinct_AList)
  ultimately show ?thesis using ok by (simp add: server_ok_def refs_ok_def s')
next
  case (P_Listen a)
  then have "sv_listeners s' = sv_listeners s" "sv_egresses s' = sv_egresses s"
    "sv_rules s' = sv_rules s" "sv_route s' = sv_route s" "sv_router s' = sv_router s"
    "sv_posted s' = ps" "sv_next s' = sv_next s"
    using r by (auto simp: Let_def split: option.splits if_splits prod.splits)
  then show ?thesis using P_Listen by (intro server_ok_frame [OF ok ps]) auto
next
  case (P_Erase n)
  then have "s' = s\<lparr>sv_posted := ps, sv_balancers := service_erase n (sv_balancers s)\<rparr>"
    using r by simp
  then show ?thesis using P_Erase by (intro server_ok_frame [OF ok ps]) auto
qed

section \<open>Reachable states\<close>

inductive reachable :: "server_env \<Rightarrow> server \<Rightarrow> bool" for env where
  boot: "server_new env = Inr s \<Longrightarrow> reachable env s"
| request: "reachable env s \<Longrightarrow> respond env req s = (Inr resp, s') \<Longrightarrow> reachable env s'"
| run: "reachable env s \<Longrightarrow> sv_posted s = p # ps \<Longrightarrow>
    run_posted env p (s\<lparr>sv_posted := ps\<rparr>) = (Inr (), s') \<Longrightarrow> reachable env s'"

lemma server_new_ok: "server_new env = Inr s \<Longrightarrow> server_ok env s"
  by (auto simp: server_new_def Let_def result_simps server_ok_def refs_ok_def vos_ok_def ids_ok_def
      routers_ok_def map_contains_def wf_Egress_def empty_egress_def wf_Route_def wf_string_def)

lemma reachable_ok: "reachable env s \<Longrightarrow> server_ok env s"
proof (induction rule: reachable.induct)
  case (request s req resp s')
  then show ?case using handle_ok [of env s req] respond_snd [of env req s] by simp
qed (auto intro: server_new_ok run_posted_ok)

section \<open>The router follows the tables\<close>

definition synced :: "server_env \<Rightarrow> server \<Rightarrow> bool" where
  "synced env s \<longleftrightarrow>
     make_router (se_router env) (sv_egresses s) (sv_rules s) (sv_route s) = Inr (sv_router s)"

lemma unused_egress: "egress_in_use rt n = Inr False \<Longrightarrow>
  make_router env (AList.update n e egresses) rules rt = make_router env egresses rules rt \<and>
  make_router env (AList.delete n egresses) rules rt = make_router env egresses rules rt"
  by (intro conjI make_router_cong)
     (auto simp: egress_in_use_def result_simps list_ex_iff AList.update_conv' AList.delete_conv')

lemma unused_rule: "\<not> rule_in_use rt n \<Longrightarrow>
  make_router env egresses (AList.update n r rules) rt = make_router env egresses rules rt \<and>
  make_router env egresses (AList.delete n rules) rt = make_router env egresses rules rt"
  by (intro conjI make_router_cong)
     (auto simp: rule_in_use_def list_ex_iff AList.update_conv' AList.delete_conv')

lemma update_router_synced: "update_router env s = (Inr u, s') \<Longrightarrow> synced env s'"
  by (auto simp: update_router_def synced_def post_def split: sum.splits)

lemma update_router_Inl: "update_router env s = (Inl e, s') \<Longrightarrow> s' = s"
  by (auto simp: update_router_def split: sum.splits)

lemma assign_listener_synced: "assign_listener n l s = (l', s') \<Longrightarrow> synced env s' = synced env s"
  by (auto simp: assign_listener_def synced_def Let_def split: option.splits)

lemma post_synced [simp]: "synced env (post ps s) = synced env s"
  "synced env (s\<lparr>sv_listeners := ls\<rparr>) = synced env s"
  by (simp_all add: synced_def post_def)

lemma handle_ingress_synced: "synced env s \<Longrightarrow> synced env (snd (handle_ingress env n req s))"
  using assign_listener_synced [of n _ s _ _ env]
  by (auto simp: handle_ingress_def put_ingress_def destroy_listener_def iobind_def
      split: verb.splits option.splits sum.splits prod.splits)

lemma handle_egress_synced:
  assumes s: "synced env s" and h: "handle_egress env n req s = (Inr resp, s')"
  shows "synced env s'"
proof (cases "rq_method req")
  case verb_delete
  then show ?thesis using s h unused_egress [of "sv_route s" n]
    by (auto simp: handle_egress_def result_simps synced_def)
next
  case verb_put
  then obtain vo used where "egress_in_use (sv_route s) n = Inr used"
    "iobind (if used then update_router env else ioret (Inr ()))
       (\<lambda>_. ioret (Inr (gen_resp status_no_content)))
       (s\<lparr>sv_egresses := AList.update n vo (sv_egresses s)\<rparr>) = (Inr resp, s')"
    using h by (auto simp: handle_egress_def result_simps Let_def)
  then show ?thesis using s unused_egress [of "sv_route s" n]
    by (cases used) (auto simp: result_simps synced_def dest!: update_router_synced)
qed (use s h in \<open>simp_all add: handle_egress_def\<close>)

lemma handle_rule_synced:
  assumes s: "synced env s" and h: "handle_rule env n req s = (Inr resp, s')"
  shows "synced env s'"
proof (cases "rq_method req")
  case verb_delete
  then show ?thesis using s h unused_rule [of "sv_route s" n]
    by (auto simp: handle_rule_def result_simps synced_def)
next
  case verb_put
  then obtain vo where
    "iobind (if rule_in_use (sv_route s) n then update_router env else ioret (Inr ()))
       (\<lambda>_. ioret (Inr (gen_resp status_no_content)))
       (s\<lparr>sv_rules := AList.update n vo (sv_rules s)\<rparr>) = (Inr resp, s')"
    using h by (auto simp: handle_rule_def result_simps Let_def)
  then show ?thesis using s unused_rule [of "sv_route s" n]
    by (cases "rule_in_use (sv_route s) n")
       (auto simp: result_simps synced_def dest!: update_router_synced)
qed (use s h in \<open>simp_all add: handle_rule_def\<close>)

lemma handle_route_synced:
  "synced env s \<Longrightarrow> handle_route env req s = (Inr resp, s') \<Longrightarrow> synced env s'"
  by (auto simp: handle_route_def result_simps split: verb.splits dest!: update_router_synced)

lemma handle_synced: "synced env s \<Longrightarrow> handle env req s = (Inr resp, s') \<Longrightarrow> synced env s'"
proof -
  assume s: "synced env s"
  have same: "h s = (Inr resp, s') \<longrightarrow> synced env s'" if "snd (h s) = s" for h
    using that s by auto
  have "handle env req s = (Inr resp, s') \<longrightarrow> synced env s'"
  proof (rule handle_elim [where P = "\<lambda>h. h s = (Inr resp, s') \<longrightarrow> synced env s'"])
    show "handle_ingress env n req s = (Inr resp, s') \<longrightarrow> synced env s'" for n
      using handle_ingress_synced [OF s, of n req] by auto
    show "handle_egress env n req s = (Inr resp, s') \<longrightarrow> synced env s'" for n
      using handle_egress_synced [OF s] by blast
    show "handle_rule env n req s = (Inr resp, s') \<longrightarrow> synced env s'" for n
      using handle_rule_synced [OF s] by blast
    show "handle_route env req s = (Inr resp, s') \<longrightarrow> synced env s'"
      using handle_route_synced [OF s] by blast
  qed (rule same, simp)+
  then show "handle env req s = (Inr resp, s') \<Longrightarrow> synced env s'" by blast
qed

lemma server_new_synced: "server_new env = Inr s \<Longrightarrow> synced env s"
  by (auto simp: server_new_def Let_def result_simps synced_def)

lemma server_new_total: "\<exists>s. server_new env = Inr s"
  by (simp add: server_new_def make_router_def parse_route_def map_at_def)

lemma run_posted_synced: "run_posted env p s = (r, s') \<Longrightarrow> synced env s' = synced env s"
  by (cases p) (auto simp: synced_def Let_def split: option.splits if_splits prod.splits)

section \<open>Listings\<close>

lemma to_json_total:
  assumes "\<And>n x. (n, x) \<in> set m \<Longrightarrow> n \<noteq> [] \<and> (\<exists>j. f x = Inr j)"
  shows "\<exists>js. to_json f m = Inr (JObject (zip (map fst m) js)) \<and> mapM f (map snd m) = Inr js"
  using assms
proof (induction m)
  case (Cons p m)
  obtain n x where p: "p = (n, x)" by fastforce
  obtain js where js: "to_json f m = Inr (JObject (zip (map fst m) js))" "mapM f (map snd m) = Inr js"
    using Cons by auto
  obtain j where j: "n \<noteq> []" "f x = Inr j" using Cons.prems [of n x] p by auto
  have "to_json f (p # m) = Inr (JObject (zip (map fst (p # m)) (j # js)))"
    using js(1) j by (auto simp: to_json_def p result_simps)
  then show ?case using js(2) j p by (intro exI [of _ "j # js"]) simp
qed (simp add: to_json_def)

end
