(* ===== verification/Pichi_Api.thy ===== *)
theory Pichi_Api
  imports Pichi_Server_Inv
begin

text \<open>
  What the API of the server guarantees, request by request, on top of the invariants: the handler a
  target reaches, listings, deletions, and what happens when a new router cannot be built.
\<close>

section \<open>Which handler a target reaches\<close>

lemma rx_lit_mismatch: "take (length l) t \<noteq> l \<Longrightarrow> rx_match (RSeq (RLit l) r) t = None"
  by (simp add: rx_match_def)

lemma list_rest_name: "n \<noteq> [] \<Longrightarrow> set n \<inter> set ''?#'' = {} \<Longrightarrow>
  rx_match (RSeq (RLit l) list_rest_rx) (l @ CHR ''/'' # n) = None"
  by (cases n) (auto simp: rx_match_def list_rest_rx_def rx_char_def)

lemma targets_differ:
  "rx_match INGRESS_REGEX (''/egresses'' @ t) = None"
  "rx_match INGRESS_NAME_REGEX (''/egresses'' @ t) = None"
  "rx_match INGRESS_REGEX (''/rules'' @ t) = None"
  "rx_match INGRESS_NAME_REGEX (''/rules'' @ t) = None"
  "rx_match EGRESS_REGEX (''/rules'' @ t) = None"
  "rx_match EGRESS_NAME_REGEX (''/rules'' @ t) = None"
  unfolding INGRESS_REGEX_def INGRESS_NAME_REGEX_def EGRESS_REGEX_def EGRESS_NAME_REGEX_def
  by (rule rx_lit_mismatch, simp)+

lemma handle_egress_target:
  assumes "rq_target req = ''/egresses/'' @ n" and "n \<noteq> []" and "set n \<inter> set ''?#'' = {}"
  shows "handle env req = handle_egress env n req"
proof -
  have "rx_match EGRESS_REGEX (''/egresses/'' @ n) = None"
    using list_rest_name [OF assms(2,3), of "''/egresses''"] by (simp add: EGRESS_REGEX_def)
  moreover have "rx_match EGRESS_NAME_REGEX (''/egresses/'' @ n) = Some [(1, n)]"
    unfolding EGRESS_NAME_REGEX_def by (rule name_target_match [OF assms(2,3)])
  ultimately show ?thesis
    using targets_differ(1,2) [of "CHR ''/'' # n"] assms(1) by (simp add: handle_def group_str_def)
qed

lemma handle_rule_target:
  assumes "rq_target req = ''/rules/'' @ n" and "n \<noteq> []" and "set n \<inter> set ''?#'' = {}"
  shows "handle env req = handle_rule env n req"
proof -
  have "rx_match RULE_REGEX (''/rules/'' @ n) = None"
    using list_rest_name [OF assms(2,3), of "''/rules''"] by (simp add: RULE_REGEX_def)
  moreover have "rx_match RULE_NAME_REGEX (''/rules/'' @ n) = Some [(1, n)]"
    unfolding RULE_NAME_REGEX_def by (rule name_target_match [OF assms(2,3)])
  ultimately show ?thesis
    using targets_differ(3-6) [of "CHR ''/'' # n"] assms(1) by (simp add: handle_def group_str_def)
qed

lemma handle_ingress_target:
  assumes "rq_target req = ''/ingresses/'' @ n" and "n \<noteq> []" and "set n \<inter> set ''?#/'' = {}"
  shows "handle env req = handle_ingress env n req"
proof -
  have "rx_match INGRESS_REGEX (''/ingresses/'' @ n) = None"
    using list_rest_name [OF assms(2), of "''/ingresses''"] assms(3) by (simp add: INGRESS_REGEX_def)
  moreover have "rx_match INGRESS_NAME_REGEX (''/ingresses/'' @ n) = Some [(1, n)]"
    unfolding INGRESS_NAME_REGEX_def by (rule name_target_match [OF assms(2,3)])
  ultimately show ?thesis using assms(1) by (simp add: handle_def group_str_def)
qed

lemma handle_ingress_slash:
  assumes "rq_target req = ''/ingresses/'' @ n @ ''/''" and "n \<noteq> []" and "set n \<inter> set ''?#/'' = {}"
  shows "handle env req = handle_ingress env n req"
proof -
  have "rx_match INGRESS_REGEX (''/ingresses/'' @ n @ ''/'') = None"
    using list_rest_name [of "n @ ''/''" "''/ingresses''"] assms(3) by (simp add: INGRESS_REGEX_def)
  moreover have "rx_match INGRESS_NAME_REGEX (''/ingresses/'' @ n @ ''/'') = Some [(1, n)]"
    unfolding INGRESS_NAME_REGEX_def by (rule name_target_slash [OF assms(2,3)]) simp
  ultimately show ?thesis using assms(1) by (simp add: handle_def group_str_def)
qed

lemma fixed_targets:
  "rx_match INGRESS_REGEX ''/ingresses'' \<noteq> None" "rx_match EGRESS_REGEX ''/egresses'' \<noteq> None"
  "rx_match RULE_REGEX ''/rules'' \<noteq> None" "rx_match ROUTE_REGEX ''/route'' \<noteq> None"
  "rx_match INGRESS_REGEX ''/egresses'' = None" "rx_match INGRESS_NAME_REGEX ''/egresses'' = None"
  "rx_match INGRESS_REGEX ''/rules'' = None" "rx_match INGRESS_NAME_REGEX ''/rules'' = None"
  "rx_match EGRESS_REGEX ''/rules'' = None" "rx_match EGRESS_NAME_REGEX ''/rules'' = None"
  "rx_match INGRESS_REGEX ''/route'' = None" "rx_match INGRESS_NAME_REGEX ''/route'' = None"
  "rx_match EGRESS_REGEX ''/route'' = None" "rx_match EGRESS_NAME_REGEX ''/route'' = None"
  "rx_match RULE_REGEX ''/route'' = None" "rx_match RULE_NAME_REGEX ''/route'' = None"
  by code_simp+

lemma handle_fixed_target:
  "rq_target req = ''/ingresses'' \<Longrightarrow> handle env req = handle_ingresses env req"
  "rq_target req = ''/egresses'' \<Longrightarrow> handle env req = handle_egresses env req"
  "rq_target req = ''/rules'' \<Longrightarrow> handle env req = handle_rules env req"
  "rq_target req = ''/route'' \<Longrightarrow> handle env req = handle_route env req"
  using fixed_targets by (simp_all add: handle_def)

lemma respond_Inr: "handle env req s = (Inr resp, s') \<Longrightarrow> respond env req s = (Inr resp, s')"
  by (simp add: respond_def)

lemma respond_fail: "handle env req s = (fail_with e msg, s') \<Longrightarrow>
  respond env req s = (Inr (gen_resp_error env (Pichi_code e)), s')"
  by (simp add: respond_def fail_with_def makeErrorCode_def)

section \<open>A server to evaluate\<close>

definition sample_docs :: "(string \<times> json) list" where
  "sample_docs =
     [(''no-default'', JObject [(route_RULES, JArray [])]),
      (''r-no-default'', JObject [(route_RULES, JArray [JArray [JString ''r'', JString ''direct'']])]),
      (''use-r'', JObject [(route_DEFAULT, JString ''direct''),
                           (route_RULES, JArray [JArray [JString ''r'', JString ''direct'']])]),
      (''good-rule'', JObject [(rule_DOMAIN_NAME, JArray [JString ''example.com''])]),
      (''bad-range'', JObject [(rule_RANGE, JArray [JString ''nonsense''])]),
      (''bad-pattern'', JObject [(rule_PATTERN, JArray [JString ''('' ])]),
      (''socks'', JObject [(ingress_TYPE, JString ''socks5''),
         (ingress_BIND, JArray [JObject [(endpoint_HOST, JString ''127.0.0.1''), (endpoint_PORT, JInt 1080)]])])]"

definition sample_server_env :: server_env where
  "sample_server_env = \<lparr>se_router = sample_env,
     se_json = \<lparr>jt_parse = map_of sample_docs, jt_write = (\<lambda>_. ''{}'')\<rparr>,
     se_open = (\<lambda>opened e. if e \<in> set opened then Some (Asio_code asio_address_in_use) else None),
     se_message = (\<lambda>_. ''error''), se_draw = (\<lambda>_ _. 0)\<rparr>"

definition sample_request :: "verb \<Rightarrow> string \<Rightarrow> string \<Rightarrow> Request" where
  "sample_request v t b = \<lparr>rq_method = v, rq_target = t, rq_body = b\<rparr>"

definition sample_boot :: server where
  "sample_boot = projr (server_new sample_server_env)"

lemma sample_boot_new: "server_new sample_server_env = Inr sample_boot"
  using server_new_total [of sample_server_env] by (auto simp: sample_boot_def)

text \<open>The state after a list of requests, with their answers.\<close>

fun respond_all :: "server_env \<Rightarrow> Request list \<Rightarrow> (server, Response list) io" where
  "respond_all env [] = ioret (Inr [])"
| "respond_all env (r # rs) =
     iobind (respond env r) (\<lambda>a. iobind (respond_all env rs) (\<lambda>as. ioret (Inr (a # as))))"

lemma respond_all_reachable:
  "reachable env s \<Longrightarrow> respond_all env rs s = (Inr as, s') \<Longrightarrow> reachable env s'"
proof (induction rs arbitrary: s as)
  case (Cons r rs)
  then obtain a s1 bs where "respond env r s = (Inr a, s1)" "respond_all env rs s1 = (Inr bs, s')"
    by (auto simp: result_simps)
  then show ?case using Cons.IH reachable.request [OF Cons.prems(1)] by blast
qed simp

definition sample_after :: "Request list \<Rightarrow> server" where
  "sample_after rs = snd (respond_all sample_server_env rs sample_boot)"

lemma sample_after_reachable:
  assumes "case fst (respond_all sample_server_env rs sample_boot) of Inl _ \<Rightarrow> False | Inr _ \<Rightarrow> True"
  shows "reachable sample_server_env (sample_after rs)"
proof -
  obtain as where "respond_all sample_server_env rs sample_boot = (Inr as, sample_after rs)"
    using assms by (auto simp: sample_after_def prod_eq_iff split: sum.splits)
  then show ?thesis using respond_all_reachable [OF reachable.boot [OF sample_boot_new]] by blast
qed

abbreviation put_good_rule :: Request where "put_good_rule \<equiv> sample_request verb_put ''/rules/r'' ''good-rule''"
abbreviation put_use_r :: Request where "put_use_r \<equiv> sample_request verb_put ''/route'' ''use-r''"
abbreviation put_socks :: Request where "put_socks \<equiv> sample_request verb_put ''/ingresses/i'' ''socks''"

section \<open>Listings\<close>

lemma to_json_codec:
  assumes "\<forall>(n, x) \<in> set m. n \<noteq> [] \<and> (\<exists>j. f x = Inr j \<and> p j = Inr (g x))"
  shows "\<exists>js. to_json f m = Inr (JObject (zip (map fst m) js)) \<and> mapM p js = Inr (map (\<lambda>x. g (snd x)) m)"
proof -
  have "\<exists>js. to_json f m = Inr (JObject (zip (map fst m) js)) \<and> mapM f (map snd m) = Inr js"
    by (rule to_json_total) (use assms in auto)
  then obtain js where js: "to_json f m = Inr (JObject (zip (map fst m) js))" "mapM f (map snd m) = Inr js"
    by blast
  have "mapM f (map snd m) = Inr js \<Longrightarrow> mapM p js = Inr (map (\<lambda>x. g (snd x)) m)"
    using assms by (induction m arbitrary: js) (fastforce simp: result_simps)+
  then show ?thesis using js by blast
qed

lemma toJson_Ingress_name: "toJson_Ingress (vo\<lparr>in_name := n\<rparr>) = toJson_Ingress vo"
  by (cases "in_type vo") (simp_all add: toJson_Ingress_def)

lemma listed_egresses:
  assumes "vos_ok env s"
  shows "\<exists>js. to_json toJson_Egress (sv_egresses s) = Inr (JObject (zip (map fst (sv_egresses s)) js)) \<and>
    mapM (parse_Egress (re_ip (se_router env))) js = Inr (map (\<lambda>x. snd x) (sv_egresses s))"
  by (rule to_json_codec [where g = "\<lambda>x. x"])
     (use assms egress.toJson_parse in \<open>force simp: vos_ok_def\<close>)

lemma listed_rules:
  assumes "vos_ok env s"
  shows "\<exists>js. to_json (\<lambda>r. Inr (toJson_Rule r)) (sv_rules s) =
      Inr (JObject (zip (map fst (sv_rules s)) js)) \<and>
    mapM parse_Rule js = Inr (map (\<lambda>x. snd x) (sv_rules s))"
  by (rule to_json_codec [where g = "\<lambda>x. x"])
     (use assms rule.toJson_parse in \<open>force simp: vos_ok_def\<close>)

lemma listed_ingresses:
  assumes "vos_ok env s"
  shows "\<exists>js. to_json (\<lambda>l. toJson_Ingress (li_vo l)) (sv_listeners s) =
      Inr (JObject (zip (map fst (sv_listeners s)) js)) \<and>
    mapM (parse_Ingress (re_ip (se_router env))) js =
      Inr (map (\<lambda>x. (li_vo (snd x))\<lparr>in_name := []\<rparr>) (sv_listeners s))"
proof (rule to_json_codec)
  have "\<exists>j. toJson_Ingress (li_vo l) = Inr j \<and>
      parse_Ingress (re_ip (se_router env)) j = Inr ((li_vo l)\<lparr>in_name := []\<rparr>)"
    if "(n, l) \<in> set (sv_listeners s)" for n l
    using assms that ingress.toJson_parse [of "re_ip (se_router env)" "(li_vo l)\<lparr>in_name := []\<rparr>"]
    by (auto simp: vos_ok_def toJson_Ingress_name)
  then show "\<forall>(n, l) \<in> set (sv_listeners s). n \<noteq> [] \<and> (\<exists>j. toJson_Ingress (li_vo l) = Inr j \<and>
      parse_Ingress (re_ip (se_router env)) j = Inr ((li_vo l)\<lparr>in_name := []\<rparr>))"
    using assms by (auto simp: vos_ok_def)
qed

text \<open>
  GET on a collection always succeeds, changes nothing, and lists every entry under its name in a
  form that parses back to what the server holds. An ingress is printed without its internal name.
\<close>

theorem tables_listed:
  assumes "reachable env s" and "rq_method req = verb_get"
  shows "(rq_target req = ''/egresses'' \<longrightarrow>
      (\<exists>js. handle env req s =
          (Inr (gen_resp_body env status_ok (JObject (zip (map fst (sv_egresses s)) js))), s) \<and>
        mapM (parse_Egress (re_ip (se_router env))) js = Inr (map snd (sv_egresses s)))) \<and>
    (rq_target req = ''/rules'' \<longrightarrow>
      (\<exists>js. handle env req s =
          (Inr (gen_resp_body env status_ok (JObject (zip (map fst (sv_rules s)) js))), s) \<and>
        mapM parse_Rule js = Inr (map snd (sv_rules s)))) \<and>
    (rq_target req = ''/ingresses'' \<longrightarrow>
      (\<exists>js. handle env req s =
          (Inr (gen_resp_body env status_ok (JObject (zip (map fst (sv_listeners s)) js))), s) \<and>
        mapM (parse_Ingress (re_ip (se_router env))) js =
          Inr (map (\<lambda>x. (li_vo (snd x))\<lparr>in_name := []\<rparr>) (sv_listeners s))))"
proof -
  have ok: "vos_ok env s" using reachable_ok [OF assms(1)] by (simp add: server_ok_def)
  show ?thesis
    using listed_egresses [OF ok] listed_rules [OF ok] listed_ingresses [OF ok] assms(2)
    by (auto simp: handle_fixed_target handle_egresses_def handle_rules_def handle_ingresses_def)
qed

theorem tables_listed_witness:
  "let s = sample_after [put_good_rule, put_socks]; req = sample_request verb_get ''/rules'' [] in
     map fst (sv_rules s) = [''r''] \<and>
     (\<exists>js. handle sample_server_env req s =
          (Inr (gen_resp_body sample_server_env status_ok (JObject (zip (map fst (sv_rules s)) js))), s) \<and>
        mapM parse_Rule js = Inr (map snd (sv_rules s)))"
proof -
  let ?s = "sample_after [put_good_rule, put_socks]"
  have "reachable sample_server_env ?s" by (rule sample_after_reachable) code_simp
  moreover have "map fst (sv_rules ?s) = [''r'']" by code_simp
  ultimately show ?thesis
    using tables_listed [of sample_server_env ?s "sample_request verb_get ''/rules'' []"]
    by (simp add: sample_request_def)
qed

section \<open>Sequences of events\<close>

text \<open>
  The server's life as a sequence of events: a request, or the first posted function runs. A
  sequence is accepted when no event of it ends in an exception.
\<close>

datatype event = E_Request Request | E_Run

fun server_step :: "server_env \<Rightarrow> event \<Rightarrow> (server, unit) io" where
  "server_step env (E_Request req) = iobind (handle env req) (\<lambda>_. ioret (Inr ()))"
| "server_step env E_Run =
     (\<lambda>s. case sv_posted s of
        [] \<Rightarrow> (Inr (), s)
      | p # ps \<Rightarrow> run_posted env p (s\<lparr>sv_posted := ps\<rparr>))"

fun server_steps :: "server_env \<Rightarrow> event list \<Rightarrow> (server, unit) io" where
  "server_steps env [] = ioret (Inr ())"
| "server_steps env (e # es) = iobind (server_step env e) (\<lambda>_. server_steps env es)"

lemma server_step_reachable:
  "reachable env s \<Longrightarrow> server_step env e s = (Inr (), s') \<Longrightarrow> reachable env s'"
  by (cases e) (auto simp: result_simps split: list.splits intro: reachable.run
      dest!: respond_Inr intro: reachable.request)

lemma server_step_synced: "synced env s \<Longrightarrow> server_step env e s = (Inr (), s') \<Longrightarrow> synced env s'"
proof (cases e)
  case E_Run
  assume "synced env s" "server_step env e s = (Inr (), s')"
  moreover have "synced env (s\<lparr>sv_posted := ps\<rparr>) = synced env s" for ps by (simp add: synced_def)
  ultimately show ?thesis using E_Run run_posted_synced
    by (auto split: list.splits)
qed (auto simp: result_simps dest: handle_synced)

lemma server_steps_keep:
  "server_steps env es s = (Inr (), s') \<Longrightarrow> reachable env s \<Longrightarrow> synced env s \<Longrightarrow>
    reachable env s' \<and> synced env s'"
proof (induction es arbitrary: s)
  case (Cons e es)
  then obtain s1 where "server_step env e s = (Inr (), s1)" "server_steps env es s1 = (Inr (), s')"
    by (auto simp: result_simps)
  then show ?case using Cons server_step_reachable server_step_synced by blast
qed simp

lemma boot_keeps: "server_new env = Inr s0 \<Longrightarrow> server_steps env es s0 = (Inr (), s) \<Longrightarrow>
  reachable env s \<and> synced env s"
  using server_steps_keep reachable.boot server_new_synced by blast

lemma boot_default:
  assumes "server_new env = Inr s0" and "server_steps env es s0 = (Inr (), s)"
  shows "rt_default (sv_route s) \<noteq> None"
  using boot_keeps [OF assms] make_router_ok [of "se_router env" "sv_egresses s" "sv_rules s" "sv_route s"]
  by (auto simp: synced_def split: option.splits)

section \<open>Properties\<close>

text \<open>
  C2: Whatever requests arrive, accepted or refused, in whatever order and interleaved with posted work
  in whatever way, every rule and every egress that the current route names exists, and the default, if
  one is set, exists. As long as every request was accepted a default is set; a refused request may
  leave a route without one (\<open>refused_route_without_default\<close> below).
\<close>

theorem route_references_exist:
  assumes "reachable env s"
  shows "(\<forall>item \<in> set (rt_rules (sv_route s)).
      (\<forall>rn \<in> set (fst item). map_contains (sv_rules s) rn) \<and> map_contains (sv_egresses s) (snd item)) \<and>
    (\<forall>d. rt_default (sv_route s) = Some d \<longrightarrow> map_contains (sv_egresses s) d) \<and>
    (\<forall>s0 es. server_new env = Inr s0 \<longrightarrow> server_steps env es s0 = (Inr (), s) \<longrightarrow>
      (\<exists>d. rt_default (sv_route s) = Some d \<and> map_contains (sv_egresses s) d))"
  using reachable_ok [OF assms] boot_default by (fastforce simp: server_ok_def refs_ok_def)

theorem route_references_exist_witness:
  "let s = snd (server_steps sample_server_env [E_Request put_good_rule, E_Request put_use_r] sample_boot) in
    (\<forall>item \<in> set (rt_rules (sv_route s)).
      (\<forall>rn \<in> set (fst item). map_contains (sv_rules s) rn) \<and> map_contains (sv_egresses s) (snd item)) \<and>
    (\<exists>d. rt_default (sv_route s) = Some d \<and> map_contains (sv_egresses s) d)"
proof -
  let ?es = "[E_Request put_good_rule, E_Request put_use_r]"
  let ?s = "snd (server_steps sample_server_env ?es sample_boot)"
  have "fst (server_steps sample_server_env ?es sample_boot) = Inr ()" by code_simp
  then have run: "server_steps sample_server_env ?es sample_boot = (Inr (), ?s)" by (simp add: prod_eq_iff)
  then have "reachable sample_server_env ?s" using boot_keeps [OF sample_boot_new] by blast
  from route_references_exist [OF this] run sample_boot_new show ?thesis by (simp only: Let_def) blast
qed

text \<open>
  The default is lost by a refused request: a rule with a range that is no network is stored while the
  route does not use it, and the PUT of a route that names it and has no default is then answered with
  422 after the route has been stored.
\<close>

lemma refused_route_without_default:
  "let put_rule = sample_request verb_put ''/rules/r'' ''bad-range'';
       put_route = sample_request verb_put ''/route'' ''r-no-default'';
       s = sample_after [put_rule, put_route] in
   reachable sample_server_env s \<and> rt_default (sv_route s) = None \<and>
   (\<exists>as. respond_all sample_server_env [put_rule, put_route] sample_boot = (Inr as, s) \<and>
     map rp_status as = [status_no_content, status_unprocessable_entity])"
proof -
  let ?rs = "[sample_request verb_put ''/rules/r'' ''bad-range'', sample_request verb_put ''/route'' ''r-no-default'']"
  have "reachable sample_server_env (sample_after ?rs)" by (rule sample_after_reachable) code_simp
  moreover have "rt_default (sv_route (sample_after ?rs)) = None" by code_simp
  moreover have "case fst (respond_all sample_server_env ?rs sample_boot) of
      Inl _ \<Rightarrow> False | Inr as \<Rightarrow> map rp_status as = [status_no_content, status_unprocessable_entity]" by code_simp
  then have "\<exists>as. respond_all sample_server_env ?rs sample_boot = (Inr as, sample_after ?rs) \<and>
      map rp_status as = [status_no_content, status_unprocessable_entity]"
    by (cases "fst (respond_all sample_server_env ?rs sample_boot)") (simp_all add: sample_after_def prod_eq_iff)
  ultimately show ?thesis by (simp only: Let_def simp_thms)
qed

text \<open>
  C18: After any sequence of requests that were all accepted, with posted functions run in between or
  not, the router of the server is the one that the current egresses, rules and route define, although
  the handlers rebuild it only when they believe that the changed entry is in use.
\<close>

theorem router_follows_tables:
  assumes "server_new env = Inr s0" and "server_steps env es s0 = (Inr (), s)"
  shows "make_router (se_router env) (sv_egresses s) (sv_rules s) (sv_route s) = Inr (sv_router s)"
  using boot_keeps [OF assms] by (simp add: synced_def)

theorem router_follows_tables_witness:
  "let s = snd (server_steps sample_server_env [E_Request put_good_rule, E_Request put_socks,
                  E_Request put_use_r, E_Run] sample_boot) in
    length (ro_matchers (sv_router s)) = 1 \<and>
    make_router (se_router sample_server_env) (sv_egresses s) (sv_rules s) (sv_route s) = Inr (sv_router s)"
proof -
  let ?es = "[E_Request put_good_rule, E_Request put_socks, E_Request put_use_r, E_Run]"
  let ?s = "snd (server_steps sample_server_env ?es sample_boot)"
  have "fst (server_steps sample_server_env ?es sample_boot) = Inr ()" by code_simp
  then have "server_steps sample_server_env ?es sample_boot = (Inr (), ?s)" by (simp add: prod_eq_iff)
  moreover have "length (ro_matchers (sv_router ?s)) = 1" by code_simp
  ultimately show ?thesis using router_follows_tables [OF sample_boot_new] by (simp only: Let_def)
qed

text \<open>
  C19: Once everything posted has run, every listener routes its sessions with the router that the
  current tables define, whatever happened between the requests and the posted updates.
\<close>

theorem listeners_converge:
  assumes "server_new env = Inr s0" and "server_steps env es s0 = (Inr (), s)" and "sv_posted s = []"
    and "(name, l) \<in> set (sv_listeners s)"
  shows "make_router (se_router env) (sv_egresses s) (sv_rules s) (sv_route s) = Inr (li_router l)"
proof -
  have "routers_ok s" using reachable_ok [of env s] boot_keeps [OF assms(1,2)] by (simp add: server_ok_def)
  then have "li_router l = sv_router s" using assms(3,4) by (fastforce simp: routers_ok_def)
  then show ?thesis using boot_keeps [OF assms(1,2)] by (simp add: synced_def)
qed

theorem listeners_converge_witness:
  "let s = snd (server_steps sample_server_env [E_Request put_good_rule, E_Request put_socks,
                  E_Request put_use_r, E_Run, E_Run] sample_boot); l = snd (hd (sv_listeners s)) in
    length (ro_matchers (li_router l)) = 1 \<and>
    make_router (se_router sample_server_env) (sv_egresses s) (sv_rules s) (sv_route s) = Inr (li_router l)"
proof -
  let ?es = "[E_Request put_good_rule, E_Request put_socks, E_Request put_use_r, E_Run, E_Run]"
  let ?s = "snd (server_steps sample_server_env ?es sample_boot)"
  have "fst (server_steps sample_server_env ?es sample_boot) = Inr ()" by code_simp
  then have "server_steps sample_server_env ?es sample_boot = (Inr (), ?s)" by (simp add: prod_eq_iff)
  moreover have "sv_posted ?s = []" by code_simp
  moreover have "map fst (sv_listeners ?s) = [''i'']" by code_simp
  then have "(''i'', snd (hd (sv_listeners ?s))) \<in> set (sv_listeners ?s)"
    by (cases "sv_listeners ?s") (auto simp del: server_steps.simps)
  moreover have "length (ro_matchers (li_router (snd (hd (sv_listeners ?s))))) = 1" by code_simp
  ultimately show ?thesis using listeners_converge [OF sample_boot_new] by (simp only: Let_def)
qed

section \<open>Deletion\<close>

lemma respond_fail_status: "handle env req s = (Inl (SystemError (Pichi_code e) msg), s') \<Longrightarrow>
  \<exists>resp. respond env req s = (Inr resp, s') \<and> rp_status resp = error_status (Pichi_code e)"
  by (simp add: respond_def gen_resp_error_def gen_resp_body_def gen_resp_def)

section \<open>Bodies that are refused\<close>

lemma parse_text_refused:
  assumes "parse_text jt parse body = Inl e" and "\<And>v. parse v = Inl e \<Longrightarrow> client_error e"
  shows "\<exists>pe msg. e = SystemError (Pichi_code pe) msg \<and> (pe = BAD_JSON \<or> jt_parse jt body \<noteq> None \<and> pe = SEMANTIC_ERROR)"
proof (cases "jt_parse jt body")
  case None
  then show ?thesis using assms(1) by (auto simp: parse_text_def fail_with_def makeErrorCode_def)
next
  case (Some v)
  then have "client_error e" using assms by (simp add: parse_text_def)
  then show ?thesis using Some by (auto simp: client_error_def)
qed

lemma refused_status:
  assumes "handle env req s = (Inl e, s)" and "e = SystemError (Pichi_code pe) msg"
    and "pe = BAD_JSON \<or> jt_parse (se_json env) (rq_body req) \<noteq> None \<and> pe = SEMANTIC_ERROR"
  shows "\<exists>resp. respond env req s = (Inr resp, s) \<and>
    (if jt_parse (se_json env) (rq_body req) = None then rp_status resp = status_bad_request
     else rp_status resp \<in> {status_bad_request, status_unprocessable_entity})"
  using respond_fail_status [of env req s pe msg s] assms by (auto simp: error_status_def)

text \<open>
  C17: A PUT whose body is not what the target expects is the client's fault and is answered as such: a
  body that is no JSON text with 400, every other one that the parser of the ingress, the egress, the rule
  or the route refuses with 400 or 422. The process goes on and its state is unchanged.
\<close>

theorem malformed_put_refused:
  assumes "rq_method req = verb_put" and "n \<noteq> []" and "set n \<inter> set ''?#/'' = {}"
    and "rq_target req = ''/ingresses/'' @ n \<and>
           parse_text (se_json env) (parse_Ingress (re_ip (se_router env))) (rq_body req) = Inl e \<or>
         rq_target req = ''/egresses/'' @ n \<and>
           parse_text (se_json env) (parse_Egress (re_ip (se_router env))) (rq_body req) = Inl e \<or>
         rq_target req = ''/rules/'' @ n \<and> parse_text (se_json env) parse_Rule (rq_body req) = Inl e \<or>
         rq_target req = ''/route'' \<and> parse_text (se_json env) parse_Route (rq_body req) = Inl e"
  shows "\<exists>resp. respond env req s = (Inr resp, s) \<and>
    (if jt_parse (se_json env) (rq_body req) = None then rp_status resp = status_bad_request
     else rp_status resp \<in> {status_bad_request, status_unprocessable_entity})"
proof -
  have n: "set n \<inter> set ''?#'' = {}" using assms(3) by auto
  have "handle env req s = (Inl e, s)"
    using assms(4) handle_ingress_target [OF _ assms(2,3)] handle_egress_target [OF _ assms(2) n]
      handle_rule_target [OF _ assms(2) n] handle_fixed_target(4) assms(1)
    by (elim disjE) (simp_all add: handle_ingress_def handle_egress_def handle_rule_def handle_route_def)
  moreover have "\<exists>pe msg. e = SystemError (Pichi_code pe) msg \<and>
      (pe = BAD_JSON \<or> jt_parse (se_json env) (rq_body req) \<noteq> None \<and> pe = SEMANTIC_ERROR)"
    using assms(4)
    by (elim disjE conjE) (erule parse_text_refused, erule ingress.parse_error egress.parse_error
        rule.parse_error parse_Route_error)+
  ultimately show ?thesis using refused_status [of env req s e] by blast
qed

theorem malformed_put_refused_witness:
  "(\<exists>resp. respond sample_server_env (sample_request verb_put ''/rules/r'' ''no json'') sample_boot = (Inr resp, sample_boot) \<and>
      rp_status resp = status_bad_request) \<and>
   (\<exists>resp. respond sample_server_env (sample_request verb_put ''/egresses/e'' ''good-rule'') sample_boot = (Inr resp, sample_boot) \<and>
      rp_status resp \<in> {status_bad_request, status_unprocessable_entity})"
proof -
  let ?r = "sample_request verb_put ''/rules/r'' ''no json''"
  let ?q = "sample_request verb_put ''/egresses/e'' ''good-rule''"
  let ?p = "parse_text (se_json sample_server_env) (parse_Egress (re_ip (se_router sample_server_env))) ''good-rule''"
  have 1: "jt_parse (se_json sample_server_env) ''no json'' = None" by code_simp
  have 2: "jt_parse (se_json sample_server_env) ''good-rule'' \<noteq> None" by code_simp
  have "case ?p of Inl _ \<Rightarrow> True | Inr _ \<Rightarrow> False" by code_simp
  then obtain e where e: "?p = Inl e" by (auto split: sum.splits)
  have "parse_text (se_json sample_server_env) parse_Rule ''no json'' = Inl (SystemError (Pichi_code BAD_JSON) ''JSON syntax error'')"
    using 1 by (simp add: parse_text_def)
  then have "\<exists>resp. respond sample_server_env ?r sample_boot = (Inr resp, sample_boot) \<and> rp_status resp = status_bad_request"
    using malformed_put_refused [of ?r "''r''" sample_server_env] 1 by (simp add: sample_request_def)
  moreover have "\<exists>resp. respond sample_server_env ?q sample_boot = (Inr resp, sample_boot) \<and>
      rp_status resp \<in> {status_bad_request, status_unprocessable_entity}"
    using malformed_put_refused [of ?q "''e''" sample_server_env e] 2 e by (simp add: sample_request_def)
  ultimately show ?thesis by blast
qed

text \<open>
  A DELETE of an egress that the route uses is answered with 403 and changes nothing; one that
  the route does not use is removed, and the route's router would still be the same.
\<close>

theorem delete_egress_guarded:
  assumes "rq_method req = verb_delete" and "rq_target req = ''/egresses/'' @ n" and "n \<noteq> []"
    and "set n \<inter> set ''?#'' = {}" and "egress_in_use (sv_route s) n = Inr used"
  shows "if used
    then \<exists>resp. respond env req s = (Inr resp, s) \<and> rp_status resp = status_forbidden
    else respond env req s =
        (Inr (gen_resp status_no_content), s\<lparr>sv_egresses := AList.delete n (sv_egresses s)\<rparr>) \<and>
      make_router renv (AList.delete n (sv_egresses s)) (sv_rules s) (sv_route s) =
      make_router renv (sv_egresses s) (sv_rules s) (sv_route s)"
proof (cases used)
  case True
  then have "handle env req s = (Inl (SystemError (Pichi_code RES_IN_USE) ''''), s)"
    using assms by (simp add: handle_egress_target handle_egress_def)
  then show ?thesis using True respond_fail_status [of env req s RES_IN_USE] by (simp add: error_status_def)
next
  case False
  then have "handle env req s =
      (Inr (gen_resp status_no_content), s\<lparr>sv_egresses := AList.delete n (sv_egresses s)\<rparr>)"
    using assms by (simp add: handle_egress_target handle_egress_def)
  then show ?thesis using False unused_egress [of "sv_route s" n] assms(5) by (simp add: respond_def)
qed

theorem delete_egress_guarded_witness:
  "(let req = sample_request verb_delete ''/egresses/direct'' [] in
    \<exists>resp. respond sample_server_env req sample_boot = (Inr resp, sample_boot) \<and>
      rp_status resp = status_forbidden)"
proof -
  have "egress_in_use (sv_route sample_boot) ''direct'' = Inr True" by code_simp
  then show ?thesis
    using delete_egress_guarded [of "sample_request verb_delete ''/egresses/direct'' []" "''direct''"
        sample_boot True] by (simp add: sample_request_def)
qed

text \<open>The same for rules: one that a group of the route names cannot be deleted.\<close>

theorem delete_rule_guarded:
  assumes "rq_method req = verb_delete" and "rq_target req = ''/rules/'' @ n" and "n \<noteq> []"
    and "set n \<inter> set ''?#'' = {}"
  shows "if \<exists>item \<in> set (rt_rules (sv_route s)). n \<in> set (fst item)
    then \<exists>resp. respond env req s = (Inr resp, s) \<and> rp_status resp = status_forbidden
    else respond env req s =
        (Inr (gen_resp status_no_content), s\<lparr>sv_rules := AList.delete n (sv_rules s)\<rparr>) \<and>
      make_router renv (sv_egresses s) (AList.delete n (sv_rules s)) (sv_route s) =
      make_router renv (sv_egresses s) (sv_rules s) (sv_route s)"
proof -
  have used: "rule_in_use (sv_route s) n \<longleftrightarrow> (\<exists>item \<in> set (rt_rules (sv_route s)). n \<in> set (fst item))"
    by (auto simp: rule_in_use_def list_ex_iff)
  show ?thesis
  proof (cases "rule_in_use (sv_route s) n")
    case True
    then have "handle env req s = (Inl (SystemError (Pichi_code RES_IN_USE) ''''), s)"
      using assms by (simp add: handle_rule_target handle_rule_def)
    then show ?thesis
      using True used respond_fail_status [of env req s RES_IN_USE] by (simp add: error_status_def)
  next
    case False
    then have "handle env req s =
        (Inr (gen_resp status_no_content), s\<lparr>sv_rules := AList.delete n (sv_rules s)\<rparr>)"
      using assms by (simp add: handle_rule_target handle_rule_def)
    then show ?thesis using False used unused_rule [of "sv_route s" n] by (simp add: respond_def)
  qed
qed

theorem delete_rule_guarded_witness:
  "(let s = sample_after [put_good_rule, put_use_r]; req = sample_request verb_delete ''/rules/r'' [] in
    \<exists>resp. respond sample_server_env req s = (Inr resp, s) \<and> rp_status resp = status_forbidden)"
proof -
  let ?s = "sample_after [put_good_rule, put_use_r]"
  have "rt_rules (sv_route ?s) = [([''r''], ''direct'')]" by code_simp
  then show ?thesis
    using delete_rule_guarded [of "sample_request verb_delete ''/rules/r'' []" "''r''" ?s]
    by (simp add: sample_request_def)
qed

section \<open>When the router cannot be built\<close>

lemma put_rule_bad:
  assumes "synced env s" and "rq_method req = verb_put" and "rq_target req = ''/rules/'' @ n"
    and "n \<noteq> []" and "set n \<inter> set ''?#'' = {}"
    and "parse_text (se_json env) parse_Rule (rq_body req) = Inr vo"
    and "rule_error (se_router env) vo = Some e"
    and "item \<in> set (rt_rules (sv_route s))" and "n \<in> set (fst item)"
  shows "handle env req s = (Inl e, s\<lparr>sv_rules := AList.update n vo (sv_rules s)\<rparr>)"
    and "make_router (se_router env) (sv_egresses s) (AList.update n vo (sv_rules s)) (sv_route s) = Inl e"
proof -
  show mk: "make_router (se_router env) (sv_egresses s) (AList.update n vo (sv_rules s)) (sv_route s) = Inl e"
    using make_router_bad_rule [OF _ assms(7-9)] assms(1) by (simp add: synced_def)
  have "rule_in_use (sv_route s) n" using assms(8,9) by (auto simp: rule_in_use_def list_ex_iff)
  then show "handle env req s = (Inl e, s\<lparr>sv_rules := AList.update n vo (sv_rules s)\<rparr>)"
    using assms(2-6) mk by (simp add: handle_rule_target handle_rule_def update_router_def iobind_def)
qed

text \<open>
  A PUT of a rule that the route uses, with a range that is no network, is answered with 422,
  and yet the rule is stored: the running router is no longer the one the tables define, and the
  tables define none.
\<close>

theorem refused_rule_is_stored:
  assumes "server_new env = Inr s0" and "server_steps env es s0 = (Inr (), s)"
    and "rq_method req = verb_put" and "rq_target req = ''/rules/'' @ n" and "n \<noteq> []"
    and "set n \<inter> set ''?#'' = {}" and "parse_text (se_json env) parse_Rule (rq_body req) = Inr vo"
    and "\<not> list_all (valid_range (re_ip (se_router env))) (ru_range vo @ ru_range_nr vo)"
    and "item \<in> set (rt_rules (sv_route s))" and "n \<in> set (fst item)"
  shows "\<exists>resp s'. respond env req s = (Inr resp, s') \<and> rp_status resp = status_unprocessable_entity \<and>
    map_at (sv_rules s') n = Inr vo \<and> sv_router s' = sv_router s \<and>
    (\<exists>e. make_router (se_router env) (sv_egresses s') (sv_rules s') (sv_route s') = Inl e)"
proof -
  have "synced env s" using boot_keeps [OF assms(1,2)] by blast
  note bad = put_rule_bad [OF this assms(3-7) _ assms(9,10)]
  have "rule_error (se_router env) vo = Some (SystemError (Pichi_code SEMANTIC_ERROR) '''')"
    using assms(8) by (simp add: rule_error_def)
  note bad = bad [OF this]
  from respond_fail_status [OF bad(1)] show ?thesis
    using bad(2) by (auto simp: error_status_def map_at_update)
qed

theorem refused_rule_is_stored_witness:
  "let s = snd (server_steps sample_server_env [E_Request put_good_rule, E_Request put_use_r] sample_boot);
       req = sample_request verb_put ''/rules/r'' ''bad-range'' in
   \<exists>resp s'. respond sample_server_env req s = (Inr resp, s') \<and>
     rp_status resp = status_unprocessable_entity \<and>
     map_at (sv_rules s') ''r'' = Inr (empty_rule\<lparr>ru_range := [''nonsense'']\<rparr>) \<and> sv_router s' = sv_router s \<and>
     (\<exists>e. make_router (se_router sample_server_env) (sv_egresses s') (sv_rules s') (sv_route s') = Inl e)"
proof -
  let ?es = "[E_Request put_good_rule, E_Request put_use_r]"
  let ?s = "snd (server_steps sample_server_env ?es sample_boot)"
  let ?vo = "empty_rule\<lparr>ru_range := [''nonsense'']\<rparr>"
  have "fst (server_steps sample_server_env ?es sample_boot) = Inr ()" by code_simp
  then have run: "server_steps sample_server_env ?es sample_boot = (Inr (), ?s)" by (simp add: prod_eq_iff)
  have "parse_text (se_json sample_server_env) parse_Rule ''bad-range'' = Inr ?vo"
    "\<not> list_all (valid_range (re_ip (se_router sample_server_env))) (ru_range ?vo @ ru_range_nr ?vo)"
    "rt_rules (sv_route ?s) = [([''r''], ''direct'')]" by code_simp+
  then show ?thesis
    using refused_rule_is_stored [OF sample_boot_new run,
        of "sample_request verb_put ''/rules/r'' ''bad-range''" "''r''" ?vo "([''r''], ''direct'')"]
    unfolding Let_def by (simp add: sample_request_def del: server_steps.simps)
qed

text \<open>
  A PUT of a rule that the route uses, with a pattern that is no regular expression, ends in an
  exception that is no system error: no response is sent and the process terminates.
\<close>

theorem bad_pattern_terminates:
  assumes "server_new env = Inr s0" and "server_steps env es s0 = (Inr (), s)"
    and "rq_method req = verb_put" and "rq_target req = ''/rules/'' @ n" and "n \<noteq> []"
    and "set n \<inter> set ''?#'' = {}" and "parse_text (se_json env) parse_Rule (rq_body req) = Inr vo"
    and "ru_range vo = []" and "ru_range_nr vo = []"
    and "\<not> list_all (rx_valid (re_regex (se_router env))) (ru_pattern vo)"
    and "item \<in> set (rt_rules (sv_route s))" and "n \<in> set (fst item)"
  shows "\<exists>e. fst (respond env req s) = Inl e \<and> detached_handler e = F_terminate"
proof -
  have "synced env s" using boot_keeps [OF assms(1,2)] by blast
  moreover have "rule_error (se_router env) vo = Some RegexError"
    using assms(8-10) by (simp add: rule_error_def)
  ultimately show ?thesis using put_rule_bad(1) [OF _ assms(3-7) _ assms(11,12)]
    by (simp add: respond_def detached_handler_def)
qed

theorem bad_pattern_terminates_witness:
  "let s = snd (server_steps sample_server_env [E_Request put_good_rule, E_Request put_use_r] sample_boot);
       req = sample_request verb_put ''/rules/r'' ''bad-pattern'' in
   \<exists>e. fst (respond sample_server_env req s) = Inl e \<and> detached_handler e = F_terminate"
proof -
  let ?es = "[E_Request put_good_rule, E_Request put_use_r]"
  let ?s = "snd (server_steps sample_server_env ?es sample_boot)"
  let ?vo = "empty_rule\<lparr>ru_pattern := [''('']\<rparr>"
  have "fst (server_steps sample_server_env ?es sample_boot) = Inr ()" by code_simp
  then have run: "server_steps sample_server_env ?es sample_boot = (Inr (), ?s)" by (simp add: prod_eq_iff)
  have "parse_text (se_json sample_server_env) parse_Rule ''bad-pattern'' = Inr ?vo"
    "ru_range ?vo = []" "ru_range_nr ?vo = []"
    "\<not> list_all (rx_valid (re_regex (se_router sample_server_env))) (ru_pattern ?vo)"
    "rt_rules (sv_route ?s) = [([''r''], ''direct'')]" by code_simp+
  then show ?thesis
    using bad_pattern_terminates [OF sample_boot_new run,
        of "sample_request verb_put ''/rules/r'' ''bad-pattern''" "''r''" ?vo "([''r''], ''direct'')"]
    unfolding Let_def by (simp add: sample_request_def del: server_steps.simps)
qed

text \<open>
  A PUT of a route without a default passes every check, is stored, and then dereferences the
  empty default while the router is built, as long as the rules it names are valid.
\<close>

theorem route_without_default_undefined:
  assumes "rq_method req = verb_put" and "rq_target req = ''/route''"
    and "parse_text (se_json env) parse_Route (rq_body req) = Inr rt" and "rt_default rt = None"
    and "rt_rules rt = []"
  shows "respond env req s = (Inl UB, s\<lparr>sv_route := rt\<rparr>)"
  using assms by (simp add: respond_def handle_fixed_target handle_route_def check_route_def
      update_router_def make_router_def parse_route_def iobind_def deref_def)

theorem route_without_default_undefined_witness:
  "fst (respond sample_server_env (sample_request verb_put ''/route'' ''no-default'') sample_boot) = Inl UB"
proof -
  have "parse_text (se_json sample_server_env) parse_Route ''no-default'' = Inr \<lparr>rt_default = None, rt_rules = []\<rparr>"
    by code_simp
  then show ?thesis
    using route_without_default_undefined [of "sample_request verb_put ''/route'' ''no-default''"
        sample_server_env "\<lparr>rt_default = None, rt_rules = []\<rparr>" sample_boot]
    by (simp add: sample_request_def)
qed

section \<open>Functions posted to a listener that is gone\<close>

text \<open>
  C20: When a change of the router has been posted to a listener and the ingress is deleted before the
  function runs, the deletion succeeds and the posted function then uses a listener that is gone.
\<close>

theorem reroute_after_delete_undefined:
  assumes "reachable env s" and "(name, l) \<in> set (sv_listeners s)" and "in_type (li_vo l) \<noteq> TUNNEL"
    and "sv_posted s = P_Reroute (li_id l) r # ps"
    and "rq_method req = verb_delete" and "rq_target req = ''/ingresses/'' @ name"
  shows "\<exists>s' s''. handle env req s = (Inr (gen_resp status_no_content), s') \<and>
    server_step env E_Run s' = (Inl UB, s'')"
proof -
  let ?s' = "s\<lparr>sv_listeners := AList.delete name (sv_listeners s)\<rparr>"
  have ok: "distinct (map fst (sv_listeners s))" "inj_on (\<lambda>x. li_id (snd x)) (set (sv_listeners s))"
    "name \<noteq> []" "set name \<inter> set ''?#/'' = {}"
    using reachable_ok [OF assms(1)] assms(2) by (auto simp: server_ok_def vos_ok_def ids_ok_def)
  have "map_of (sv_listeners s) name = Some l" using assms(2) ok(1) by simp
  then have "handle env req s = (Inr (gen_resp status_no_content), ?s')"
    using assms(3,5) by (simp add: handle_ingress_target [OF assms(6) ok(3,4)] handle_ingress_def
        destroy_listener_def iobind_def)
  moreover have "find_listener (li_id l) (?s'\<lparr>sv_posted := ps\<rparr>) = None"
    using ok(1) inj_onD [OF ok(2) _ _ assms(2)]
    by (fastforce simp: find_listener_def find_None_iff set_AList_delete)
  then have "server_step env E_Run ?s' = (Inl UB, ?s'\<lparr>sv_posted := ps\<rparr>)" using assms(4) by simp
  ultimately show ?thesis by blast
qed

theorem reroute_after_delete_undefined_witness:
  "let s = snd (server_steps sample_server_env [E_Request put_good_rule, E_Request put_socks,
                  E_Request put_use_r, E_Run] sample_boot);
       req = sample_request verb_delete ''/ingresses/i'' [] in
   \<exists>s' s''. handle sample_server_env req s = (Inr (gen_resp status_no_content), s') \<and>
     server_step sample_server_env E_Run s' = (Inl UB, s'')"
proof -
  let ?es = "[E_Request put_good_rule, E_Request put_socks, E_Request put_use_r, E_Run]"
  let ?s = "snd (server_steps sample_server_env ?es sample_boot)"
  let ?l = "snd (hd (sv_listeners ?s))"
  have "fst (server_steps sample_server_env ?es sample_boot) = Inr ()" by code_simp
  then have "server_steps sample_server_env ?es sample_boot = (Inr (), ?s)" by (simp add: prod_eq_iff)
  then have "reachable sample_server_env ?s" using boot_keeps [OF sample_boot_new] by blast
  moreover have "map fst (sv_listeners ?s) = [''i'']" by code_simp
  then have "(''i'', ?l) \<in> set (sv_listeners ?s)"
    by (cases "sv_listeners ?s") (auto simp del: server_steps.simps)
  moreover have "in_type (li_vo ?l) \<noteq> TUNNEL" by code_simp
  moreover have "sv_posted ?s = P_Reroute (li_id ?l) (sv_router ?s) # []" by code_simp
  ultimately show ?thesis
    using reroute_after_delete_undefined [of sample_server_env ?s "''i''" ?l "sv_router ?s" "[]"
        "sample_request verb_delete ''/ingresses/i'' []"]
    unfolding Let_def by (simp add: sample_request_def del: server_steps.simps server_step.simps)
qed

text \<open>
  The name patterns of egresses and rules take a trailing slash as part of the name, that of
  ingresses does not.
\<close>

theorem trailing_slash_named:
  assumes "n \<noteq> []" and "set n \<inter> set ''?#/'' = {}"
  shows "(rq_target req = ''/egresses/'' @ n @ ''/'' \<longrightarrow> handle env req = handle_egress env (n @ ''/'') req) \<and>
    (rq_target req = ''/rules/'' @ n @ ''/'' \<longrightarrow> handle env req = handle_rule env (n @ ''/'') req) \<and>
    (rq_target req = ''/ingresses/'' @ n @ ''/'' \<longrightarrow> handle env req = handle_ingress env n req)"
  using handle_egress_target [of req "n @ ''/''"] handle_rule_target [of req "n @ ''/''"]
    handle_ingress_slash [of req n] assms by simp

theorem trailing_slash_named_witness:
  "handle sample_server_env (sample_request verb_delete ''/egresses/a/'' []) =
   handle_egress sample_server_env ''a/'' (sample_request verb_delete ''/egresses/a/'' [])"
  using trailing_slash_named [of "''a''" "sample_request verb_delete ''/egresses/a/'' []"]
  by (simp add: sample_request_def)

end
