(* ===== verification/Pichi_Connect.thy ===== *)
theory Pichi_Connect
  imports Pichi_Session
begin

text \<open>
  Connecting a TCP socket: \<^verbatim>\<open>connect\<close> of \<^verbatim>\<open>include/pichi/stream/helpers.hpp\<close> in the instance for \<^verbatim>\<open>asio::ip::tcp::socket\<close>. The resolver,
  the connection to one address and \<^verbatim>\<open>asio::async_connect\<close>, which connects to one of several, are parameters.
\<close>

section \<open>Connections\<close>

text \<open>
  \<open>tl_resolve\<close> is \<^verbatim>\<open>tcp::resolver::async_resolve\<close>, \<open>tl_dial\<close> the member \<^verbatim>\<open>async_connect\<close> of a socket, \<open>tl_connect\<close> the function \<^verbatim>\<open>asio::async_connect\<close>, each
  with the error code it completes with.
\<close>

record 's tcp_lib =
  tl_resolve :: "string \<Rightarrow> string \<Rightarrow> error_code + local_endpoint list"
  tl_dial :: "local_endpoint \<Rightarrow> 's \<Rightarrow> error_code option \<times> 's"
  tl_connect :: "local_endpoint list \<Rightarrow> 's \<Rightarrow> error_code option \<times> 's"

text \<open>An error code at the end of an awaited operation is thrown.\<close>

definition awaited :: "('s \<Rightarrow> error_code option \<times> 's) \<Rightarrow> ('s, unit) io" where
  "awaited f s = (case f s of (None, s') \<Rightarrow> (Inr (), s') | (Some ec, s') \<Rightarrow> (Inl (SystemError ec ''''), s'))"

lemma awaited_simps [simp]:
  "f s = (None, s') \<Longrightarrow> awaited f s = (Inr (), s')"
  "f s = (Some ec, s') \<Longrightarrow> awaited f s = (Inl (SystemError ec ''''), s')"
  by (simp_all add: awaited_def)

definition async_resolve :: "'s tcp_lib \<Rightarrow> string \<Rightarrow> u16 \<Rightarrow> ('t, local_endpoint list) io" where
  "async_resolve lib host port =
     ioret (case tl_resolve lib host (to_string_nat (unat port)) of
        Inl ec \<Rightarrow> Inl (SystemError ec '''') | Inr eps \<Rightarrow> Inr eps)"

definition throwing_address :: "ip_lib \<Rightarrow> string \<Rightarrow> ip_address result" where
  "throwing_address ip host =
     (case make_address ip host of
        None \<Rightarrow> Inl (SystemError (Asio_code asio_invalid_argument) '''') | Some a \<Rightarrow> Inr a)"

definition tcp_connect :: "ip_lib \<Rightarrow> 's tcp_lib \<Rightarrow> Endpoint \<Rightarrow> ('s, unit) io" where
  "tcp_connect ip lib peer =
     (if ep_type peer = DOMAIN_NAME
      then iobind (async_resolve lib (ep_host peer) (ep_port peer)) (\<lambda>eps. awaited (tl_connect lib eps))
      else iobind (ioret (throwing_address ip (ep_host peer))) (\<lambda>a. awaited (tl_dial lib (a, ep_port peer))))"

lemma tcp_connect_address:
  assumes "make_address ip h = Some a" and "t \<noteq> DOMAIN_NAME"
  shows "tcp_connect ip lib \<lparr>ep_type = t, ep_host = h, ep_port = p\<rparr> s = awaited (tl_dial lib (a, p)) s"
  using assms by (simp add: tcp_connect_def throwing_address_def)

lemma tcp_connect_name:
  "tcp_connect ip lib \<lparr>ep_type = DOMAIN_NAME, ep_host = h, ep_port = p\<rparr> s =
     (case tl_resolve lib h (to_string_nat (unat p)) of
        Inl ec \<Rightarrow> (Inl (SystemError ec ''''), s) | Inr eps \<Rightarrow> awaited (tl_connect lib eps) s)"
  by (simp add: tcp_connect_def async_resolve_def split: sum.splits)

section \<open>Properties\<close>

text \<open>
  C39: What a client names on the wire is what is connected to. The endpoint that \<^verbatim>\<open>parseEndpoint\<close> reads from a socket for a
  request with four bytes of address, however it is cut into chunks, makes the socket of an egress connect to the IPv4
  address of exactly these bytes and to the port of the request, without asking the resolver; one with sixteen bytes to that IPv6
  address. A name goes to the resolver as it was sent, with the port in decimal, and the socket is connected to the addresses the resolver
  gives; when the resolver fails, its error is thrown and the socket has not been touched. What follows the request is left unread.
\<close>

theorem requested_address_connected:
  assumes "ip_laws ip" and "sk_ok s"
  shows "(\<forall>b p rest. length b = 4 \<longrightarrow> sk_content s = [0x01] @ b @ hton16 p @ rest \<longrightarrow>
      (\<exists>peer s'. parseEndpoint ip stream_read s = (Inr peer, s') \<and> sk_content s' = rest \<and>
        (\<forall>t. tcp_connect ip lib peer t = awaited (tl_dial lib (V4 b, p)) t))) \<and>
    (\<forall>b p rest. length b = 16 \<longrightarrow> sk_content s = [0x04] @ b @ hton16 p @ rest \<longrightarrow>
      (\<exists>peer s'. parseEndpoint ip stream_read s = (Inr peer, s') \<and> sk_content s' = rest \<and>
        (\<forall>t. tcp_connect ip lib peer t = awaited (tl_dial lib (V6 b, p)) t))) \<and>
    (\<forall>h p rest. h \<noteq> [] \<longrightarrow> length h \<le> 255 \<longrightarrow>
        sk_content s = [0x03, of_nat (length h)] @ bytes_of h @ hton16 p @ rest \<longrightarrow>
      (\<exists>peer s'. parseEndpoint ip stream_read s = (Inr peer, s') \<and> sk_content s' = rest \<and>
        (\<forall>t. tcp_connect ip lib peer t =
          (case tl_resolve lib h (to_string_nat (unat p)) of
             Inl ec \<Rightarrow> (Inl (SystemError ec ''''), t) | Inr eps \<Rightarrow> awaited (tl_connect lib eps) t))))"
proof (intro conjI allI impI)
  fix b p rest
  assume b: "length b = 4" and c: "sk_content s = [0x01] @ b @ hton16 p @ rest"
  have "make_address ip (v4_to_string ip b) = Some (V4 b)" using assms(1) b by (simp add: ip_laws_def)
  from tcp_connect_address [OF this, of IPV4 lib p] sock.parse_ipv4 [OF assms(2) c b, of ip]
  show "\<exists>peer s'. parseEndpoint ip stream_read s = (Inr peer, s') \<and> sk_content s' = rest \<and>
      (\<forall>t. tcp_connect ip lib peer t = awaited (tl_dial lib (V4 b, p)) t)" by auto
next
  fix b p rest
  assume b: "length b = 16" and c: "sk_content s = [0x04] @ b @ hton16 p @ rest"
  have "make_address ip (v6_to_string ip b) = Some (V6 b)" using assms(1) b by (simp add: ip_laws_def)
  from tcp_connect_address [OF this, of IPV6 lib p] sock.parse_ipv6 [OF assms(2) c b, of ip]
  show "\<exists>peer s'. parseEndpoint ip stream_read s = (Inr peer, s') \<and> sk_content s' = rest \<and>
      (\<forall>t. tcp_connect ip lib peer t = awaited (tl_dial lib (V6 b, p)) t)" by auto
next
  fix h p rest
  assume h: "h \<noteq> []" "length h \<le> 255" and c: "sk_content s = [0x03, of_nat (length h)] @ bytes_of h @ hton16 p @ rest"
  from sock.parse_domain [OF assms(2) c h, of ip] tcp_connect_name [of ip lib h p]
  show "\<exists>peer s'. parseEndpoint ip stream_read s = (Inr peer, s') \<and> sk_content s' = rest \<and>
      (\<forall>t. tcp_connect ip lib peer t =
        (case tl_resolve lib h (to_string_nat (unat p)) of
           Inl ec \<Rightarrow> (Inl (SystemError ec ''''), t) | Inr eps \<Rightarrow> awaited (tl_connect lib eps) t))" by auto
qed

text \<open>A network that reaches 10.0.0.1 only, and a resolver that knows no name.\<close>

definition sample_reach :: "socket tcp_lib" where
  "sample_reach = \<lparr>tl_resolve = (\<lambda>_ _. Inl (Asio_code asio_not_found)),
     tl_dial = (\<lambda>ep s. (if ep = (V4 [10, 0, 0, 1], 80) then None else Some (Asio_code asio_connection_refused), s)),
     tl_connect = (\<lambda>eps s. (Some (Asio_code asio_not_found), s))\<rparr>"

theorem requested_address_connected_witness:
  "\<exists>peer s'. parseEndpoint sample_ip stream_read (sample_socket [[1, 10, 0], [0, 1, 0, 80, 42]]) = (Inr peer, s') \<and>
     sk_content s' = [42] \<and> tcp_connect sample_ip sample_reach peer (sample_socket []) = (Inr (), sample_socket [])"
proof -
  let ?s = "sample_socket [[1, 10, 0], [0, 1, 0, 80, 42]]"
  have p: "hton16 80 = [0, 80]" by code_simp
  have s: "sk_ok ?s" "length [10, 0, 0, 1 :: byte] = 4" "sk_content ?s = [0x01] @ [10, 0, 0, 1] @ hton16 80 @ [42]"
    by (simp_all add: sk_ok_def sk_content_def sample_socket_def p)
  have dial: "awaited (tl_dial sample_reach (V4 [10, 0, 0, 1], 80)) (sample_socket []) = (Inr (), sample_socket [])"
    by (simp add: sample_reach_def)
  from requested_address_connected [OF sample_ip_laws s(1), of sample_reach, THEN conjunct1, rule_format, OF s(2,3)]
  show ?thesis using dial by metis
qed

end
