(* ===== verification/Pichi_Client.thy ===== *)
theory Pichi_Client
  imports Pichi_Api Pichi_Connect
begin

text \<open>
  The client inside the server program (\<^verbatim>\<open>server/run.cpp\<close>): it loads a configuration file through the HTTP API of its
  own process, and on \<^verbatim>\<open>SIGHUP\<close> resets the server and loads the file again.

  The API is a parameter of the client's operations: a request is answered with a response, and changes the
  state behind it. What the client writes to its log is the list of the targets that were not loaded.
\<close>

section \<open>Requests\<close>

definition client_get :: "json_text \<Rightarrow> (Request \<Rightarrow> ('s, Response) io) \<Rightarrow> string \<Rightarrow> ('s, json) io" where
  "client_get jt api target =
     iobind (api \<lparr>rq_method = verb_get, rq_target = target, rq_body = ''''\<rparr>) (\<lambda>resp.
     iobind (ioret (assertTrue (rp_status resp = status_ok) MISC '''')) (\<lambda>_.
     case jt_parse jt (c_str (rp_body resp)) of
       None \<Rightarrow> ioret (fail_misc '''')
     | Some doc \<Rightarrow> ioret (Inr doc)))"

definition client_put :: "(Request \<Rightarrow> ('s, Response) io) \<Rightarrow> string \<Rightarrow> string \<Rightarrow> ('s, nat) io" where
  "client_put api target body =
     iobind (api \<lparr>rq_method = verb_put, rq_target = target, rq_body = body\<rparr>) (\<lambda>resp. ioret (Inr (rp_status resp)))"

definition client_del :: "(Request \<Rightarrow> ('s, Response) io) \<Rightarrow> string \<Rightarrow> ('s, unit) io" where
  "client_del api target =
     iobind (api \<lparr>rq_method = verb_delete, rq_target = target, rq_body = ''''\<rparr>) (\<lambda>resp.
     ioret (assertTrue (rp_status resp = status_no_content) MISC ''''))"

section \<open>Loading and resetting\<close>

abbreviation INGRESSES :: string where "INGRESSES \<equiv> ''ingresses''"
abbreviation EGRESSES :: string where "EGRESSES \<equiv> ''egresses''"
abbreviation RULES :: string where "RULES \<equiv> ''rules''"
abbreviation ROUTE :: string where "ROUTE \<equiv> ''route''"

definition target_of :: "string \<Rightarrow> string \<Rightarrow> string" where
  "target_of category name = ''/'' @ category @ ''/'' @ name"

fun update_nodes ::
  "json_text \<Rightarrow> (Request \<Rightarrow> ('s, Response) io) \<Rightarrow> string \<Rightarrow> (string \<times> json) list \<Rightarrow> ('s, string list) io" where
  "update_nodes jt api category [] = ioret (Inr [])"
| "update_nodes jt api category ((name, value) # nodes) =
     iobind (client_put api (target_of category (c_str name)) (json_toString jt value)) (\<lambda>status.
     iobind (update_nodes jt api category nodes) (\<lambda>failed.
     ioret (Inr (if status \<noteq> status_no_content then target_of category (c_str name) # failed else failed))))"

definition update_category ::
  "json_text \<Rightarrow> (Request \<Rightarrow> ('s, Response) io) \<Rightarrow> json \<Rightarrow> string \<Rightarrow> ('s, string list) io" where
  "update_category jt api root category =
     (case map_of (GetObj root) category of
        None \<Rightarrow> ioret (Inr [category])
      | Some v \<Rightarrow> if \<not> IsObject v then ioret (Inr [category]) else update_nodes jt api category (GetObj v))"

definition reload ::
  "json_text \<Rightarrow> (Request \<Rightarrow> ('s, Response) io) \<Rightarrow> 's tcp_lib \<Rightarrow> local_endpoint list \<Rightarrow> string \<Rightarrow> ('s, string list) io" where
  "reload jt api lib rr file =
     (case jt_parse jt file of
        None \<Rightarrow> ioret (Inr [''Invalid JSON configuration''])
      | Some doc \<Rightarrow>
          if \<not> IsObject doc then ioret (Inr [''Invalid JSON configuration''])
          else
            iobind (awaited (tl_connect lib rr)) (\<lambda>_.
            iobind (update_category jt api doc INGRESSES) (\<lambda>f1.
            iobind (update_category jt api doc EGRESSES) (\<lambda>f2.
            iobind (update_category jt api doc RULES) (\<lambda>f3.
            iobind (if HasMember doc ROUTE
                    then iobind (client_put api (''/'' @ ROUTE) (json_toString jt (member_of doc ROUTE))) (\<lambda>status.
                         ioret (Inr (if status \<noteq> status_no_content then [ROUTE] else [])))
                    else ioret (Inr [])) (\<lambda>f4.
            ioret (Inr (f1 @ f2 @ f3 @ f4))))))))"

fun del_all :: "(Request \<Rightarrow> ('s, Response) io) \<Rightarrow> string \<Rightarrow> string list \<Rightarrow> ('s, unit) io" where
  "del_all api category [] = ioret (Inr ())"
| "del_all api category (name # names) =
     iobind (client_del api (target_of category name)) (\<lambda>_. del_all api category names)"

text \<open>\<^verbatim>\<open>GetObj\<close> of a document that is not an object is undefined.\<close>

definition member_names :: "json \<Rightarrow> string list result" where
  "member_names doc = (if IsObject doc then Inr (map (\<lambda>m. c_str (fst m)) (GetObj doc)) else Inl UB)"

abbreviation direct_text :: string where "direct_text \<equiv> ''{\"type\":\"direct\"}''"
abbreviation route_text :: string where "route_text \<equiv> ''{\"default\":\"direct\",\"rules\":[]}''"

definition flush ::
  "json_text \<Rightarrow> (Request \<Rightarrow> ('s, Response) io) \<Rightarrow> 's tcp_lib \<Rightarrow> local_endpoint list \<Rightarrow> ('s, unit) io" where
  "flush jt api lib rr =
     iobind (awaited (tl_connect lib rr)) (\<lambda>_.
     iobind (client_put api (target_of EGRESSES ''direct'') direct_text) (\<lambda>_.
     iobind (client_put api (''/'' @ ROUTE) route_text) (\<lambda>_.
     iobind (client_get jt api (''/'' @ RULES)) (\<lambda>rules.
     iobind (ioret (member_names rules)) (\<lambda>rs.
     iobind (del_all api RULES rs) (\<lambda>_.
     iobind (client_get jt api (''/'' @ EGRESSES)) (\<lambda>egresses.
     iobind (ioret (member_names egresses)) (\<lambda>es.
     iobind (del_all api EGRESSES (filter (\<lambda>e. e \<noteq> ''direct'') es)) (\<lambda>_.
     iobind (client_get jt api (''/'' @ INGRESSES)) (\<lambda>ingresses.
     iobind (ioret (member_names ingresses)) (\<lambda>is.
     del_all api INGRESSES is)))))))))))"

text \<open>
  \<^verbatim>\<open>run\<close>: nothing without a file; otherwise the address of the API is resolved, and there is one load, and a reset and a load
  for every \<^verbatim>\<open>SIGHUP\<close>. \<open>files\<close> holds what the file contains at every load, one entry for the start and one for each signal;
  every load and every reset connects anew.
\<close>

fun client_loop ::
  "json_text \<Rightarrow> (Request \<Rightarrow> ('s, Response) io) \<Rightarrow> 's tcp_lib \<Rightarrow> local_endpoint list \<Rightarrow> string list \<Rightarrow> ('s, string list) io" where
  "client_loop jt api lib rr [] = ioret (Inr [])"
| "client_loop jt api lib rr (file # files) =
     iobind (flush jt api lib rr) (\<lambda>_.
     iobind (reload jt api lib rr file) (\<lambda>failed.
     iobind (client_loop jt api lib rr files) (\<lambda>more. ioret (Inr (failed @ more)))))"

definition client_run ::
  "json_text \<Rightarrow> (Request \<Rightarrow> ('s, Response) io) \<Rightarrow> 's tcp_lib \<Rightarrow> string \<Rightarrow> string \<Rightarrow> u16 \<Rightarrow> string \<Rightarrow> string list \<Rightarrow> ('s, string list) io" where
  "client_run jt api lib fn bind port file files =
     (if fn = [] then ioret (Inr [])
      else iobind (async_resolve lib bind port) (\<lambda>rr.
           iobind (reload jt api lib rr file) (\<lambda>failed.
           iobind (client_loop jt api lib rr files) (\<lambda>more. ioret (Inr (failed @ more))))))"

section \<open>Resetting a server\<close>

text \<open>
  A name that an HTTP target and a C string carry. The names of the tables come from targets; the client's parser
  of HTTP does not let a NUL through.
\<close>

definition travels :: "string \<Rightarrow> bool" where
  "travels n \<longleftrightarrow> set n \<inter> set ''?#'' = {} \<and> CHR 0x00 \<notin> set n"

definition names_travel :: "server \<Rightarrow> bool" where
  "names_travel s \<longleftrightarrow> (\<forall>n \<in> fst ` set (sv_rules s) \<union> fst ` set (sv_egresses s) \<union> fst ` set (sv_listeners s). travels n)"

definition json_reads :: "json_text \<Rightarrow> json \<Rightarrow> bool" where
  "json_reads jt j \<longleftrightarrow> jt_parse jt (json_toString jt j) = Some j"

text \<open>The documents a reset needs: the two it sends, and the listings it asks for.\<close>

definition reset_documents :: "server_env \<Rightarrow> server \<Rightarrow> bool" where
  "reset_documents env s \<longleftrightarrow>
     jt_parse (se_json env) direct_text = Some (JObject [(''type'', JString ''direct'')]) \<and>
     jt_parse (se_json env) route_text = Some (JObject [(''default'', JString ''direct''), (''rules'', JArray [])]) \<and>
     (\<forall>j. to_json (\<lambda>r. Inr (toJson_Rule r)) (sv_rules s) = Inr j \<longrightarrow> json_reads (se_json env) j) \<and>
     (\<forall>j. to_json toJson_Egress (AList.update ''direct'' (empty_egress DIRECT) (sv_egresses s)) = Inr j \<longrightarrow>
        json_reads (se_json env) j) \<and>
     (\<forall>j. to_json (\<lambda>l. toJson_Ingress (li_vo l)) (sv_listeners s) = Inr j \<longrightarrow> json_reads (se_json env) j)"

definition default_route :: RouteVO where
  "default_route = \<lparr>rt_default = Some ''direct'', rt_rules = []\<rparr>"

lemma c_str_idem [simp]: "c_str (c_str s) = c_str s"
  by (simp add: c_str_def takeWhile_idem)

lemma c_str_travels: "travels n \<Longrightarrow> c_str n = n"
  by (auto simp: travels_def c_str_def takeWhile_eq_all_conv)

lemma names_of_zip:
  assumes "length ns = length js" and "\<forall>n \<in> set ns. travels n"
  shows "member_names (JObject (zip ns js)) = Inr ns"
  using assms by (induction ns js rule: list_induct2) (auto simp: member_names_def c_str_travels)

lemma client_get_listing:
  assumes "handle env \<lparr>rq_method = verb_get, rq_target = t, rq_body = ''''\<rparr> s = (Inr (gen_resp_body env status_ok j), s)"
    and "json_reads (se_json env) j"
  shows "client_get (se_json env) (respond env) t s = (Inr j, s)"
  using assms by (simp add: client_get_def respond_Inr gen_resp_body_def gen_resp_def json_reads_def json_toString_def)

lemma fold_AList_delete: "fold AList.delete ns m = filter (\<lambda>x. fst x \<notin> set ns) m"
proof (induction ns arbitrary: m)
  case (Cons n ns)
  show ?case using Cons [of "AList.delete n m"] by (auto simp: AList.delete_eq intro: filter_cong)
qed simp

lemma del_all_ok:
  assumes "\<And>n s. I s \<Longrightarrow> n \<in> set ns \<Longrightarrow> \<exists>s'. client_del api (target_of c n) s = (Inr (), s') \<and> I s' \<and> tbl s' = AList.delete n (tbl s)"
    and "I s"
  shows "\<exists>s'. del_all api c ns s = (Inr (), s') \<and> I s' \<and> tbl s' = filter (\<lambda>x. fst x \<notin> set ns) (tbl s)"
proof -
  have "\<exists>s'. del_all api c ns s = (Inr (), s') \<and> I s' \<and> tbl s' = fold AList.delete ns (tbl s)"
    using assms
  proof (induction ns arbitrary: s)
    case (Cons n ns)
    obtain s1 where s1: "client_del api (target_of c n) s = (Inr (), s1)" "I s1" "tbl s1 = AList.delete n (tbl s)"
      using Cons.prems by (meson list.set_intros(1))
    show ?case using Cons.IH [OF _ s1(2)] Cons.prems(1) s1 by auto
  qed simp
  then show ?thesis by (simp only: fold_AList_delete)
qed

text \<open>One deletion.\<close>

lemma del_rule:
  assumes "n \<noteq> []" and "travels n" and "sv_route s = default_route"
  shows "client_del (respond env) (target_of RULES n) s = (Inr (), s\<lparr>sv_rules := AList.delete n (sv_rules s)\<rparr>)"
proof -
  let ?req = "\<lparr>rq_method = verb_delete, rq_target = target_of RULES n, rq_body = ''''\<rparr>"
  have "handle env ?req = handle_rule env n ?req"
    using assms(1,2) by (intro handle_rule_target) (simp_all add: target_of_def travels_def)
  then have "handle env ?req s = (Inr (gen_resp status_no_content), s\<lparr>sv_rules := AList.delete n (sv_rules s)\<rparr>)"
    using assms(3) by (simp add: handle_rule_def rule_in_use_def default_route_def)
  then show ?thesis by (simp add: client_del_def respond_Inr gen_resp_def)
qed

lemma del_egress:
  assumes "n \<noteq> []" and "travels n" and "n \<noteq> ''direct''" and "sv_route s = default_route"
  shows "client_del (respond env) (target_of EGRESSES n) s = (Inr (), s\<lparr>sv_egresses := AList.delete n (sv_egresses s)\<rparr>)"
proof -
  let ?req = "\<lparr>rq_method = verb_delete, rq_target = target_of EGRESSES n, rq_body = ''''\<rparr>"
  have "handle env ?req = handle_egress env n ?req"
    using assms(1,2) by (intro handle_egress_target) (simp_all add: target_of_def travels_def)
  then have "handle env ?req s = (Inr (gen_resp status_no_content), s\<lparr>sv_egresses := AList.delete n (sv_egresses s)\<rparr>)"
    using assms(3,4) by (simp add: handle_egress_def egress_in_use_def default_route_def)
  then show ?thesis by (simp add: client_del_def respond_Inr gen_resp_def)
qed

definition tunnels_ready :: "server \<Rightarrow> bool" where
  "tunnels_ready s \<longleftrightarrow> bs_strand (sv_balancers s) \<or> (\<forall>x \<in> set (sv_listeners s). in_type (li_vo (snd x)) \<noteq> TUNNEL)"

lemma del_ingress:
  assumes "n \<noteq> []" and "set n \<inter> set ''?#/'' = {}" and "tunnels_ready s"
  shows "\<exists>s'. client_del (respond env) (target_of INGRESSES n) s = (Inr (), s') \<and> tunnels_ready s' \<and>
    sv_listeners s' = AList.delete n (sv_listeners s) \<and>
    sv_rules s' = sv_rules s \<and> sv_egresses s' = sv_egresses s \<and> sv_route s' = sv_route s"
proof -
  let ?req = "\<lparr>rq_method = verb_delete, rq_target = target_of INGRESSES n, rq_body = ''''\<rparr>"
  have h: "handle env ?req = handle_ingress env n ?req"
    using assms(1,2) by (intro handle_ingress_target) (simp_all add: target_of_def)
  show ?thesis
  proof (cases "map_of (sv_listeners s) n")
    case None
    then have "handle env ?req s = (Inr (gen_resp status_no_content), s)" using h by (simp add: handle_ingress_def)
    moreover have "AList.delete n (sv_listeners s) = sv_listeners s"
      using None by (force simp: AList.delete_eq filter_id_conv map_of_eq_None_iff)
    ultimately show ?thesis using assms(3) by (simp add: client_del_def respond_Inr gen_resp_def)
  next
    case (Some l)
    then have "in_type (li_vo l) = TUNNEL \<Longrightarrow> bs_strand (sv_balancers s)"
      using assms(3) map_of_SomeD [OF Some] by (force simp: tunnels_ready_def)
    then obtain s1 where s1: "destroy_listener l s = (Inr (), s1)" "sv_listeners s1 = sv_listeners s" "sv_rules s1 = sv_rules s"
        "sv_egresses s1 = sv_egresses s" "sv_route s1 = sv_route s" "sv_balancers s1 = sv_balancers s"
      by (cases "in_type (li_vo l) = TUNNEL") (auto simp: destroy_listener_def post_def)
    then have "handle env ?req s = (Inr (gen_resp status_no_content), s1\<lparr>sv_listeners := AList.delete n (sv_listeners s1)\<rparr>)"
      using h Some by (simp add: handle_ingress_def)
    then show ?thesis using s1 assms(3)
      by (auto simp: client_del_def respond_Inr gen_resp_def tunnels_ready_def set_AList_delete)
  qed
qed

text \<open>The two requests that make the route free.\<close>

lemma mapM_defined: "(\<exists>ys. mapM f xs = Inr ys) \<longleftrightarrow> (\<forall>x \<in> set xs. \<exists>y. f x = Inr y)"
  by (induction xs) (auto simp: result_simps)

lemma rule_matcher_update:
  assumes "rule_matcher env egresses rules en rn = Inr m"
  shows "\<exists>m'. rule_matcher env (AList.update n e egresses) rules en rn = Inr m'"
  using assms by (auto simp: rule_matcher_def make_matcher_def result_simps map_at_update Let_def)

lemma make_router_update:
  assumes "make_router env egresses rules rt = Inr r"
  shows "\<exists>r'. make_router env (AList.update n e egresses) rules rt = Inr r'"
proof -
  obtain ms d v where ms: "mapM (parse_group_matchers env egresses rules) (rt_rules rt) = Inr ms" "rt_default rt = Some d"
      "map_at egresses d = Inr v"
    using assms by (auto simp: make_router_def parse_route_def result_simps)
  have "\<exists>ms'. parse_group_matchers env (AList.update n e egresses) rules p = Inr ms'" if "p \<in> set (rt_rules rt)" for p
  proof -
    have "\<exists>ys. parse_group_matchers env egresses rules p = Inr ys" using mapM_defined [THEN iffD1, OF exI, OF ms(1)] that by simp
    then have "\<forall>rn \<in> set (fst p). \<exists>m. rule_matcher env egresses rules (snd p) rn = Inr m"
      by (simp only: parse_group_matchers_def mapM_defined)
    then have "\<forall>rn \<in> set (fst p). \<exists>m. rule_matcher env (AList.update n e egresses) rules (snd p) rn = Inr m"
      by (meson rule_matcher_update)
    then show ?thesis by (simp only: parse_group_matchers_def mapM_defined)
  qed
  then have "\<exists>ms'. mapM (parse_group_matchers env (AList.update n e egresses) rules) (rt_rules rt) = Inr ms'"
    by (intro mapM_defined [THEN iffD2] ballI)
  then obtain ms' where "mapM (parse_group_matchers env (AList.update n e egresses) rules) (rt_rules rt) = Inr ms'" ..
  then show ?thesis using ms(2,3) by (auto simp: make_router_def parse_route_def map_at_update)
qed

lemma update_router_frame:
  assumes "update_router env s = (r, s')"
  shows "sv_listeners s' = sv_listeners s \<and> sv_rules s' = sv_rules s \<and> sv_egresses s' = sv_egresses s \<and>
    sv_route s' = sv_route s \<and> sv_balancers s' = sv_balancers s"
  using assms by (auto simp: update_router_def post_def split: sum.splits)

lemma put_direct:
  assumes "synced env s" and "jt_parse (se_json env) direct_text = Some (JObject [(''type'', JString ''direct'')])"
  shows "\<exists>s'. client_put (respond env) (target_of EGRESSES ''direct'') direct_text s = (Inr status_no_content, s') \<and>
    sv_egresses s' = AList.update ''direct'' (empty_egress DIRECT) (sv_egresses s) \<and> sv_listeners s' = sv_listeners s \<and>
    sv_rules s' = sv_rules s \<and> sv_balancers s' = sv_balancers s"
proof -
  let ?req = "\<lparr>rq_method = verb_put, rq_target = target_of EGRESSES ''direct'', rq_body = direct_text\<rparr>"
  let ?s1 = "s\<lparr>sv_egresses := AList.update ''direct'' (empty_egress DIRECT) (sv_egresses s)\<rparr>"
  have h: "handle env ?req = handle_egress env ''direct'' ?req"
    by (intro handle_egress_target) (simp_all add: target_of_def)
  have p: "parse_text (se_json env) (parse_Egress ip) direct_text = Inr (empty_egress DIRECT)" for ip
    using assms(2) by (simp add: parse_text_def parse_Egress_def HasMember_def member_of_def parse_AdapterType_def Let_def c_str_def)
  obtain r d where "make_router (se_router env) (sv_egresses s) (sv_rules s) (sv_route s) = Inr r" "rt_default (sv_route s) = Some d"
    using assms(1) by (auto simp: synced_def make_router_def result_simps)
  then obtain r' used where r': "make_router (se_router env) (sv_egresses ?s1) (sv_rules s) (sv_route s) = Inr r'"
      "egress_in_use (sv_route ?s1) ''direct'' = Inr used"
    using make_router_update [of "se_router env" "sv_egresses s" "sv_rules s" "sv_route s" r "''direct''" "empty_egress DIRECT"]
    by (auto simp: egress_in_use_def)
  then obtain s2 where s2: "update_router env ?s1 = (Inr (), s2)" by (simp add: update_router_def)
  have "handle env ?req s = (Inr (gen_resp status_no_content), if used then s2 else ?s1)"
    using s2 r'(2) unfolding h by (simp add: handle_egress_def p Let_def)
  then show ?thesis using update_router_frame [OF s2(1)] by (simp add: client_put_def respond_Inr gen_resp_def)
qed

lemma put_default_route:
  assumes "map_contains (sv_egresses s) ''direct''"
    and "jt_parse (se_json env) route_text = Some (JObject [(''default'', JString ''direct''), (''rules'', JArray [])])"
  shows "\<exists>s'. client_put (respond env) (''/'' @ ROUTE) route_text s = (Inr status_no_content, s') \<and> sv_route s' = default_route \<and>
    sv_egresses s' = sv_egresses s \<and> sv_listeners s' = sv_listeners s \<and> sv_rules s' = sv_rules s \<and> sv_balancers s' = sv_balancers s"
proof -
  let ?req = "\<lparr>rq_method = verb_put, rq_target = ''/'' @ ROUTE, rq_body = route_text\<rparr>"
  have p: "parse_text (se_json env) parse_Route route_text = Inr default_route"
    using assms(2) by (simp add: parse_text_def parse_Route_def HasMember_def member_of_def parseArray_def parse_string_def
        default_route_def c_str_def)
  have "check_route (sv_egresses s) (sv_rules s) default_route = Inr ()"
    using assms(1) by (simp add: check_route_def default_route_def)
  moreover obtain s2 where s2: "update_router env (s\<lparr>sv_route := default_route\<rparr>) = (Inr (), s2)"
    using assms(1) by (auto simp: update_router_def make_router_def parse_route_def default_route_def map_contains_iff)
  ultimately have "handle env ?req s = (Inr (gen_resp status_no_content), s2)"
    using p by (simp add: handle_fixed_target handle_route_def)
  then show ?thesis using update_router_frame [OF s2(1)] by (simp add: client_put_def respond_Inr gen_resp_def)
qed

section \<open>Properties\<close>

lemma flush_rules:
  assumes "vos_ok env s" and "names_travel s" and "sv_route s = default_route"
    and "\<And>j. to_json (\<lambda>r. Inr (toJson_Rule r)) (sv_rules s) = Inr j \<Longrightarrow> json_reads (se_json env) j"
  shows "\<exists>doc ns s'. client_get (se_json env) (respond env) ''/rules'' s = (Inr doc, s) \<and> member_names doc = Inr ns \<and>
    del_all (respond env) RULES ns s = (Inr (), s') \<and> s' = s\<lparr>sv_rules := []\<rparr>"
proof -
  let ?ns = "map fst (sv_rules s)"
  obtain js where js: "to_json (\<lambda>r. Inr (toJson_Rule r)) (sv_rules s) = Inr (JObject (zip ?ns js))"
      "mapM parse_Rule js = Inr (map (\<lambda>x. snd x) (sv_rules s))"
    using listed_rules [OF assms(1)] by blast
  have "length ?ns = length js" using mapM_Inr_length [OF js(2)] by simp
  then have names: "member_names (JObject (zip ?ns js)) = Inr ?ns"
    using assms(2) by (intro names_of_zip) (auto simp: names_travel_def)
  have get: "client_get (se_json env) (respond env) ''/rules'' s = (Inr (JObject (zip ?ns js)), s)"
    using js(1) assms(4) [OF js(1)] by (intro client_get_listing) (simp_all add: handle_fixed_target handle_rules_def)
  have "\<exists>s'. del_all (respond env) RULES ?ns s = (Inr (), s') \<and> s'\<lparr>sv_rules := []\<rparr> = s\<lparr>sv_rules := []\<rparr> \<and>
      sv_rules s' = filter (\<lambda>x. fst x \<notin> set ?ns) (sv_rules s)"
  proof (rule del_all_ok)
    fix n t assume t: "t\<lparr>sv_rules := []\<rparr> = s\<lparr>sv_rules := []\<rparr>" and "n \<in> set ?ns"
    then have "n \<noteq> []" "travels n" using assms(1,2) by (auto simp: vos_ok_def names_travel_def)
    moreover have "sv_route t = default_route" using arg_cong [OF t, of sv_route] assms(3) by simp
    ultimately show "\<exists>s'. client_del (respond env) (target_of RULES n) t = (Inr (), s') \<and>
        s'\<lparr>sv_rules := []\<rparr> = s\<lparr>sv_rules := []\<rparr> \<and> sv_rules s' = AList.delete n (sv_rules t)"
      using t by (simp add: del_rule)
  qed simp
  then obtain s' where s': "del_all (respond env) RULES ?ns s = (Inr (), s')" "s'\<lparr>sv_rules := []\<rparr> = s\<lparr>sv_rules := []\<rparr>"
      "sv_rules s' = filter (\<lambda>x. fst x \<notin> set ?ns) (sv_rules s)" by blast
  have "sv_rules s' = []" using s'(3) by (simp add: filter_empty_conv)
  then have "s' = s\<lparr>sv_rules := []\<rparr>" using s'(2) by (cases s') simp
  then show ?thesis using get names s'(1) by blast
qed

lemma flush_egresses:
  assumes "vos_ok env s" and "names_travel s" and "sv_route s = default_route"
    and "\<And>j. to_json toJson_Egress (sv_egresses s) = Inr j \<Longrightarrow> json_reads (se_json env) j"
  shows "\<exists>doc ns s'. client_get (se_json env) (respond env) ''/egresses'' s = (Inr doc, s) \<and> member_names doc = Inr ns \<and>
    del_all (respond env) EGRESSES (filter (\<lambda>e. e \<noteq> ''direct'') ns) s = (Inr (), s') \<and>
    s' = s\<lparr>sv_egresses := filter (\<lambda>x. fst x = ''direct'') (sv_egresses s)\<rparr>"
proof -
  let ?ns = "map fst (sv_egresses s)" and ?d = "filter (\<lambda>e. e \<noteq> ''direct'') (map fst (sv_egresses s))"
  obtain js where js: "to_json toJson_Egress (sv_egresses s) = Inr (JObject (zip ?ns js))"
      "mapM (parse_Egress (re_ip (se_router env))) js = Inr (map (\<lambda>x. snd x) (sv_egresses s))"
    using listed_egresses [OF assms(1)] by blast
  have "length ?ns = length js" using mapM_Inr_length [OF js(2)] by simp
  then have names: "member_names (JObject (zip ?ns js)) = Inr ?ns"
    using assms(2) by (intro names_of_zip) (auto simp: names_travel_def)
  have get: "client_get (se_json env) (respond env) ''/egresses'' s = (Inr (JObject (zip ?ns js)), s)"
    using js(1) assms(4) [OF js(1)] by (intro client_get_listing) (simp_all add: handle_fixed_target handle_egresses_def)
  have "\<exists>s'. del_all (respond env) EGRESSES ?d s = (Inr (), s') \<and> s'\<lparr>sv_egresses := []\<rparr> = s\<lparr>sv_egresses := []\<rparr> \<and>
      sv_egresses s' = filter (\<lambda>x. fst x \<notin> set ?d) (sv_egresses s)"
  proof (rule del_all_ok)
    fix n t assume t: "t\<lparr>sv_egresses := []\<rparr> = s\<lparr>sv_egresses := []\<rparr>" and "n \<in> set ?d"
    then have "n \<noteq> []" "travels n" "n \<noteq> ''direct''" using assms(1,2) by (auto simp: vos_ok_def names_travel_def)
    moreover have "sv_route t = default_route" using arg_cong [OF t, of sv_route] assms(3) by simp
    ultimately show "\<exists>s'. client_del (respond env) (target_of EGRESSES n) t = (Inr (), s') \<and>
        s'\<lparr>sv_egresses := []\<rparr> = s\<lparr>sv_egresses := []\<rparr> \<and> sv_egresses s' = AList.delete n (sv_egresses t)"
      using t by (simp add: del_egress)
  qed simp
  then obtain s' where s': "del_all (respond env) EGRESSES ?d s = (Inr (), s')" "s'\<lparr>sv_egresses := []\<rparr> = s\<lparr>sv_egresses := []\<rparr>"
      "sv_egresses s' = filter (\<lambda>x. fst x \<notin> set ?d) (sv_egresses s)" by blast
  have "sv_egresses s' = filter (\<lambda>x. fst x = ''direct'') (sv_egresses s)"
    unfolding s'(3) by (rule filter_cong) force+
  then have "s' = s\<lparr>sv_egresses := filter (\<lambda>x. fst x = ''direct'') (sv_egresses s)\<rparr>" using s'(2) by (cases s', cases s) simp
  then show ?thesis using get names s'(1) by blast
qed

lemma flush_ingresses:
  assumes "vos_ok env s" and "names_travel s" and "tunnels_ready s"
    and "\<And>j. to_json (\<lambda>l. toJson_Ingress (li_vo l)) (sv_listeners s) = Inr j \<Longrightarrow> json_reads (se_json env) j"
  shows "\<exists>doc ns s'. client_get (se_json env) (respond env) ''/ingresses'' s = (Inr doc, s) \<and> member_names doc = Inr ns \<and>
    del_all (respond env) INGRESSES ns s = (Inr (), s') \<and>
    sv_listeners s' = [] \<and> sv_rules s' = sv_rules s \<and> sv_egresses s' = sv_egresses s \<and> sv_route s' = sv_route s"
proof -
  let ?ns = "map fst (sv_listeners s)"
  let ?same = "\<lambda>t. sv_rules t = sv_rules s \<and> sv_egresses t = sv_egresses s \<and> sv_route t = sv_route s"
  obtain js where js: "to_json (\<lambda>l. toJson_Ingress (li_vo l)) (sv_listeners s) = Inr (JObject (zip ?ns js))"
      "mapM (parse_Ingress (re_ip (se_router env))) js = Inr (map (\<lambda>x. (li_vo (snd x))\<lparr>in_name := []\<rparr>) (sv_listeners s))"
    using listed_ingresses [OF assms(1)] by blast
  have "length ?ns = length js" using mapM_Inr_length [OF js(2)] by simp
  then have names: "member_names (JObject (zip ?ns js)) = Inr ?ns"
    using assms(2) by (intro names_of_zip) (auto simp: names_travel_def)
  have get: "client_get (se_json env) (respond env) ''/ingresses'' s = (Inr (JObject (zip ?ns js)), s)"
    using js(1) assms(4) [OF js(1)] by (intro client_get_listing) (simp_all add: handle_fixed_target handle_ingresses_def)
  have "\<exists>s'. del_all (respond env) INGRESSES ?ns s = (Inr (), s') \<and> (?same s' \<and> tunnels_ready s') \<and>
      sv_listeners s' = filter (\<lambda>x. fst x \<notin> set ?ns) (sv_listeners s)"
  proof (rule del_all_ok)
    fix n t assume t: "?same t \<and> tunnels_ready t" and "n \<in> set ?ns"
    then have "n \<noteq> []" "set n \<inter> set ''?#/'' = {}" using assms(1) by (auto simp: vos_ok_def)
    then show "\<exists>s'. client_del (respond env) (target_of INGRESSES n) t = (Inr (), s') \<and> (?same s' \<and> tunnels_ready s') \<and>
        sv_listeners s' = AList.delete n (sv_listeners t)"
      using del_ingress [of n t env] t by auto
  qed (use assms(3) in simp)
  then obtain s' where "del_all (respond env) INGRESSES ?ns s = (Inr (), s')" "?same s'"
      "sv_listeners s' = filter (\<lambda>x. fst x \<notin> set ?ns) (sv_listeners s)" by blast
  moreover from this(3) have "sv_listeners s' = []" by (simp add: filter_empty_conv)
  ultimately show ?thesis using get names by blast
qed

text \<open>The tables while a reset goes on: fewer rules and egresses, and the direct one.\<close>

lemma reset_tables:
  assumes "vos_ok env s" and "names_travel s" and "sv_route t = default_route" and "sv_listeners t = sv_listeners s"
    and "sv_rules t = sv_rules s \<or> sv_rules t = []" and "distinct (map fst (sv_egresses t))"
    and "set (sv_egresses t) \<subseteq> insert (''direct'', empty_egress DIRECT) (set (sv_egresses s))"
  shows "vos_ok env t" and "names_travel t"
proof -
  have "wf_Egress ip (empty_egress DIRECT)" for ip by (simp add: wf_Egress_def empty_egress_def)
  then have "\<forall>(n, e) \<in> set (sv_egresses t). n \<noteq> [] \<and> wf_Egress (re_ip (se_router env)) e"
    using assms(1,7) by (auto simp: vos_ok_def)
  moreover have "wf_Route default_route" by (simp add: default_route_def wf_Route_def wf_string_def)
  ultimately show "vos_ok env t" using assms(1,3-6) by (auto simp: vos_ok_def)
  have direct: "travels ''direct''" by (simp add: travels_def)
  have "travels n" if "(n, e) \<in> set (sv_egresses t)" for n e
  proof -
    have "(n, e) = (''direct'', empty_egress DIRECT) \<or> (n, e) \<in> set (sv_egresses s)" using that assms(7) by auto
    then show ?thesis using assms(2) direct by (force simp: names_travel_def)
  qed
  then show "names_travel t" using assms(2,4,5) unfolding names_travel_def by (elim disjE) auto
qed

lemma filter_update_self: "distinct (map fst m) \<Longrightarrow> filter (\<lambda>x. fst x = k) (AList.update k v m) = [(k, v)]"
  by (induction m) (force simp: filter_empty_conv)+

text \<open>
  C32: A reset works from every state that accepted requests can produce: whatever ingresses, egresses, rules
  and route there were, once the API is connected each deletion of \<^verbatim>\<open>flush\<close> is accepted, no request of it fails, and it leaves the
  direct egress, a route that sends everything there, and nothing else.
\<close>

theorem flush_resets:
  assumes "server_new env = Inr s0" and "server_steps env es s0 = (Inr (), s)"
    and "names_travel s" and "tunnels_ready s" and "reset_documents env s" and "tl_connect lib rr s = (None, s)"
  shows "\<exists>s'. flush (se_json env) (respond env) lib rr s = (Inr (), s') \<and> sv_rules s' = [] \<and> sv_listeners s' = [] \<and>
    sv_egresses s' = [(''direct'', empty_egress DIRECT)] \<and> sv_route s' = default_route"
proof -
  let ?eg = "AList.update ''direct'' (empty_egress DIRECT) (sv_egresses s)"
  note reset = assms(5) [unfolded reset_documents_def]
  have ok: "vos_ok env s" "synced env s"
    using boot_keeps [OF assms(1,2)] reachable_ok [of env s] by (simp_all add: server_ok_def)
  obtain s1 where s1: "client_put (respond env) (target_of EGRESSES ''direct'') direct_text s = (Inr status_no_content, s1)"
      "sv_egresses s1 = ?eg" "sv_listeners s1 = sv_listeners s" "sv_rules s1 = sv_rules s" "sv_balancers s1 = sv_balancers s"
    using put_direct [OF ok(2)] reset by blast
  obtain s2 where s2: "client_put (respond env) (''/'' @ ROUTE) route_text s1 = (Inr status_no_content, s2)"
      "sv_route s2 = default_route" "sv_egresses s2 = ?eg" "sv_listeners s2 = sv_listeners s" "sv_rules s2 = sv_rules s"
      "sv_balancers s2 = sv_balancers s"
    using put_default_route [of s1 env] reset s1(2-5) by auto
  have dist: "distinct (map fst (sv_egresses s))" using ok(1) by (simp add: vos_ok_def)
  have eg: "distinct (map fst ?eg)" "set ?eg \<subseteq> insert (''direct'', empty_egress DIRECT) (set (sv_egresses s))"
    using dist by (auto simp: distinct_AList set_AList_update)
  note tables = reset_tables [OF ok(1) assms(3)]
  obtain d1 rs where r: "client_get (se_json env) (respond env) ''/rules'' s2 = (Inr d1, s2)" "member_names d1 = Inr rs"
      "del_all (respond env) RULES rs s2 = (Inr (), s2\<lparr>sv_rules := []\<rparr>)"
    using flush_rules [OF tables [of s2]] s2 eg reset by auto
  let ?s3 = "s2\<lparr>sv_rules := []\<rparr>"
  let ?s4 = "?s3\<lparr>sv_egresses := filter (\<lambda>x. fst x = ''direct'') ?eg\<rparr>"
  obtain d2 en where e: "client_get (se_json env) (respond env) ''/egresses'' ?s3 = (Inr d2, ?s3)" "member_names d2 = Inr en"
      "del_all (respond env) EGRESSES (filter (\<lambda>e. e \<noteq> ''direct'') en) ?s3 = (Inr (), ?s4)"
    using flush_egresses [OF tables [of ?s3]] s2 eg reset by auto
  have s4: "vos_ok env ?s4" "names_travel ?s4"
    using s2 eg by (intro tables; auto intro: distinct_map_filter)+
  obtain d3 ins s5 where i: "client_get (se_json env) (respond env) ''/ingresses'' ?s4 = (Inr d3, ?s4)" "member_names d3 = Inr ins"
      "del_all (respond env) INGRESSES ins ?s4 = (Inr (), s5)" "sv_listeners s5 = []" "sv_rules s5 = []"
      "sv_egresses s5 = filter (\<lambda>x. fst x = ''direct'') ?eg" "sv_route s5 = default_route"
    using flush_ingresses [OF s4] s2 reset assms(4) by (auto simp: tunnels_ready_def)
  have "flush (se_json env) (respond env) lib rr s = (Inr (), s5)"
    using assms(6) s1(1) s2(1) r e i(1-3) by (simp add: flush_def)
  moreover have "filter (\<lambda>x. fst x = ''direct'') ?eg = [(''direct'', empty_egress DIRECT)]" by (rule filter_update_self [OF dist])
  ultimately show ?thesis using i(4-7) by simp
qed

text \<open>A server with one rule, whose texts are the names of the documents.\<close>

definition sample_texts :: "(string \<times> json) list" where
  "sample_texts = sample_docs @
     [(direct_text, JObject [(''type'', JString ''direct'')]),
      (route_text, JObject [(''default'', JString ''direct''), (''rules'', JArray [])]),
      (''listing-rules'', JObject [(''r'', JObject [(rule_DOMAIN_NAME, JArray [JString ''example.com''])])]),
      (''listing-egresses'', JObject [(''direct'', JObject [(''type'', JString ''direct'')])]),
      (''listing-ingresses'', JObject [])]"

definition sample_client_env :: server_env where
  "sample_client_env = sample_server_env\<lparr>se_json := \<lparr>jt_parse = map_of sample_texts,
     jt_write = (\<lambda>j. case find (\<lambda>x. snd x = j) sample_texts of None \<Rightarrow> ''{}'' | Some x \<Rightarrow> fst x)\<rparr>\<rparr>"

definition sample_tcp :: "server tcp_lib" where
  "sample_tcp = \<lparr>tl_resolve = (\<lambda>_ _. Inr [(V4 [127, 0, 0, 1], 8080)]), tl_dial = (\<lambda>_ s. (None, s)), tl_connect = (\<lambda>_ s. (None, s))\<rparr>"

definition sample_ruled :: server where
  "sample_ruled = snd (server_steps sample_client_env [E_Request put_good_rule] (projr (server_new sample_client_env)))"

theorem flush_resets_witness:
  "map fst (sv_rules sample_ruled) = [''r''] \<and>
   (\<exists>s'. flush (se_json sample_client_env) (respond sample_client_env) sample_tcp [(V4 [127, 0, 0, 1], 8080)] sample_ruled = (Inr (), s') \<and> sv_rules s' = [] \<and>
    sv_listeners s' = [] \<and> sv_egresses s' = [(''direct'', empty_egress DIRECT)] \<and> sv_route s' = default_route)"
proof
  show "map fst (sv_rules sample_ruled) = [''r'']" by code_simp
  have 1: "server_new sample_client_env = Inr (projr (server_new sample_client_env))"
    using server_new_total [of sample_client_env] by auto
  have "fst (server_steps sample_client_env [E_Request put_good_rule] (projr (server_new sample_client_env))) = Inr ()" by code_simp
  then have 2: "server_steps sample_client_env [E_Request put_good_rule] (projr (server_new sample_client_env)) = (Inr (), sample_ruled)"
    by (simp add: prod_eq_iff sample_ruled_def)
  have 3: "names_travel sample_ruled" "tunnels_ready sample_ruled" by code_simp+
  have reads: "(\<forall>j. x = Inr j \<longrightarrow> P j) \<longleftrightarrow> (case x of Inl _ \<Rightarrow> True | Inr j \<Rightarrow> P j)" for x :: "json result" and P
    by (cases x) auto
  have 4: "reset_documents sample_client_env sample_ruled" unfolding reset_documents_def reads by code_simp
  have 5: "tl_connect sample_tcp [(V4 [127, 0, 0, 1], 8080)] sample_ruled = (None, sample_ruled)"
    by (simp add: sample_tcp_def)
  show "\<exists>s'. flush (se_json sample_client_env) (respond sample_client_env) sample_tcp [(V4 [127, 0, 0, 1], 8080)] sample_ruled = (Inr (), s') \<and> sv_rules s' = [] \<and>
      sv_listeners s' = [] \<and> sv_egresses s' = [(''direct'', empty_egress DIRECT)] \<and> sv_route s' = default_route"
    by (rule flush_resets [OF 1 2 3 4 5])
qed

end
