(* ===== verification/Pichi_Serve.thy ===== *)
theory Pichi_Serve
  imports Pichi_Session Pichi_Client
begin

text \<open>
  The loops that accept connections: \<^verbatim>\<open>Server::serve\<close> and \<^verbatim>\<open>Server::do_session\<close> (\<^verbatim>\<open>src/actor/server.cpp\<close>), which serve the API, and
  \<^verbatim>\<open>Listener::listen\<close> (\<^verbatim>\<open>src/actor/listener.cpp\<close>), which starts the sessions of an ingress.

  What the operating system and the HTTP parser deliver is a list: a loop takes its elements one after the other, and a list
  that has ended stands for a socket or an acceptor that is not open any more.
\<close>

section \<open>API connections\<close>

text \<open>
  A request is delivered with the wish of its sender to keep the connection alive, and so is a response sent. An
  exception that \<open>handle\<close> does not turn into a response leaves the coroutine.
\<close>

record api_connection =
  ac_server :: server
  ac_sent :: "(Response \<times> bool) list"

fun api_loop :: "server_env \<Rightarrow> (error_code + Request \<times> bool) list \<Rightarrow> (api_connection, unit) io" where
  "api_loop env [] = ioret (Inr ())"
| "api_loop env (Inl ec # reads) = ioret (Inl (SystemError ec ''''))"
| "api_loop env (Inr (req, alive) # reads) =
     (\<lambda>c. case respond env req (ac_server c) of
        (Inl e, s) \<Rightarrow> (Inl e, c\<lparr>ac_server := s\<rparr>)
      | (Inr rep, s) \<Rightarrow>
          (let c' = c\<lparr>ac_server := s, ac_sent := ac_sent c @ [(rep, alive)]\<rparr> in
           if alive then api_loop env reads c' else (Inr (), c')))"

definition do_session ::
  "server_env \<Rightarrow> 'e clients \<Rightarrow> 'e \<Rightarrow> (error_code + Request \<times> bool) list \<Rightarrow> (api_connection, unit) io" where
  "do_session env clients remote reads =
     iobind (ioret (fst (clients_contains remote clients))) (\<lambda>known.
     iobind (ioret (assertFalse known MISC '''')) (\<lambda>_.
     api_loop env reads))"

text \<open>\<^verbatim>\<open>serve\<close>: the pool of local connections is started, and every accepted connection gets its own coroutine.\<close>

fun spawn_all :: "(error_code + 'c) list \<Rightarrow> 'c list \<times> unit result" where
  "spawn_all [] = ([], Inr ())"
| "spawn_all (Inl ec # accepts) = ([], Inl (SystemError ec ''''))"
| "spawn_all (Inr c # accepts) = (case spawn_all accepts of (cs, r) \<Rightarrow> (c # cs, r))"

definition serve :: "error_code option \<Rightarrow> (error_code + 'c) list \<Rightarrow> 'e clients \<Rightarrow> ('c list \<times> unit result) \<times> 'e clients" where
  "serve opened accepts clients =
     (case opened of
        Some ec \<Rightarrow> (([], Inl (SystemError ec '''')), clients)
      | None \<Rightarrow> (spawn_all accepts, clients_initialize clients))"

section \<open>Connections of an ingress\<close>

text \<open>
  The loop of \<^verbatim>\<open>listen\<close> behind the balancer of a tunnel (\<open>run_posted\<close>): a connection is accepted, and a session started with the
  router that the listener has at that moment. An acceptor that is cancelled ends the loop, every other error is
  thrown.
\<close>

fun listen_loop :: "(error_code + 's \<times> Router) list \<Rightarrow> ('s \<times> Router) list \<times> unit result" where
  "listen_loop [] = ([], Inr ())"
| "listen_loop (Inl ec # accepts) =
     (if ec = Asio_code asio_operation_aborted then ([], Inr ()) else ([], Inl (SystemError ec '''')))"
| "listen_loop (Inr (s, router) # accepts) = (case listen_loop accepts of (ss, r) \<Rightarrow> ((s, router) # ss, r))"

section \<open>Properties\<close>

lemma do_session_known:
  assumes "tc_strand clients"
  shows "do_session env clients remote reads c =
    (if remote \<in> tc_known clients then (Inl (SystemError (Pichi_code MISC) ''''), c) else api_loop env reads c)"
  using clients_contains_known [OF assms, of remote] by (simp add: do_session_def iobind_def fail_with_def makeErrorCode_def)

lemma direct_connect_posts:
  assumes "direct_connect net peer (sv, s) = (Inr (), (sv', s'))" and "nt_local net s' = Inr here"
  shows "tc_strand (svc_clients sv)" and "svc_clients sv' = clients_post (Emplace here) (svc_clients sv)"
  using assms by (auto simp: direct_connect_def clients_insert_def split: sum.splits prod.splits if_splits)

lemma direct_close_posts:
  assumes "direct_close net (sv, s) = (Inr (), (sv', s'))" and "nt_local net s = Inr here"
  shows "tc_strand (svc_clients sv)" and "svc_clients sv' = clients_post (Erase here) (svc_clients sv)"
  using assms by (auto simp: direct_close_def clients_remove_def split: sum.splits prod.splits if_splits)

text \<open>
  C34: When a client can configure the server through the server. Once \<^verbatim>\<open>connect\<close> of a direct egress has returned, a connection to
  the API that comes from the local endpoint of that egress is refused before any of its requests is read, for every state of the
  server, and although the insertion into the pool is only posted to its strand: whatever others post and however much
  of it the strand has run, until the removal that \<^verbatim>\<open>close\<close> posts. After \<^verbatim>\<open>close\<close> the endpoint is free again. A connection that the
  API server has accepted before \<^verbatim>\<open>connect\<close> has posted the insertion is not refused: it is served like any other.
\<close>

theorem proxied_client_refused:
  assumes "direct_connect net peer (sv, s) = (Inr (), (sv', s'))" and "nt_local net s' = Inr here"
  shows "(\<forall>vs. Posted (Erase here) \<notin> set vs \<longrightarrow>
      do_session env (fold clients_event vs (svc_clients sv')) here reads c = (Inl (SystemError (Pichi_code MISC) ''''), c)) \<and>
    (\<forall>sv1 sv'' s1 s'' vs. direct_close net (sv1, s1) = (Inr (), (sv'', s'')) \<longrightarrow> nt_local net s1 = Inr here \<longrightarrow>
      Posted (Emplace here) \<notin> set vs \<longrightarrow>
      do_session env (fold clients_event vs (svc_clients sv'')) here reads c = api_loop env reads c) \<and>
    (\<forall>vs. here \<notin> tc_known (svc_clients sv) \<longrightarrow> Posted (Emplace here) \<notin> set vs \<longrightarrow>
      do_session env (fold clients_event vs (svc_clients sv)) here reads c = api_loop env reads c)"
proof (intro conjI allI impI)
  note connect = direct_connect_posts [OF assms]
  show "do_session env (fold clients_event vs (svc_clients sv')) here reads c = (Inl (SystemError (Pichi_code MISC) ''''), c)"
    if "Posted (Erase here) \<notin> set vs" for vs
    using clients_events_known(1) [OF _ that, of "svc_clients sv'"] connect by (simp add: do_session_known)
  show "do_session env (fold clients_event vs (svc_clients sv)) here reads c = api_loop env reads c"
    if "here \<notin> tc_known (svc_clients sv)" and "Posted (Emplace here) \<notin> set vs" for vs
    using clients_events_known(2) [OF that] connect by (simp add: do_session_known)
  show "do_session env (fold clients_event vs (svc_clients sv'')) here reads c = api_loop env reads c"
    if "direct_close net (sv1, s1) = (Inr (), (sv'', s''))" and "nt_local net s1 = Inr here"
      and "Posted (Emplace here) \<notin> set vs" for sv1 s1 sv'' s'' vs
    using clients_events_known(2) [OF _ that(3), of "svc_clients sv''"] direct_close_posts [OF that(1,2)]
    by (simp add: do_session_known)
qed

theorem proxied_client_refused_witness:
  "\<exists>sv' s'. direct_connect sample_net sample_target (sample_services, sample_socket []) = (Inr (), (sv', s')) \<and>
    tc_pool (svc_clients sv') = {} \<and>
    do_session sample_server_env (fold clients_event [Posted (Erase (V4 [127, 0, 0, 1], 99)), Strand_runs] (svc_clients sv'))
      (V4 [127, 0, 0, 1], 1234) [Inr (put_socks, True)] \<lparr>ac_server = sample_boot, ac_sent = []\<rparr> =
      (Inl (SystemError (Pichi_code MISC) ''''), \<lparr>ac_server = sample_boot, ac_sent = []\<rparr>) \<and>
    do_session sample_server_env (svc_clients sample_services) (V4 [127, 0, 0, 1], 1234) [] \<lparr>ac_server = sample_boot, ac_sent = []\<rparr> =
      api_loop sample_server_env [] \<lparr>ac_server = sample_boot, ac_sent = []\<rparr>"
proof -
  let ?here = "(V4 [127, 0, 0, 1], 1234) :: local_endpoint" and ?vs = "[Posted (Erase (V4 [127, 0, 0, 1], 99)), Strand_runs]"
  let ?sv = "sample_services\<lparr>svc_clients := clients_post (Emplace ?here) (svc_clients sample_services)\<rparr>"
  have 1: "direct_connect sample_net sample_target (sample_services, sample_socket []) = (Inr (), (?sv, sample_socket []))"
    by (simp add: direct_connect_def sample_net_def socket_layer_def clients_insert_def sample_services_def clients_initialize_def)
  have 2: "nt_local sample_net (sample_socket []) = Inr ?here" by (simp add: sample_net_def)
  have 3: "Posted (Erase ?here) \<notin> set ?vs" "?here \<notin> tc_known (svc_clients sample_services)" "Posted (Emplace ?here) \<notin> set []"
    by (simp_all add: tc_known_def sample_services_def clients_initialize_def clients_new_def)
  have 4: "tc_pool (svc_clients ?sv) = {}" by (simp add: sample_services_def clients_initialize_def clients_new_def clients_post_def)
  note refused = proxied_client_refused [OF 1 2, of sample_server_env]
  show ?thesis
    using 1 4 refused [THEN conjunct1, rule_format, OF 3(1)] refused [THEN conjunct2, THEN conjunct2, rule_format, OF 3(2,3)]
    by (intro exI [of _ ?sv] exI [of _ "sample_socket []"] conjI) simp_all
qed

end
