(* ===== verification/Pichi_Transparent.thy ===== *)
theory Pichi_Transparent
  imports Pichi_Session
begin

text \<open>
  The transparent ingress in the build for pf (\<^verbatim>\<open>TRANSPARENT_PF\<close> of \<^verbatim>\<open>src/adapter/tcp/transparent.cpp\<close>), beside the one for iptables in
  \<open>Pichi_Adapter\<close>. The device and its table of translations are parameters; a request to the table is the structure that
  the sources fill.
\<close>

section \<open>Addresses in a request\<close>

datatype family = AF_INET | AF_INET6

definition address_family :: "bool \<Rightarrow> family" where
  "address_family is_v6 = (if is_v6 then AF_INET6 else AF_INET)"

text \<open>\<^verbatim>\<open>to_v4\<close> and \<^verbatim>\<open>to_v6\<close> of an address throw when it is of the other family, also when it is a mapped one.\<close>

fun to_v4 :: "ip_address \<Rightarrow> bytes result" where
  "to_v4 (V4 b) = Inr b"
| "to_v4 (V6 b) = Inl BadAddressCast"

fun to_v6 :: "ip_address \<Rightarrow> bytes result" where
  "to_v6 (V6 b) = Inr b"
| "to_v6 (V4 b) = Inl BadAddressCast"

definition a2b :: "bytes \<Rightarrow> bytes \<Rightarrow> bytes" where
  "a2b src dst = src @ drop (length src) dst"

definition address2buf :: "bool \<Rightarrow> ip_address \<Rightarrow> bytes \<Rightarrow> bytes result" where
  "address2buf is_v6 src dst =
     rthen (assertTrue (is_v6 = address_is_v6 src) MISC '''')
      (if is_v6 then rbind (to_v6 src) (\<lambda>b. Inr (a2b b dst)) else rbind (to_v4 src) (\<lambda>b. Inr (a2b b dst)))"

section \<open>The device\<close>

record pfioc_natlook =
  pn_saddr :: bytes
  pn_daddr :: bytes
  pn_rdaddr :: bytes
  pn_sport :: bytes
  pn_dport :: bytes
  pn_rdport :: bytes
  pn_af :: "family option"
  pn_proto :: nat
  pn_direction :: nat

abbreviation PF_OUT :: nat where "PF_OUT \<equiv> 2"
abbreviation IPPROTO_TCP :: nat where "IPPROTO_TCP \<equiv> 6"

definition natlook_zero :: pfioc_natlook where
  "natlook_zero = \<lparr>pn_saddr = replicate 16 0, pn_daddr = replicate 16 0, pn_rdaddr = replicate 16 0,
     pn_sport = [0, 0], pn_dport = [0, 0], pn_rdport = [0, 0], pn_af = None, pn_proto = 0, pn_direction = 0\<rparr>"

text \<open>
  \<open>pf_open\<close> is the descriptor of \<^verbatim>\<open>/dev/pf\<close>, \<open>pf_ioctl\<close> the call with \<^verbatim>\<open>DIOCNATLOOK\<close>, which completes the structure, \<open>pf_remote\<close> the remote endpoint of
  a socket.
\<close>

record 's pf_lib =
  pf_open :: "nat option"
  pf_ioctl :: "nat \<Rightarrow> pfioc_natlook \<Rightarrow> pfioc_natlook option"
  pf_remote :: "'s \<Rightarrow> local_endpoint result"

definition pf_reader_new :: "'s pf_lib \<Rightarrow> nat result" where
  "pf_reader_new pf = (case pf_open pf of None \<Rightarrow> fail_misc ''Unable to open PF device'' | Some fd \<Rightarrow> Inr fd)"

definition pf_read_remote :: "ip_lib \<Rightarrow> 's pf_lib \<Rightarrow> nat \<Rightarrow> local_endpoint \<Rightarrow> local_endpoint \<Rightarrow> Endpoint result" where
  "pf_read_remote ip pf fd src dst =
     (let is_v6 = address_is_v6 (fst src);
          pnl = natlook_zero\<lparr>pn_direction := PF_OUT, pn_af := Some (address_family is_v6), pn_proto := IPPROTO_TCP\<rparr> in
      rbind (address2buf is_v6 (fst src) (pn_saddr pnl)) (\<lambda>sa.
      rbind (address2buf is_v6 (fst dst) (pn_daddr pnl)) (\<lambda>da.
      let req = pnl\<lparr>pn_saddr := sa, pn_daddr := da, pn_sport := hton16 (snd src), pn_dport := hton16 (snd dst)\<rparr> in
      case pf_ioctl pf fd req of
        None \<Rightarrow> fail_misc ''Unable to read PF status table''
      | Some ans \<Rightarrow> rbind (ntoh16 (pn_rdport ans)) (makeEndpoint ip (buf2address ip is_v6 (pn_rdaddr ans))))))"

text \<open>
  \<^verbatim>\<open>TransparentIngress::read_remote\<close>: the reader is a static object that the first call creates; a constructor that throws
  leaves it to the next call.
\<close>

definition pf_transparent_read_remote ::
  "('s, 'x, 'd) net \<Rightarrow> 's pf_lib \<Rightarrow> (nat option \<times> 's, Endpoint) io" where
  "pf_transparent_read_remote net pf st =
     (case (case fst st of None \<Rightarrow> pf_reader_new pf | Some fd \<Rightarrow> Inr fd) of
        Inl e \<Rightarrow> (Inl e, st)
      | Inr fd \<Rightarrow>
          (rbind (pf_remote pf (snd st)) (\<lambda>src. rbind (nt_local net (snd st)) (\<lambda>dst.
             pf_read_remote (nt_ip net) pf fd src dst)), (Some fd, snd st)))"

section \<open>What the kernel recorded\<close>

fun address_bytes :: "ip_address \<Rightarrow> bytes" where
  "address_bytes (V4 b) = b"
| "address_bytes (V6 b) = b"

fun address_ok :: "ip_address \<Rightarrow> bool" where
  "address_ok (V4 b) \<longleftrightarrow> length b = 4"
| "address_ok (V6 b) \<longleftrightarrow> length b = 16 \<and> \<not> is_v4_mapped b"

fun address_endpoint :: "ip_lib \<Rightarrow> ip_address \<Rightarrow> u16 \<Rightarrow> Endpoint" where
  "address_endpoint ip (V4 b) p = \<lparr>ep_type = IPV4, ep_host = v4_to_string ip b, ep_port = p\<rparr>"
| "address_endpoint ip (V6 b) p = \<lparr>ep_type = IPV6, ep_host = v6_to_string ip b, ep_port = p\<rparr>"

text \<open>The request for a connection from \<open>src\<close> that arrived at \<open>dst\<close>, as the manual of pf describes it.\<close>

definition natlook_request :: "local_endpoint \<Rightarrow> local_endpoint \<Rightarrow> pfioc_natlook" where
  "natlook_request src dst =
     \<lparr>pn_saddr = a2b (address_bytes (fst src)) (replicate 16 0), pn_daddr = a2b (address_bytes (fst dst)) (replicate 16 0),
      pn_rdaddr = replicate 16 0, pn_sport = hton16 (snd src), pn_dport = hton16 (snd dst), pn_rdport = [0, 0],
      pn_af = Some (address_family (address_is_v6 (fst src))), pn_proto = IPPROTO_TCP, pn_direction = PF_OUT\<rparr>"

lemma address_is_v6_ok: "address_ok a \<Longrightarrow> address_is_v6 a \<longleftrightarrow> (\<exists>b. a = V6 b)"
  by (cases a) auto

lemma makeEndpoint_address:
  assumes "ip_laws ip" and "address_ok a"
  shows "makeEndpoint ip (buf2address ip (address_is_v6 a) (a2b (address_bytes a) dst)) p = Inr (address_endpoint ip a p)"
proof (cases a)
  case (V4 b)
  then have "make_address ip (v4_to_string ip b) = Some (V4 b)" "v4_to_string ip b \<noteq> []"
    using assms unfolding ip_laws_def by auto
  then show ?thesis using V4 assms(2) by (simp add: makeEndpoint_def detectHostType_def buf2address_def a2b_def)
next
  case (V6 b)
  then have "make_address ip (v6_to_string ip b) = Some (V6 b)" "v6_to_string ip b \<noteq> []"
    using assms unfolding ip_laws_def by auto
  then show ?thesis using V6 assms(2) by (simp add: makeEndpoint_def detectHostType_def buf2address_def a2b_def)
qed

lemma address2buf_ok:
  assumes "address_ok a" and "v6 = address_is_v6 a"
  shows "address2buf v6 a dst = Inr (a2b (address_bytes a) dst)"
  using assms by (cases a) (simp_all add: address2buf_def)

lemma pf_request:
  assumes "address_ok (fst src)" and "address_ok (fst dst)" and "address_is_v6 (fst dst) = address_is_v6 (fst src)"
  shows "pf_read_remote ip pf fd src dst =
    (case pf_ioctl pf fd (natlook_request src dst) of
       None \<Rightarrow> fail_misc ''Unable to read PF status table''
     | Some ans \<Rightarrow> rbind (ntoh16 (pn_rdport ans)) (makeEndpoint ip (buf2address ip (address_is_v6 (fst src)) (pn_rdaddr ans))))"
  using assms by (simp add: pf_read_remote_def address2buf_ok Let_def natlook_zero_def natlook_request_def)

section \<open>Clients with mapped addresses\<close>

text \<open>
  A client with a mapped address, which a listener for both families accepts, is taken for an IPv4 client by both builds. The one
  for pf then asks for its IPv4 address with \<^verbatim>\<open>to_v4\<close>, which throws an exception that no handler of the session catches: the process
  ends.
\<close>

lemma mapped_client_terminates:
  assumes "pf_remote pf s = Inr (V6 b, port)" and "is_v4_mapped b" and "nt_local net s = Inr dst" and "pf_open pf = Some fd"
  shows "fst (redirect (pf_transparent_read_remote net pf) (fdo, s)) = Inl BadAddressCast \<and>
    detached_handler BadAddressCast = F_terminate"
  using assms by (cases fdo) (simp_all add: redirect_def pf_transparent_read_remote_def pf_reader_new_def pf_read_remote_def address2buf_def
      detached_handler_def Let_def)

lemma mapped_client_iptables:
  assumes "ip_laws (nt_ip net)" and "nt_remote net s = Inr (V6 b)" and "is_v4_mapped b" and "length o4 = 4"
    and "nt_getsockopt net False s = Inr (a2b o4 sa, hton16 p)"
  shows "fst (transparent_read_remote net s) = Inr (address_endpoint (nt_ip net) (V4 o4) p)"
  using assms(2-5) makeEndpoint_address [OF assms(1), of "V4 o4" sa p]
  by (simp add: transparent_read_remote_def assertSuccess_def Let_def)

section \<open>Properties\<close>

text \<open>
  C40: For a client whose address is not a mapped one, the two builds of the transparent ingress report the same thing, the destination that
  the kernel recorded before it redirected the connection: the address in the family of the client, as text that parses back to it, and the
  port in the byte order of the host. For pf the table is asked with the addresses and ports of the connection itself. A client with an
  IPv4-mapped address, which a listener for both families accepts, is taken for an IPv4 client by both builds: the one for iptables
  reports its IPv4 destination, the one for pf throws an exception that ends the process.
\<close>

theorem transparent_reads_original:
  assumes "ip_laws (nt_ip net)" and "address_ok (fst src)" and "address_ok (fst dst)" and "address_ok orig"
    and "address_is_v6 (fst dst) = address_is_v6 (fst src)" and "address_is_v6 orig = address_is_v6 (fst src)"
    and "nt_remote net s = Inr (fst src)"
    and "nt_getsockopt net (address_is_v6 (fst src)) s = Inr (a2b (address_bytes orig) sa, hton16 p)"
    and "pf_remote pf s = Inr src" and "nt_local net s = Inr dst" and "pf_open pf = Some fd"
    and "pf_ioctl pf fd (natlook_request src dst) = Some ans"
    and "pn_rdaddr ans = a2b (address_bytes orig) rest" and "pn_rdport ans = hton16 p"
  shows "fst (transparent_read_remote net s) = Inr (address_endpoint (nt_ip net) orig p) \<and>
    pf_transparent_read_remote net pf (None, s) = (Inr (address_endpoint (nt_ip net) orig p), (Some fd, s)) \<and>
    pf_transparent_read_remote net pf (Some fd, s) = (Inr (address_endpoint (nt_ip net) orig p), (Some fd, s)) \<and>
    (\<forall>m b o4 sa4 p4. nt_remote net m = Inr (V6 b) \<longrightarrow> is_v4_mapped b \<longrightarrow> length o4 = 4 \<longrightarrow>
      nt_getsockopt net False m = Inr (a2b o4 sa4, hton16 p4) \<longrightarrow>
      fst (transparent_read_remote net m) = Inr (address_endpoint (nt_ip net) (V4 o4) p4)) \<and>
    (\<forall>fdo m b port here. pf_remote pf m = Inr (V6 b, port) \<longrightarrow> is_v4_mapped b \<longrightarrow> nt_local net m = Inr here \<longrightarrow>
      fst (redirect (pf_transparent_read_remote net pf) (fdo, m)) = Inl BadAddressCast \<and>
      detached_handler BadAddressCast = F_terminate)"
proof (intro conjI)
  note ep = makeEndpoint_address [OF assms(1,4), unfolded assms(6)]
  show "fst (transparent_read_remote net s) = Inr (address_endpoint (nt_ip net) orig p)"
    using assms(7,8) ep by (simp add: transparent_read_remote_def assertSuccess_def Let_def)
  have "pf_read_remote (nt_ip net) pf fd src dst = Inr (address_endpoint (nt_ip net) orig p)"
    using assms(12-14) ep by (simp add: pf_request [OF assms(2,3,5)])
  then show "pf_transparent_read_remote net pf (None, s) = (Inr (address_endpoint (nt_ip net) orig p), (Some fd, s))"
    "pf_transparent_read_remote net pf (Some fd, s) = (Inr (address_endpoint (nt_ip net) orig p), (Some fd, s))"
    using assms(9-11) by (simp_all add: pf_transparent_read_remote_def pf_reader_new_def)
qed (intro allI impI, (rule mapped_client_iptables [OF assms(1)] mapped_client_terminates [OF _ _ _ assms(11)]; assumption))+

definition sample_pf :: "socket pf_lib" where
  "sample_pf = \<lparr>pf_open = Some 3,
     pf_ioctl = (\<lambda>fd req. if pn_saddr req = [10, 0, 0, 1] @ replicate 12 0 \<and> pn_sport req = [4, 210]
       then Some (req\<lparr>pn_rdaddr := [10, 0, 0, 2] @ replicate 12 0, pn_rdport := [0, 80]\<rparr>) else None),
     pf_remote = (\<lambda>_. Inr (V4 [10, 0, 0, 1], 1234))\<rparr>"

lemma sample_ports: "hton16 1234 = [4, 210]" "hton16 80 = [0, 80]"
  by code_simp+

theorem transparent_reads_original_witness:
  "fst (transparent_read_remote sample_net (sample_socket [])) = Inr (address_endpoint sample_ip (V4 [10, 0, 0, 2]) 80) \<and>
   fst (pf_transparent_read_remote sample_net sample_pf (None, sample_socket [])) =
     Inr (address_endpoint sample_ip (V4 [10, 0, 0, 2]) 80)"
proof -
  let ?src = "(V4 [10, 0, 0, 1], 1234)" and ?dst = "(V4 [127, 0, 0, 1], 1234)"
  let ?ans = "(natlook_request ?src ?dst)\<lparr>pn_rdaddr := [10, 0, 0, 2] @ replicate 12 0, pn_rdport := [0, 80]\<rparr>"
  have ioctl: "pf_ioctl sample_pf 3 (natlook_request ?src ?dst) = Some ?ans"
    by (simp add: sample_pf_def natlook_request_def a2b_def sample_ports eval_nat_numeral)
  have hyps: "ip_laws (nt_ip sample_net)" "address_ok (fst ?src)" "address_ok (fst ?dst)" "address_ok (V4 [10, 0, 0, 2])"
    "address_is_v6 (fst ?dst) = address_is_v6 (fst ?src)" "address_is_v6 (V4 [10, 0, 0, 2]) = address_is_v6 (fst ?src)"
    "nt_remote sample_net (sample_socket []) = Inr (fst ?src)"
    "nt_getsockopt sample_net (address_is_v6 (fst ?src)) (sample_socket []) = Inr (a2b (address_bytes (V4 [10, 0, 0, 2])) [], hton16 80)"
    "pf_remote sample_pf (sample_socket []) = Inr ?src" "nt_local sample_net (sample_socket []) = Inr ?dst" "pf_open sample_pf = Some 3"
    by (simp_all add: sample_net_def sample_ip_laws sample_pf_def a2b_def sample_ports)
  have ans: "pn_rdaddr ?ans = a2b (address_bytes (V4 [10, 0, 0, 2])) (replicate 16 0)" "pn_rdport ?ans = hton16 80"
    by (simp_all add: a2b_def sample_ports eval_nat_numeral)
  note original = transparent_reads_original [OF hyps ioctl ans]
  show ?thesis
    using original [THEN conjunct1] original [THEN conjunct2, THEN conjunct1] by (simp add: sample_net_def)
qed

end
