(* ===== verification/Pichi_Program.thy ===== *)
theory Pichi_Program
  imports Pichi_Serve Pichi_Transparent
begin

text \<open>
  The programs around the server: \<^verbatim>\<open>main\<close> (\<^verbatim>\<open>server/main.cpp\<close>), \<^verbatim>\<open>run\<close> (\<^verbatim>\<open>server/run.cpp\<close>) and the entry of the library, \<^verbatim>\<open>pichi_run_server\<close>
  (\<^verbatim>\<open>src/pichi.cpp\<close>), in the build with \<^verbatim>\<open>fork\<close>, \<^verbatim>\<open>setsid\<close>, \<^verbatim>\<open>close\<close>, \<^verbatim>\<open>setgid\<close>, \<^verbatim>\<open>getgrnam\<close>, \<^verbatim>\<open>setuid\<close> and \<^verbatim>\<open>getpwnam\<close>.

  The operating system is a function that answers a call, knowing what has happened before; what has
  happened is the state of the program, a list of events.
\<close>

section \<open>The event loop\<close>

text \<open>
  \<^verbatim>\<open>io_context::run\<close>: coroutines end one after the other, the server and the sessions in the detached handler, the client in the handler of
  \<^verbatim>\<open>run\<close>, which stops the loop when the client has failed. The loop returns when it is stopped or nothing is left to do.
\<close>

datatype completion = Detached_ends "unit result" | Client_ends "unit result"

definition uncatchable :: "exn \<Rightarrow> bool" where
  "uncatchable e \<longleftrightarrow> e \<in> {UB, Diverges, Terminated}"

fun io_run :: "completion list \<Rightarrow> unit result" where
  "io_run [] = Inr ()"
| "io_run (Detached_ends (Inr _) # cs) = io_run cs"
| "io_run (Detached_ends (Inl e) # cs) =
     (case detached_handler e of
        F_terminate \<Rightarrow> Inl Terminated | F_undefined \<Rightarrow> Inl e | _ \<Rightarrow> io_run cs)"
| "io_run (Client_ends (Inr _) # cs) = io_run cs"
| "io_run (Client_ends (Inl e) # cs) = (if uncatchable e then Inl e else Inr ())"

text \<open>
  What the two coroutines of \<^verbatim>\<open>run\<close> meet: the acceptor and the connections of the server; the API as the client reaches it, the contents of its
  file. \<open>wo_schedule\<close> puts their ends in order, among the ends of the sessions that the server starts, and leaves out an
  end that does not come (a client that waits for signals, a server that waits for connections).
\<close>

record ('c, 's) world =
  wo_opened :: "local_endpoint \<Rightarrow> error_code option"
  wo_accepts :: "(error_code + 'c) list"
  wo_clients :: "local_endpoint clients"
  wo_json :: json_text
  wo_api :: "Request \<Rightarrow> ('s, Response) io"
  wo_tcp :: "'s tcp_lib"
  wo_state :: 's
  wo_file :: string
  wo_files :: "string list"
  wo_schedule :: "completion option \<Rightarrow> completion option \<Rightarrow> completion list"

definition server_ends :: "('c, 's) world \<Rightarrow> local_endpoint \<Rightarrow> completion" where
  "server_ends w ep = Detached_ends (snd (fst (serve (wo_opened w ep) (wo_accepts w) (wo_clients w))))"

definition client_ends :: "('c, 's) world \<Rightarrow> string \<Rightarrow> u16 \<Rightarrow> string \<Rightarrow> completion" where
  "client_ends w bind port fn =
     Client_ends (rbind (fst (client_run (wo_json w) (wo_api w) (wo_tcp w) fn bind port (wo_file w) (wo_files w) (wo_state w)))
       (\<lambda>_. Inr ()))"

definition run_program :: "ip_lib \<Rightarrow> mmdb_lib \<Rightarrow> ('c, 's) world \<Rightarrow> string \<Rightarrow> u16 \<Rightarrow> string \<Rightarrow> string \<Rightarrow> unit result" where
  "run_program ip lib w bind port fn mmdb =
     rthen (if mmdb \<noteq> [] then fst (mmdb_initialize lib mmdb mmdb_new) else Inr ())
    (rbind (throwing_address ip bind) (\<lambda>a.
     io_run (wo_schedule w (Some (server_ends w (a, port))) (Some (client_ends w bind port fn)))))"

section \<open>The library entry\<close>

text \<open>
  The event loop and its services are static: a second call finds the loop stopped, in which state \<^verbatim>\<open>run\<close> returns at once, and the database of
  the first call. \<open>bind\<close> and \<open>mmdb\<close> are C strings or null.
\<close>

record library =
  lb_stopped :: bool
  lb_mmdb :: mmdb

definition library_new :: library where
  "library_new = \<lparr>lb_stopped = False, lb_mmdb = mmdb_new\<rparr>"

definition library_run ::
  "ip_lib \<Rightarrow> mmdb_lib \<Rightarrow> ('c, 's) world \<Rightarrow> string option \<Rightarrow> u16 \<Rightarrow> string option \<Rightarrow> (library, unit) io" where
  "library_run ip lib w bind port mmdb =
     iobind (ioret (assertFalse (bind = None) MISC '''')) (\<lambda>_.
     iobind (\<lambda>l. case mmdb of
               None \<Rightarrow> (Inr (), l)
             | Some fn \<Rightarrow> (case mmdb_initialize lib fn (lb_mmdb l) of (r, m) \<Rightarrow> (r, l\<lparr>lb_mmdb := m\<rparr>))) (\<lambda>_.
     iobind (ioret (throwing_address ip (the bind))) (\<lambda>a l.
     if lb_stopped l then (Inr (), l)
     else (io_run (wo_schedule w (Some (server_ends w (a, port))) None), l\<lparr>lb_stopped := True\<rparr>))))"

datatype process_end = Exit int | Crash exn

definition pichi_run_server ::
  "ip_lib \<Rightarrow> mmdb_lib \<Rightarrow> ('c, 's) world \<Rightarrow> string option \<Rightarrow> u16 \<Rightarrow> string option \<Rightarrow>
     library \<Rightarrow> process_end \<times> library" where
  "pichi_run_server ip lib w bind port mmdb l =
     (case library_run ip lib w bind port mmdb l of
        (Inr _, l') \<Rightarrow> (Exit 0, l')
      | (Inl e, l') \<Rightarrow> (if uncatchable e then Crash e else Exit (- 1), l'))"

section \<open>The command line\<close>

text \<open>What Boost.Program_options finds on the command line, and the variables of \<^verbatim>\<open>main\<close> with their default values.\<close>

record parsed =
  pa_help :: bool
  pa_version :: bool
  pa_daemon :: bool
  pa_listen :: "string option"
  pa_port :: "u16 option"
  pa_geo :: "string option"
  pa_config :: "string option"
  pa_pid :: "string option"
  pa_log :: "string option"
  pa_user :: "string option"
  pa_group :: "string option"

definition or_default :: "string \<Rightarrow> string option \<Rightarrow> string" where
  "or_default d v = (case v of None \<Rightarrow> d | Some x \<Rightarrow> x)"

definition opt_listen :: "parsed \<Rightarrow> string" where "opt_listen vm = or_default ''::1'' (pa_listen vm)"
definition opt_pid :: "parsed \<Rightarrow> string" where "opt_pid vm = or_default ''/var/run/pichi.pid'' (pa_pid vm)"
definition opt_log :: "parsed \<Rightarrow> string" where "opt_log vm = or_default ''/var/log/pichi.log'' (pa_log vm)"
definition opt_user :: "parsed \<Rightarrow> string" where "opt_user vm = or_default '''' (pa_user vm)"
definition opt_group :: "parsed \<Rightarrow> string" where "opt_group vm = or_default '''' (pa_group vm)"

section \<open>System calls\<close>

datatype syscall =
    Chdir string
  | Fork
  | Create_directories string
  | Write_file string string
  | Setsid
  | Close nat
  | Freopen string nat
  | Getgrnam string
  | Setgid nat
  | Getpwnam string
  | Setuid nat

text \<open>
  A call is answered with a number (a process, a group, a user, otherwise 0) or fails with the value that \<^verbatim>\<open>errno\<close> has then; a
  function that looks a name up and does not find it fails too, and may leave \<^verbatim>\<open>errno\<close> 0.
\<close>

datatype sys_event = Call syscall "nat + nat" | Output string | Run string u16 string string

type_synonym trace = "sys_event list"
type_synonym os = "trace \<Rightarrow> syscall \<Rightarrow> nat + nat"

definition call :: "os \<Rightarrow> syscall \<Rightarrow> (trace, nat + nat) io" where
  "call os c tr = (Inr (os tr c), tr @ [Call c (os tr c)])"

definition asserted :: "os \<Rightarrow> syscall \<Rightarrow> (trace, nat) io" where
  "asserted os c = iobind (call os c) (\<lambda>r. ioret (assertSuccess r))"

definition print_out :: "string \<Rightarrow> (trace, unit) io" where
  "print_out text tr = (Inr (), tr @ [Output text])"

text \<open>\<^verbatim>\<open>fs::path::parent_path\<close>.\<close>

definition parent_path :: "string \<Rightarrow> string" where
  "parent_path p =
     (let dir = rev (dropWhile (\<lambda>c. c \<noteq> CHR ''/'') (rev p)); bare = rev (dropWhile (\<lambda>c. c = CHR ''/'') (rev dir)) in
      if bare = [] \<and> dir \<noteq> [] then ''/'' else bare)"

section \<open>The program\<close>

text \<open>
  \<open>daemonize\<close> is the branch of the option \<^verbatim>\<open>daemon\<close>; its value tells whether this process goes on (the child) or exits (the parent). The
  steps of a process that go on in both processes are the steps of the process the answer of \<^verbatim>\<open>fork\<close> selects.
\<close>

definition daemonize :: "os \<Rightarrow> parsed \<Rightarrow> (trace, bool) io" where
  "daemonize os vm =
     iobind (asserted os (Chdir ''/'')) (\<lambda>_.
     iobind (asserted os Fork) (\<lambda>pid.
     if pid > 0
     then iobind (call os (Create_directories (parent_path (opt_pid vm)))) (\<lambda>ec.
          iobind (case ec of
                    Inl _ \<Rightarrow> ioret (Inr ())
                  | Inr _ \<Rightarrow> iobind (call os (Write_file (opt_pid vm) (to_string_nat pid @ ''\<newline>''))) (\<lambda>_. ioret (Inr ()))) (\<lambda>_.
          ioret (Inr False)))
     else iobind (call os Setsid) (\<lambda>_.
          iobind (call os (Close 0)) (\<lambda>_.
          iobind (call os (Close 1)) (\<lambda>_.
          iobind (call os (Close 2)) (\<lambda>_.
          iobind (call os (Create_directories (parent_path (opt_log vm)))) (\<lambda>ec.
          case ec of
            Inl _ \<Rightarrow> ioret (Inr True)
          | Inr _ \<Rightarrow>
              iobind (asserted os (Freopen (opt_log vm) 1)) (\<lambda>_.
              iobind (asserted os (Freopen (opt_log vm) 2)) (\<lambda>_. ioret (Inr True))))))))))"

definition change_group :: "os \<Rightarrow> string \<Rightarrow> (trace, unit) io" where
  "change_group os grp =
     (if grp \<noteq> []
      then iobind (asserted os (Getgrnam (c_str grp))) (\<lambda>gid.
           iobind (asserted os (Setgid gid)) (\<lambda>_. ioret (Inr ())))
      else ioret (Inr ()))"

definition change_user :: "os \<Rightarrow> string \<Rightarrow> (trace, unit) io" where
  "change_user os user =
     (if user \<noteq> []
      then iobind (asserted os (Getpwnam (c_str user))) (\<lambda>uid.
           iobind (asserted os (Setuid uid)) (\<lambda>_. ioret (Inr ())))
      else ioret (Inr ()))"

definition start_run :: "(string \<Rightarrow> u16 \<Rightarrow> string \<Rightarrow> string \<Rightarrow> unit result) \<Rightarrow> parsed \<Rightarrow> u16 \<Rightarrow> (trace, int) io" where
  "start_run run vm port tr =
     (let fn = or_default '''' (pa_config vm); geo = or_default '''' (pa_geo vm) in
      (rbind (run (opt_listen vm) port fn geo) (\<lambda>_. Inr 0), tr @ [Run (opt_listen vm) port fn geo]))"

definition main_body :: "os \<Rightarrow> (string \<Rightarrow> u16 \<Rightarrow> string \<Rightarrow> string \<Rightarrow> unit result) \<Rightarrow> parsed \<Rightarrow> (trace, int) io" where
  "main_body os run vm =
     (if pa_help vm then iobind (print_out ''usage'') (\<lambda>_. ioret (Inr 1))
      else if pa_version vm then iobind (print_out ''version'') (\<lambda>_. ioret (Inr 0))
      else case pa_port vm of
        None \<Rightarrow> iobind (print_out ''usage'') (\<lambda>_. ioret (Inr 1))
      | Some port \<Rightarrow>
          iobind (if pa_daemon vm then daemonize os vm else ioret (Inr True)) (\<lambda>goes_on.
          if \<not> goes_on then ioret (Inr 0)
          else iobind (change_group os (opt_group vm)) (\<lambda>_.
               iobind (change_user os (opt_user vm)) (\<lambda>_.
               start_run run vm port))))"

text \<open>A command line that cannot be parsed is an exception of the same handler.\<close>

definition main ::
  "os \<Rightarrow> (string list \<Rightarrow> parsed option) \<Rightarrow> (string \<Rightarrow> u16 \<Rightarrow> string \<Rightarrow> string \<Rightarrow> unit result) \<Rightarrow> string list \<Rightarrow> process_end \<times> trace" where
  "main os parse run argv =
     (case parse argv of
        None \<Rightarrow> (Exit 1, [Output ''ERROR''])
      | Some vm \<Rightarrow>
          (case main_body os run vm [] of
             (Inr code, tr) \<Rightarrow> (Exit code, tr)
           | (Inl e, tr) \<Rightarrow> if uncatchable e then (Crash e, tr) else (Exit 1, tr @ [Output ''ERROR''])))"

section \<open>What happens before the server runs\<close>

text \<open>
  The calls whose failure \<^verbatim>\<open>main\<close> does not accept, the events of a program that meets no such failure and has not run the server yet,
  and the computations that either produce only those or stop at the first failure.
\<close>

fun must_succeed :: "syscall \<Rightarrow> bool" where
  "must_succeed (Create_directories _) \<longleftrightarrow> False"
| "must_succeed (Write_file _ _) \<longleftrightarrow> False"
| "must_succeed Setsid \<longleftrightarrow> False"
| "must_succeed (Close _) \<longleftrightarrow> False"
| "must_succeed _ \<longleftrightarrow> True"

fun clean_event :: "sys_event \<Rightarrow> bool" where
  "clean_event (Call c (Inl _)) \<longleftrightarrow> \<not> must_succeed c"
| "clean_event (Call c (Inr _)) \<longleftrightarrow> True"
| "clean_event (Output _) \<longleftrightarrow> True"
| "clean_event (Run _ _ _ _) \<longleftrightarrow> False"

definition clean :: "trace \<Rightarrow> bool" where
  "clean tr \<longleftrightarrow> list_all clean_event tr"

definition failing :: "trace \<Rightarrow> exn \<Rightarrow> bool" where
  "failing tr e \<longleftrightarrow> (\<exists>pre c errno. tr = pre @ [Call c (Inl errno)] \<and> clean pre \<and> must_succeed c \<and>
     e = SystemError (Other_code errno) '''')"

definition checked :: "(trace, 'a) io \<Rightarrow> bool" where
  "checked m \<longleftrightarrow> (\<forall>tr. \<exists>seg. snd (m tr) = tr @ seg \<and>
     (case fst (m tr) of Inl e \<Rightarrow> failing seg e | Inr _ \<Rightarrow> clean seg))"

named_theorems check_rules \<open>computations that stop at the first call that fails\<close>

lemma clean_simps [simp]: "clean []" "clean (x # xs) \<longleftrightarrow> clean_event x \<and> clean xs" "clean (xs @ ys) \<longleftrightarrow> clean xs \<and> clean ys"
  by (simp_all add: clean_def)

lemma failing_append: "clean xs \<Longrightarrow> failing ys e \<Longrightarrow> failing (xs @ ys) e"
  unfolding failing_def by (metis append.assoc clean_simps(3))

lemma checkedE:
  assumes "checked m" and "m tr = (r, tr')"
  obtains seg where "tr' = tr @ seg" and "case r of Inl e \<Rightarrow> failing seg e | Inr _ \<Rightarrow> clean seg"
  using assms unfolding checked_def by (metis fst_conv snd_conv)

lemma checked_ioret [check_rules]: "checked (ioret (Inr x))"
  by (simp add: checked_def)

lemma checked_call [check_rules]: "\<not> must_succeed c \<Longrightarrow> checked (call os c)"
proof -
  assume "\<not> must_succeed c"
  then have "clean_event (Call c r)" for r by (cases r) auto
  then show ?thesis by (simp add: checked_def call_def)
qed

lemma checked_print_out [check_rules]: "checked (print_out text)"
  by (simp add: checked_def print_out_def)

lemma asserted_iff:
  "asserted os c tr = (case os tr c of
     Inl errno \<Rightarrow> (Inl (SystemError (Other_code errno) ''''), tr @ [Call c (Inl errno)])
   | Inr n \<Rightarrow> (Inr n, tr @ [Call c (Inr n)]))"
  by (simp add: asserted_def iobind_def call_def assertSuccess_def failWithErrno_def split: sum.splits)

lemma checked_asserted [check_rules]: "must_succeed c \<Longrightarrow> checked (asserted os c)"
  by (auto simp: checked_def asserted_iff failing_def split: sum.splits)

lemma checked_iobind [check_rules]:
  assumes "checked m" and "\<And>x. checked (f x)"
  shows "checked (iobind m f)"
proof -
  have "\<exists>seg. snd (iobind m f tr) = tr @ seg \<and> (case fst (iobind m f tr) of Inl e \<Rightarrow> failing seg e | Inr _ \<Rightarrow> clean seg)" for tr
  proof (cases "m tr")
    case (Pair r t)
    from checkedE [OF assms(1) this] obtain seg where seg: "t = tr @ seg" "case r of Inl e \<Rightarrow> failing seg e | Inr _ \<Rightarrow> clean seg" .
    show ?thesis
    proof (cases r)
      case (Inr x)
      obtain q u where f: "f x t = (q, u)" by fastforce
      from checkedE [OF assms(2) this] obtain seg' where
        seg': "u = t @ seg'" "case q of Inl e \<Rightarrow> failing seg' e | Inr _ \<Rightarrow> clean seg'" .
      show ?thesis using Pair Inr f seg seg' by (intro exI [of _ "seg @ seg'"]) (auto simp: failing_append split: sum.splits)
    qed (use Pair seg in auto)
  qed
  then show ?thesis by (simp add: checked_def)
qed

lemma checked_if [check_rules]: "checked m \<Longrightarrow> checked n \<Longrightarrow> checked (if b then m else n)"
  by simp

lemma checked_sum [check_rules]: "(\<And>x. checked (f x)) \<Longrightarrow> (\<And>y. checked (g y)) \<Longrightarrow> checked (case r of Inl x \<Rightarrow> f x | Inr y \<Rightarrow> g y)"
  by (cases r) auto

lemma checked_parts [check_rules]: "checked (daemonize os vm)" "checked (change_group os g)" "checked (change_user os u)"
  unfolding daemonize_def change_group_def change_user_def by (intro check_rules allI; simp)+

text \<open>The calls that change the group, and the ones that change the user.\<close>

definition group_calls :: "string \<Rightarrow> trace \<Rightarrow> bool" where
  "group_calls grp tr \<longleftrightarrow>
     (if grp = [] then tr = [] else \<exists>gid x. tr = [Call (Getgrnam (c_str grp)) (Inr gid), Call (Setgid gid) (Inr x)])"

definition user_calls :: "string \<Rightarrow> trace \<Rightarrow> bool" where
  "user_calls user tr \<longleftrightarrow>
     (if user = [] then tr = [] else \<exists>uid x. tr = [Call (Getpwnam (c_str user)) (Inr uid), Call (Setuid uid) (Inr x)])"

lemma change_group_calls: "change_group os g tr = (Inr u, tr') \<Longrightarrow> \<exists>seg. tr' = tr @ seg \<and> group_calls g seg"
  by (auto simp: change_group_def group_calls_def result_simps asserted_iff split: if_splits sum.splits)

lemma change_user_calls: "change_user os g tr = (Inr u, tr') \<Longrightarrow> \<exists>seg. tr' = tr @ seg \<and> user_calls g seg"
  by (auto simp: change_user_def user_calls_def result_simps asserted_iff split: if_splits sum.splits)

lemma daemonize_child:
  assumes "daemonize os vm tr = (Inr True, tr')"
  shows "\<exists>r. Call Fork (Inr 0) \<in> set tr' \<and> Call Setsid r \<in> set tr'"
  using assms by (auto simp: daemonize_def result_simps asserted_iff call_def split: if_splits sum.splits)

text \<open>The part of \<^verbatim>\<open>main\<close> up to the call of \<^verbatim>\<open>run\<close>.\<close>

definition prepare :: "os \<Rightarrow> parsed \<Rightarrow> (trace, bool) io" where
  "prepare os vm =
     iobind (if pa_daemon vm then daemonize os vm else ioret (Inr True)) (\<lambda>goes_on.
     if \<not> goes_on then ioret (Inr False)
     else iobind (change_group os (opt_group vm)) (\<lambda>_.
          iobind (change_user os (opt_user vm)) (\<lambda>_. ioret (Inr True))))"

lemma checked_prepare: "checked (prepare os vm)"
  unfolding prepare_def by (intro check_rules)

lemma prepare_runs:
  assumes "prepare os vm tr = (Inr True, tr')"
  shows "\<exists>d gs us. tr' = d @ gs @ us \<and> group_calls (opt_group vm) gs \<and> user_calls (opt_user vm) us \<and>
    (pa_daemon vm \<longrightarrow> (\<exists>r. Call Fork (Inr 0) \<in> set d \<and> Call Setsid r \<in> set d))"
proof -
  obtain t1 t2 where t: "(if pa_daemon vm then daemonize os vm else ioret (Inr True)) tr = (Inr True, t1)"
      "change_group os (opt_group vm) t1 = (Inr (), t2)" "change_user os (opt_user vm) t2 = (Inr (), tr')"
    using assms by (auto simp: prepare_def result_simps split: if_splits)
  obtain gs where gs: "t2 = t1 @ gs" "group_calls (opt_group vm) gs" using change_group_calls [OF t(2)] by blast
  obtain us where us: "tr' = t2 @ us" "user_calls (opt_user vm) us" using change_user_calls [OF t(3)] by blast
  have "pa_daemon vm \<longrightarrow> (\<exists>r. Call Fork (Inr 0) \<in> set t1 \<and> Call Setsid r \<in> set t1)"
    using t(1) daemonize_child by auto
  then show ?thesis using gs us by (intro exI [of _ t1] exI [of _ gs] exI [of _ us]) simp
qed

lemma main_body_prepared:
  assumes "\<not> pa_help vm" and "\<not> pa_version vm" and "pa_port vm = Some port"
  shows "main_body os run vm tr =
    (case prepare os vm tr of
       (Inl e, t) \<Rightarrow> (Inl e, t)
     | (Inr goes_on, t) \<Rightarrow> if goes_on then start_run run vm port t else (Inr 0, t))"
  using assms by (auto simp: main_body_def prepare_def iobind_def split: prod.splits sum.splits)

lemma main_asks_only:
  assumes "pa_help vm \<or> pa_version vm \<or> pa_port vm = None"
  shows "\<exists>code text. main_body os run vm [] = (Inr code, [Output text])"
  using assms by (auto simp: main_body_def print_out_def iobind_def)

text \<open>Whether \<^verbatim>\<open>main\<close> gets to the server: the three ways it can end.\<close>

lemma main_cases [consumes 2, case_names asks fails parent runs]:
  assumes "parse argv = Some vm" and "main os parse run argv = (fin, tr)"
  obtains (asks) "clean tr" and "\<exists>code. fin = Exit code" and "pa_help vm \<or> pa_version vm \<or> pa_port vm = None"
  | (fails) e t where "prepare os vm [] = (Inl e, t)" and "fin = Exit 1" and "tr = t @ [Output ''ERROR'']" and "failing t e"
  | (parent) "prepare os vm [] = (Inr False, tr)" and "fin = Exit 0" and "clean tr"
  | (runs) port t rest where "prepare os vm [] = (Inr True, t)" and "clean t" and "clean rest" and "pa_port vm = Some port"
      and "tr = t @ Run (opt_listen vm) port (or_default '''' (pa_config vm)) (or_default '''' (pa_geo vm)) # rest"
      and "\<not> pa_help vm" and "\<not> pa_version vm"
proof (cases "pa_help vm \<or> pa_version vm \<or> pa_port vm = None")
  case True
  then show thesis using asks main_asks_only [OF True, of os run] assms by (auto simp: main_def)
next
  case False
  then obtain port where port: "pa_port vm = Some port" "\<not> pa_help vm" "\<not> pa_version vm" by auto
  note body = main_body_prepared [OF port(2,3,1), of os run "[]"]
  obtain r t where p: "prepare os vm [] = (r, t)" by fastforce
  from checkedE [OF checked_prepare p] have seg: "case r of Inl e \<Rightarrow> failing t e | Inr _ \<Rightarrow> clean t" by auto
  show thesis
  proof (cases r)
    case (Inl e)
    then have "\<not> uncatchable e" using seg by (auto simp: failing_def uncatchable_def)
    then show thesis using fails [of e t] p Inl seg body assms by (simp add: main_def)
  next
    case (Inr goes_on)
    show thesis
    proof (cases goes_on)
      case True
      let ?r = "run (opt_listen vm) port (or_default '''' (pa_config vm)) (or_default '''' (pa_geo vm))"
      let ?rest = "case ?r of Inl e \<Rightarrow> if uncatchable e then [] else [Output ''ERROR''] | Inr _ \<Rightarrow> []"
      have "clean ?rest" by (auto split: sum.splits)
      then show thesis using runs [of t ?rest port] p Inr True seg body assms port
        by (auto simp: main_def start_run_def Let_def split: sum.splits if_splits)
    next
      case False
      then show thesis using parent p Inr seg body assms by (simp add: main_def)
    qed
  qed
qed

lemma clean_no_Run: "clean tr \<Longrightarrow> Run l p fn geo \<notin> set tr"
  by (auto simp: clean_def list_all_iff)

lemma clean_no_failure: "clean tr \<Longrightarrow> must_succeed c \<Longrightarrow> Call c (Inl errno) \<notin> set tr"
  by (auto simp: clean_def list_all_iff)

section \<open>Properties\<close>

text \<open>
  C37: The server does not run with privileges it was told to give up. Whatever the operating system answers, when \<^verbatim>\<open>main\<close> gets to \<^verbatim>\<open>run\<close>, the last
  things it has done before are, in this order, to look up the group and change to it, and to look up the
  user and change to it, each successfully and each if its option is given; a daemon has been forked and has its own
  session before. No call that has to succeed has failed.
\<close>

theorem runs_unprivileged:
  assumes "parse argv = Some vm" and "main os parse run argv = (fin, tr)" and "Run l p fn geo \<in> set tr"
  shows "\<exists>d gs us rest. tr = d @ gs @ us @ Run l p fn geo # rest \<and>
    group_calls (opt_group vm) gs \<and> user_calls (opt_user vm) us \<and> clean d \<and> clean rest \<and>
    (pa_daemon vm \<longrightarrow> (\<exists>r. Call Fork (Inr 0) \<in> set d \<and> Call Setsid r \<in> set d)) \<and>
    pa_port vm = Some p \<and> l = opt_listen vm"
  using assms(1,2)
proof (cases rule: main_cases)
  case (runs port t rest)
  let ?run = "Run (opt_listen vm) port (or_default '''' (pa_config vm)) (or_default '''' (pa_geo vm))"
  have run: "Run l p fn geo = ?run" using assms(3) runs(2,3,5) clean_no_Run by auto
  obtain d gs us where "t = d @ gs @ us" "group_calls (opt_group vm) gs" "user_calls (opt_user vm) us"
      "pa_daemon vm \<longrightarrow> (\<exists>r. Call Fork (Inr 0) \<in> set d \<and> Call Setsid r \<in> set d)"
    using prepare_runs [OF runs(1)] by blast
  then show ?thesis using run runs by (intro exI [of _ d] exI [of _ gs] exI [of _ us] exI [of _ rest]) auto
next
  case (fails e t)
  then show ?thesis using assms(3) clean_no_Run by (auto simp: failing_def)
qed (use assms(3) clean_no_Run [of tr l p fn geo] in simp_all)

text \<open>
  C38: A failure stops the program. When a call fails that has to succeed (to change the directory, to fork, to open the log, to look up
  or to change the group or the user), it is the last call: the program prints the error and exits with 1, and the server has not run.
\<close>

theorem failed_call_exits:
  assumes "main os parse run argv = (fin, tr)" and "Call c (Inl errno) \<in> set tr" and "must_succeed c"
  shows "fin = Exit 1 \<and> (\<exists>pre. tr = pre @ [Call c (Inl errno), Output ''ERROR''] \<and> clean pre)"
proof (cases "parse argv")
  case None
  then show ?thesis using assms(1,2) by (auto simp: main_def)
next
  case (Some vm)
  note failed = clean_no_failure [OF _ assms(3)]
  show ?thesis using Some assms(1)
  proof (cases rule: main_cases)
    case (fails e t)
    then obtain pre c' n where t: "t = pre @ [Call c' (Inl n)]" "clean pre" by (auto simp: failing_def)
    then have "c' = c" "n = errno" using assms(2) fails(3) failed by auto
    then show ?thesis using t fails by simp
  next
    case (runs port t rest)
    then show ?thesis using assms(2) failed by auto
  qed (use assms(2) failed [of tr errno] in simp_all)
qed

text \<open>A daemon for an unprivileged user, and a system on which that user may not change the group.\<close>

definition sample_vm :: parsed where
  "sample_vm = \<lparr>pa_help = False, pa_version = False, pa_daemon = True, pa_listen = None, pa_port = Some 8080, pa_geo = None,
     pa_config = None, pa_pid = None, pa_log = None, pa_user = Some ''nobody'', pa_group = Some ''nogroup''\<rparr>"

definition sample_os :: "nat + nat \<Rightarrow> os" where
  "sample_os setgid tr c =
     (case c of Getgrnam n \<Rightarrow> Inr 65534 | Getpwnam n \<Rightarrow> Inr 65533 | Setgid g \<Rightarrow> setgid | _ \<Rightarrow> Inr 0)"

lemmas program_eval = main_def main_body_def sample_vm_def daemonize_def asserted_def call_def assertSuccess_def failWithErrno_def
  sample_os_def change_group_def change_user_def opt_listen_def opt_pid_def opt_log_def opt_user_def opt_group_def or_default_def
  start_run_def uncatchable_def iobind_def c_str_def

theorem runs_unprivileged_witness:
  "\<exists>d gs us rest. snd (main (sample_os (Inr 0)) (\<lambda>_. Some sample_vm) (\<lambda>_ _ _ _. Inr ()) []) =
      d @ gs @ us @ Run ''::1'' 8080 [] [] # rest \<and>
    group_calls ''nogroup'' gs \<and> user_calls ''nobody'' us \<and> (\<exists>r. Call Fork (Inr 0) \<in> set d \<and> Call Setsid r \<in> set d)"
proof -
  let ?m = "main (sample_os (Inr 0)) (\<lambda>_. Some sample_vm) (\<lambda>_ _ _ _. Inr ()) []"
  have run: "Run ''::1'' 8080 [] [] \<in> set (snd ?m)" by (simp add: program_eval)
  have vm: "opt_group sample_vm = ''nogroup''" "opt_user sample_vm = ''nobody''" "pa_daemon sample_vm"
    by (simp_all add: sample_vm_def opt_group_def opt_user_def or_default_def)
  show ?thesis
    using runs_unprivileged [where parse = "\<lambda>_. Some sample_vm" and argv = "[]" and vm = sample_vm, OF refl surjective_pairing run]
    by (simp only: vm simp_thms) (elim exE conjE, intro exI conjI, assumption+)
qed

theorem failed_call_exits_witness:
  "fst (main (sample_os (Inl 1)) (\<lambda>_. Some sample_vm) (\<lambda>_ _ _ _. Inr ()) []) = Exit 1 \<and>
   (\<exists>pre. snd (main (sample_os (Inl 1)) (\<lambda>_. Some sample_vm) (\<lambda>_ _ _ _. Inr ()) []) =
     pre @ [Call (Setgid 65534) (Inl 1), Output ''ERROR''] \<and> clean pre)"
proof -
  have "Call (Setgid 65534) (Inl 1) \<in> set (snd (main (sample_os (Inl 1)) (\<lambda>_. Some sample_vm) (\<lambda>_ _ _ _. Inr ()) []))"
    by (simp add: program_eval)
  from failed_call_exits [OF surjective_pairing this] show ?thesis by simp
qed

section \<open>How the programs end\<close>

lemma io_run_ends: "io_run cs = Inl e \<Longrightarrow> uncatchable e"
proof (induction cs rule: io_run.induct)
  case (3 e cs)
  then show ?case by (cases e) (auto simp: detached_handler_def uncatchable_def split: if_splits)
qed (auto split: if_splits)

text \<open>
  The server program fails, in a way its exit code shows, exactly when the database cannot be opened or the address is not an address:
  what goes wrong once the event loop runs does not reach \<^verbatim>\<open>main\<close>.
\<close>

theorem run_fails_only_before_the_loop:
  assumes "\<not> uncatchable e"
  shows "run_program ip lib w bind port fn mmdb = Inl e \<longleftrightarrow>
    (\<exists>msg. mmdb \<noteq> [] \<and> mm_open lib (c_str mmdb) = Some msg \<and> e = SystemError (Pichi_code MISC) msg) \<or>
    (mmdb \<noteq> [] \<longrightarrow> mm_open lib (c_str mmdb) = None) \<and> make_address ip bind = None \<and>
      e = SystemError (Asio_code asio_invalid_argument) []"
  using assms io_run_ends
  by (auto simp: run_program_def mmdb_initialize_def mmdb_new_def throwing_address_def result_simps split: option.splits)

text \<open>
  A server that cannot listen, since its port is taken, ends at once, and the program reports success.
\<close>

theorem listen_failure_exits_zero:
  assumes "make_address ip bind = Some a" and "wo_opened w (a, port) = Some (Asio_code asio_address_in_use)"
    and "wo_schedule w (Some (server_ends w (a, port))) (Some (client_ends w bind port [])) =
      [client_ends w bind port [], server_ends w (a, port)]"
  shows "run_program ip lib w bind port [] [] = Inr ()"
  using assms by (simp add: run_program_def throwing_address_def client_ends_def client_run_def server_ends_def serve_def
      detached_handler_def)

text \<open>
  The entry of the library serves once: a second call in the same process returns 0 without having served anything, since the event loop
  has been stopped by the first one and is not restarted.
\<close>

theorem library_serves_once:
  assumes "pichi_run_server ip lib w bind port None l = (Exit 0, l')" and "make_address ip b' = Some a"
  shows "pichi_run_server ip lib w' (Some b') port' None l' = (Exit 0, l')"
proof -
  have "lb_stopped l'"
    using assms(1) by (cases l) (auto simp: pichi_run_server_def library_run_def result_simps split: prod.splits sum.splits if_splits)
  then show ?thesis using assms(2) by (simp add: pichi_run_server_def library_run_def throwing_address_def)
qed

text \<open>
  The header of the library promises that \<^verbatim>\<open>pichi_run_server\<close> returns only after an error, with -1. A server that cannot listen returns 0.
\<close>

theorem library_listen_failure_returns_zero:
  assumes "make_address ip b = Some a" and "wo_opened w (a, port) = Some (Asio_code asio_address_in_use)"
    and "wo_schedule w (Some (server_ends w (a, port))) None = [server_ends w (a, port)]"
  shows "pichi_run_server ip lib w (Some b) port None library_new = (Exit 0, library_new\<lparr>lb_stopped := True\<rparr>)"
  using assms by (simp add: pichi_run_server_def library_run_def throwing_address_def server_ends_def serve_def
      detached_handler_def library_new_def)

end
