(* ===== verification/Pichi_Backup.thy ===== *)
theory Pichi_Backup
  imports Pichi_Client
begin

text \<open>
  A configuration file made of what the API lists (\<^verbatim>\<open>GET\<close> on the four resources) loads again: the client of \<^verbatim>\<open>server/run.cpp\<close>, the API server and the value objects
  together bring a fresh server into the state the listings came from.
\<close>

section \<open>Files of listings\<close>

definition backup :: "server \<Rightarrow> json result" where
  "backup s =
     rbind (to_json (\<lambda>l. toJson_Ingress (li_vo l)) (sv_listeners s)) (\<lambda>i.
     rbind (to_json toJson_Egress (sv_egresses s)) (\<lambda>e.
     rbind (to_json (\<lambda>r. Inr (toJson_Rule r)) (sv_rules s)) (\<lambda>r.
     rbind (toJson_Route (sv_route s)) (\<lambda>t.
     Inr (JObject [(INGRESSES, i), (EGRESSES, e), (RULES, r), (ROUTE, t)])))))"

text \<open>The ingresses of a server as they were configured, by name.\<close>

definition ingress_table :: "server \<Rightarrow> (string \<rightharpoonup> IngressVO)" where
  "ingress_table s = map_option li_vo \<circ> map_of (sv_listeners s)"

text \<open>What is needed of the texts: each entry is read as it was printed.\<close>

definition backup_documents :: "server_env \<Rightarrow> server \<Rightarrow> bool" where
  "backup_documents env s \<longleftrightarrow>
     (\<forall>x \<in> set (sv_listeners s). \<forall>j. toJson_Ingress (li_vo (snd x)) = Inr j \<longrightarrow> json_reads (se_json env) j) \<and>
     (\<forall>x \<in> set (sv_egresses s). \<forall>j. toJson_Egress (snd x) = Inr j \<longrightarrow> json_reads (se_json env) j) \<and>
     (\<forall>x \<in> set (sv_rules s). json_reads (se_json env) (toJson_Rule (snd x))) \<and>
     (\<forall>j. toJson_Route (sv_route s) = Inr j \<longrightarrow> json_reads (se_json env) j)"

text \<open>What is needed of the machine: the addresses of the ingresses are addresses, and can be opened.\<close>

definition addresses_free :: "server_env \<Rightarrow> server \<Rightarrow> bool" where
  "addresses_free env s \<longleftrightarrow>
     (\<forall>x \<in> set (sv_listeners s). \<forall>ep \<in> set (in_bind (li_vo (snd x))).
        \<exists>a. make_address (re_ip (se_router env)) (ep_host ep) = Some a \<and> (\<forall>opened. se_open env opened (a, ep_port ep) = None))"

section \<open>One entry\<close>

lemma client_put_done:
  assumes "handle env \<lparr>rq_method = verb_put, rq_target = t, rq_body = b\<rparr> s = (Inr (gen_resp status_no_content), s')"
  shows "client_put (respond env) t b s = (Inr status_no_content, s')"
  using assms by (simp add: client_put_def respond_Inr gen_resp_def)

lemma parse_text_reads: "json_reads jt j \<Longrightarrow> parse_text jt p (json_toString jt j) = p j"
  by (simp add: parse_text_def json_reads_def)

lemma open_acceptors_free:
  assumes "\<forall>ep \<in> set eps. \<exists>a. make_address (re_ip (se_router env)) (ep_host ep) = Some a \<and>
    (\<forall>opened. se_open env opened (a, ep_port ep) = None)"
  shows "\<exists>as. open_acceptors env opened eps = Inr as"
  using assms by (induction eps arbitrary: opened) (fastforce simp: result_simps)+

lemma put_one_ingress:
  assumes "n \<noteq> []" and "set n \<inter> set ''?#/'' = {}" and "json_reads (se_json env) j"
    and "parse_Ingress (re_ip (se_router env)) j = Inr vo"
    and "\<forall>ep \<in> set (in_bind vo). \<exists>a. make_address (re_ip (se_router env)) (ep_host ep) = Some a \<and>
      (\<forall>opened. se_open env opened (a, ep_port ep) = None)"
  shows "\<exists>s'. client_put (respond env) (target_of INGRESSES n) (json_toString (se_json env) j) s = (Inr status_no_content, s') \<and>
    ingress_table s' = (ingress_table s)(n \<mapsto> vo\<lparr>in_name := n\<rparr>) \<and>
    sv_egresses s' = sv_egresses s \<and> sv_rules s' = sv_rules s \<and> sv_route s' = sv_route s"
proof -
  let ?req = "\<lparr>rq_method = verb_put, rq_target = target_of INGRESSES n, rq_body = json_toString (se_json env) j\<rparr>"
  have h: "handle env ?req = handle_ingress env n ?req"
    using assms(1,2) by (intro handle_ingress_target) (simp_all add: target_of_def)
  obtain as where as: "open_acceptors env (opened_by s) (in_bind vo) = Inr as" using open_acceptors_free [OF assms(5)] by blast
  obtain l where l: "make_listener env (opened_by s) 0 (sv_router s) (vo\<lparr>in_name := n\<rparr>) = Inr l" "li_vo l = vo\<lparr>in_name := n\<rparr>"
    using as by (simp add: make_listener_def)
  obtain l' s1 where s1: "assign_listener n l s = (l', s1)" by fastforce
  then have t: "ingress_table s1 = (ingress_table s)(n \<mapsto> vo\<lparr>in_name := n\<rparr>)" "sv_egresses s1 = sv_egresses s"
      "sv_rules s1 = sv_rules s" "sv_route s1 = sv_route s"
    using l(2) by (auto simp: assign_listener_def ingress_table_def Let_def AList.update_conv' fun_eq_iff split: option.splits)
  have "handle env ?req s = (Inr (gen_resp status_no_content), post (map (\<lambda>_. P_Listen (li_id l')) (li_acceptors l')) s1)"
    unfolding h using assms(3,4) l(1) s1 by (simp add: handle_ingress_def parse_text_reads put_ingress_def)
  from client_put_done [OF this] show ?thesis using t by (simp add: post_def ingress_table_def)
qed

lemma put_one_egress:
  assumes "n \<noteq> []" and "travels n" and "json_reads (se_json env) j" and "parse_Egress (re_ip (se_router env)) j = Inr vo"
    and "sv_route s = default_route" and "map_contains (sv_egresses s) ''direct''"
  shows "\<exists>s'. client_put (respond env) (target_of EGRESSES n) (json_toString (se_json env) j) s = (Inr status_no_content, s') \<and>
    sv_egresses s' = AList.update n vo (sv_egresses s) \<and> sv_listeners s' = sv_listeners s \<and>
    sv_rules s' = sv_rules s \<and> sv_route s' = sv_route s"
proof -
  let ?req = "\<lparr>rq_method = verb_put, rq_target = target_of EGRESSES n, rq_body = json_toString (se_json env) j\<rparr>"
  let ?s1 = "s\<lparr>sv_egresses := AList.update n vo (sv_egresses s)\<rparr>"
  have h: "handle env ?req = handle_egress env n ?req"
    using assms(1,2) by (intro handle_egress_target) (simp_all add: target_of_def travels_def)
  obtain v where "map_at (AList.update n vo (sv_egresses s)) ''direct'' = Inr v"
    using assms(6) map_contains_update [of n vo "sv_egresses s" "''direct''"] by (auto simp only: map_contains_iff)
  then obtain s2 where s2: "update_router env ?s1 = (Inr (), s2)"
    using assms(5) by (simp add: update_router_def make_router_def parse_route_def default_route_def)
  obtain used where "egress_in_use (sv_route ?s1) n = Inr used" using assms(5) by (simp add: egress_in_use_def default_route_def)
  then have "handle env ?req s = (Inr (gen_resp status_no_content), if used then s2 else ?s1)"
    unfolding h using assms(3,4) s2 by (simp add: handle_egress_def parse_text_reads Let_def)
  from client_put_done [OF this] show ?thesis using update_router_frame [OF s2] by simp
qed

lemma put_one_rule:
  assumes "n \<noteq> []" and "travels n" and "json_reads (se_json env) j" and "parse_Rule j = Inr vo" and "sv_route s = default_route"
  shows "client_put (respond env) (target_of RULES n) (json_toString (se_json env) j) s =
    (Inr status_no_content, s\<lparr>sv_rules := AList.update n vo (sv_rules s)\<rparr>)"
proof -
  let ?req = "\<lparr>rq_method = verb_put, rq_target = target_of RULES n, rq_body = json_toString (se_json env) j\<rparr>"
  have h: "handle env ?req = handle_rule env n ?req"
    using assms(1,2) by (intro handle_rule_target) (simp_all add: target_of_def travels_def)
  show ?thesis
    by (rule client_put_done) (use assms(3-5) in \<open>simp add: h handle_rule_def parse_text_reads rule_in_use_def default_route_def Let_def\<close>)
qed

lemma put_whole_route:
  assumes "json_reads (se_json env) j" and "parse_Route j = Inr rt" and "check_route (sv_egresses s) (sv_rules s) rt = Inr ()"
    and "make_router (se_router env) (sv_egresses s) (sv_rules s) rt = Inr r"
  shows "\<exists>s'. client_put (respond env) (''/'' @ ROUTE) (json_toString (se_json env) j) s = (Inr status_no_content, s') \<and>
    sv_route s' = rt \<and> sv_router s' = r \<and> sv_egresses s' = sv_egresses s \<and> sv_rules s' = sv_rules s \<and> sv_listeners s' = sv_listeners s"
proof -
  let ?req = "\<lparr>rq_method = verb_put, rq_target = ''/'' @ ROUTE, rq_body = json_toString (se_json env) j\<rparr>"
  obtain s2 where s2: "update_router env (s\<lparr>sv_route := rt\<rparr>) = (Inr (), s2)" "sv_router s2 = r"
    using assms(4) by (simp add: update_router_def post_def)
  have "handle env ?req s = (Inr (gen_resp status_no_content), s2)"
    using assms(1-3) s2(1) by (simp add: handle_fixed_target handle_route_def parse_text_reads)
  from client_put_done [OF this] show ?thesis using update_router_frame [OF s2(1)] s2(2) by simp
qed

section \<open>One table\<close>

lemma to_json_entries:
  assumes "\<And>n x. (n, x) \<in> set m \<Longrightarrow> n \<noteq> [] \<and> (\<exists>j. f x = Inr j)"
  shows "to_json f m = Inr (JObject (map (\<lambda>(n, x). (n, projr (f x))) m))"
proof -
  have "mapM (\<lambda>(name, item). rthen (assertFalse (name = []) MISC '''') (rbind (f item) (\<lambda>j. Inr (name, j)))) m =
      Inr (map (\<lambda>(n, x). (n, projr (f x))) m)"
    by (rule mapM_total) (use assms in fastforce)
  then show ?thesis by (simp add: to_json_def)
qed

lemma load_nodes:
  assumes "\<And>n x s. I s \<Longrightarrow> (n, x) \<in> set m \<Longrightarrow> \<exists>s'. client_put api (target_of c (c_str n)) (json_toString jt (d x)) s =
      (Inr status_no_content, s') \<and> I s' \<and> look s' = (look s)(n \<mapsto> g x)"
    and "I s" and "distinct (map fst m)"
  shows "\<exists>s'. update_nodes jt api c (map (\<lambda>(n, x). (n, d x)) m) s = (Inr [], s') \<and> I s' \<and>
    look s' = look s ++ (map_option g \<circ> map_of m)"
  using assms
proof (induction m arbitrary: s)
  case Nil
  have "map_option g \<circ> Map.empty = Map.empty" by (simp add: fun_eq_iff)
  then show ?case using Nil by simp
next
  case (Cons a m)
  obtain n x where a: "a = (n, x)" by fastforce
  then have "(n, x) \<in> set (a # m)" by simp
  from Cons.prems(1) [OF Cons.prems(2) this] obtain s1 where
    s1: "client_put api (target_of c (c_str n)) (json_toString jt (d x)) s = (Inr status_no_content, s1)" "I s1"
      "look s1 = (look s)(n \<mapsto> g x)" by blast
  have dm: "distinct (map fst m)" using Cons.prems(3) by simp
  have "\<exists>s2. update_nodes jt api c (map (\<lambda>(n, x). (n, d x)) m) s1 = (Inr [], s2) \<and> I s2 \<and>
      look s2 = look s1 ++ (map_option g \<circ> map_of m)"
    by (rule Cons.IH [OF _ s1(2) dm], rule Cons.prems(1)) simp_all
  then obtain s2 where s2: "update_nodes jt api c (map (\<lambda>(n, x). (n, d x)) m) s1 = (Inr [], s2)" "I s2"
      "look s2 = look s1 ++ (map_option g \<circ> map_of m)" by blast
  have "map_of m n = None" using Cons.prems(3) a by (simp add: map_of_eq_None_iff)
  then have "look s2 = look s ++ (map_option g \<circ> map_of (a # m))"
    unfolding s2(3) s1(3) a by (auto simp: fun_eq_iff map_add_def split: option.splits)
  moreover have "update_nodes jt api c (map (\<lambda>(n, x). (n, d x)) (a # m)) s = (Inr [], s2)" using a s1(1) s2(1) by simp
  ultimately show ?case using s2(2) by blast
qed

lemma load_table:
  assumes "\<And>n x. (n, x) \<in> set m \<Longrightarrow> n \<noteq> [] \<and> c_str n = n \<and> (\<exists>j. f x = Inr j)"
    and "\<And>n x j s. I s \<Longrightarrow> (n, x) \<in> set m \<Longrightarrow> f x = Inr j \<Longrightarrow> \<exists>s'. client_put api (target_of c n) (json_toString jt j) s =
      (Inr status_no_content, s') \<and> I s' \<and> look s' = (look s)(n \<mapsto> g x)"
    and "I s" and "distinct (map fst m)" and "to_json f m = Inr doc" and "map_of (GetObj root) c = Some doc"
  shows "\<exists>s'. update_category jt api root c s = (Inr [], s') \<and> I s' \<and> look s' = look s ++ (map_option g \<circ> map_of m)"
proof -
  have doc: "doc = JObject (map (\<lambda>(n, x). (n, projr (f x))) m)" using to_json_entries [of m f] assms(1,5) by simp
  have step: "\<exists>s'. client_put api (target_of c (c_str n)) (json_toString jt (projr (f x))) s = (Inr status_no_content, s') \<and>
      I s' \<and> look s' = (look s)(n \<mapsto> g x)" if i: "I s" and x: "(n, x) \<in> set m" for n x s
  proof -
    obtain j where "f x = Inr j" "c_str n = n" using assms(1) [OF x] by blast
    then show ?thesis using assms(2) [OF i x] by simp
  qed
  from load_nodes [where I = I and look = look, OF step assms(3,4)] show ?thesis
    using assms(6) by (simp add: update_category_def doc)
qed

section \<open>The four tables\<close>

lemma restore_ingresses:
  assumes "vos_ok env s" and "names_travel s" and "backup_documents env s" and "addresses_free env s"
    and "to_json (\<lambda>l. toJson_Ingress (li_vo l)) (sv_listeners s) = Inr doc" and "map_of (GetObj root) INGRESSES = Some doc"
    and "sv_listeners t = []"
  shows "\<exists>t'. update_category (se_json env) (respond env) root INGRESSES t = (Inr [], t') \<and> ingress_table t' = ingress_table s \<and>
    sv_egresses t' = sv_egresses t \<and> sv_rules t' = sv_rules t \<and> sv_route t' = sv_route t"
proof -
  let ?I = "\<lambda>u :: server. sv_egresses u = sv_egresses t \<and> sv_rules u = sv_rules t \<and> sv_route u = sv_route t"
  have entry: "n \<noteq> []" "set n \<inter> set ''?#/'' = {}" "c_str n = n" "in_name (li_vo l) = n"
      "\<exists>j. toJson_Ingress (li_vo l) = Inr j \<and> parse_Ingress (re_ip (se_router env)) j = Inr ((li_vo l)\<lparr>in_name := []\<rparr>)"
    if x: "(n, l) \<in> set (sv_listeners s)" for n l
  proof -
    show "n \<noteq> []" "set n \<inter> set ''?#/'' = {}" "in_name (li_vo l) = n" using assms(1) x by (auto simp: vos_ok_def)
    have "n \<in> fst ` set (sv_listeners s)" using x by force
    then show "c_str n = n" using assms(2) by (intro c_str_travels) (simp add: names_travel_def)
    show "\<exists>j. toJson_Ingress (li_vo l) = Inr j \<and> parse_Ingress (re_ip (se_router env)) j = Inr ((li_vo l)\<lparr>in_name := []\<rparr>)"
      using assms(1) x ingress.toJson_parse [of "re_ip (se_router env)" "(li_vo l)\<lparr>in_name := []\<rparr>"]
      by (auto simp: vos_ok_def toJson_Ingress_name)
  qed
  have e: "n \<noteq> [] \<and> c_str n = n \<and> (\<exists>j. toJson_Ingress (li_vo l) = Inr j)" if "(n, l) \<in> set (sv_listeners s)" for n l
    using entry [OF that] by blast
  have d: "distinct (map fst (sv_listeners s))" using assms(1) by (simp add: vos_ok_def)
  have "\<exists>t'. update_category (se_json env) (respond env) root INGRESSES t = (Inr [], t') \<and> ?I t' \<and>
      ingress_table t' = ingress_table t ++ (map_option li_vo \<circ> map_of (sv_listeners s))"
  proof (rule load_table [OF e _ _ d assms(5,6)])
    fix n l j u
    assume i: "?I u" and x: "(n, l) \<in> set (sv_listeners s)" and j: "toJson_Ingress (li_vo l) = Inr j"
    let ?vo = "(li_vo l)\<lparr>in_name := []\<rparr>"
    have p: "parse_Ingress (re_ip (se_router env)) j = Inr ?vo" using entry(5) [OF x] j by simp
    have free: "\<forall>ep \<in> set (in_bind ?vo). \<exists>a. make_address (re_ip (se_router env)) (ep_host ep) = Some a \<and>
        (\<forall>opened. se_open env opened (a, ep_port ep) = None)"
      using assms(4) x by (auto simp: addresses_free_def)
    have reads: "json_reads (se_json env) j" using assms(3) x j by (auto simp: backup_documents_def)
    have "?vo\<lparr>in_name := n\<rparr> = li_vo l" using entry(4) [OF x] by simp
    then show "\<exists>u'. client_put (respond env) (target_of INGRESSES n) (json_toString (se_json env) j) u = (Inr status_no_content, u') \<and>
        ?I u' \<and> ingress_table u' = (ingress_table u)(n \<mapsto> li_vo l)"
      using put_one_ingress [OF entry(1,2) [OF x] reads p free, of u] i by metis
  next
    show "?I t" by simp
  qed
  moreover have "ingress_table t ++ (map_option li_vo \<circ> map_of (sv_listeners s)) = ingress_table s"
    using assms(7) by (auto simp: ingress_table_def map_add_def fun_eq_iff split: option.splits)
  ultimately show ?thesis by auto
qed

lemma restore_egresses:
  assumes "vos_ok env s" and "names_travel s" and "backup_documents env s"
    and "to_json toJson_Egress (sv_egresses s) = Inr doc" and "map_of (GetObj root) EGRESSES = Some doc"
    and "sv_route t = default_route" and "map_contains (sv_egresses t) ''direct''"
  shows "\<exists>t'. update_category (se_json env) (respond env) root EGRESSES t = (Inr [], t') \<and>
    map_of (sv_egresses t') = map_of (sv_egresses t) ++ map_of (sv_egresses s) \<and>
    sv_listeners t' = sv_listeners t \<and> sv_rules t' = sv_rules t \<and> sv_route t' = default_route"
proof -
  let ?I = "\<lambda>u :: server. sv_listeners u = sv_listeners t \<and> sv_rules u = sv_rules t \<and> sv_route u = default_route \<and>
    map_contains (sv_egresses u) ''direct''"
  have entry: "n \<noteq> []" "travels n" "\<exists>j. toJson_Egress e = Inr j \<and> parse_Egress (re_ip (se_router env)) j = Inr e"
    if x: "(n, e) \<in> set (sv_egresses s)" for n e
  proof -
    have "n \<noteq> [] \<and> wf_Egress (re_ip (se_router env)) e" using assms(1) x by (auto simp: vos_ok_def)
    then show "n \<noteq> []" "\<exists>j. toJson_Egress e = Inr j \<and> parse_Egress (re_ip (se_router env)) j = Inr e"
      using egress.toJson_parse [of "re_ip (se_router env)" e] by simp_all
    have "n \<in> fst ` set (sv_egresses s)" using x by force
    then show "travels n" using assms(2) by (simp add: names_travel_def)
  qed
  have e: "n \<noteq> [] \<and> c_str n = n \<and> (\<exists>j. toJson_Egress e = Inr j)" if "(n, e) \<in> set (sv_egresses s)" for n e
    using entry [OF that] c_str_travels [of n] by blast
  have d: "distinct (map fst (sv_egresses s))" using assms(1) by (simp add: vos_ok_def)
  have "\<exists>t'. update_category (se_json env) (respond env) root EGRESSES t = (Inr [], t') \<and> ?I t' \<and>
      map_of (sv_egresses t') = map_of (sv_egresses t) ++ (map_option (\<lambda>e. e) \<circ> map_of (sv_egresses s))"
  proof (rule load_table [OF e _ _ d assms(4,5)])
    fix n e j u
    assume i: "?I u" and x: "(n, e) \<in> set (sv_egresses s)" and j: "toJson_Egress e = Inr j"
    have p: "parse_Egress (re_ip (se_router env)) j = Inr e" using entry(3) [OF x] j by simp
    have reads: "json_reads (se_json env) j" using assms(3) x j by (auto simp: backup_documents_def)
    from i have "sv_route u = default_route" "map_contains (sv_egresses u) ''direct''" by simp_all
    from put_one_egress [OF entry(1,2) [OF x] reads p this] obtain u' where
      u': "client_put (respond env) (target_of EGRESSES n) (json_toString (se_json env) j) u = (Inr status_no_content, u')"
        "sv_egresses u' = AList.update n e (sv_egresses u)" "sv_listeners u' = sv_listeners u" "sv_rules u' = sv_rules u"
        "sv_route u' = sv_route u" by blast
    then show "\<exists>u'. client_put (respond env) (target_of EGRESSES n) (json_toString (se_json env) j) u = (Inr status_no_content, u') \<and>
        ?I u' \<and> map_of (sv_egresses u') = (map_of (sv_egresses u))(n \<mapsto> e)"
      using i by (intro exI [of _ u']) (simp add: AList.update_conv')
  next
    show "?I t" using assms(6,7) by simp
  qed
  then show ?thesis by (auto simp: option.map_ident comp_def)
qed

lemma restore_rules:
  assumes "vos_ok env s" and "names_travel s" and "backup_documents env s"
    and "to_json (\<lambda>r. Inr (toJson_Rule r)) (sv_rules s) = Inr doc" and "map_of (GetObj root) RULES = Some doc"
    and "sv_route t = default_route"
  shows "\<exists>t'. update_category (se_json env) (respond env) root RULES t = (Inr [], t') \<and>
    map_of (sv_rules t') = map_of (sv_rules t) ++ map_of (sv_rules s) \<and>
    sv_listeners t' = sv_listeners t \<and> sv_egresses t' = sv_egresses t"
proof -
  let ?I = "\<lambda>u :: server. sv_listeners u = sv_listeners t \<and> sv_egresses u = sv_egresses t \<and> sv_route u = default_route"
  have entry: "n \<noteq> []" "travels n" "parse_Rule (toJson_Rule r) = Inr r" if x: "(n, r) \<in> set (sv_rules s)" for n r
  proof -
    have "n \<noteq> [] \<and> wf_Rule r" using assms(1) x by (auto simp: vos_ok_def)
    then show "n \<noteq> []" "parse_Rule (toJson_Rule r) = Inr r" using rule.toJson_parse [of r] by simp_all
    have "n \<in> fst ` set (sv_rules s)" using x by force
    then show "travels n" using assms(2) by (simp add: names_travel_def)
  qed
  have e: "n \<noteq> [] \<and> c_str n = n \<and> (\<exists>j. Inr (toJson_Rule r) = (Inr j :: json result))" if "(n, r) \<in> set (sv_rules s)" for n r
    using entry [OF that] c_str_travels [of n] by simp
  have d: "distinct (map fst (sv_rules s))" using assms(1) by (simp add: vos_ok_def)
  have "\<exists>t'. update_category (se_json env) (respond env) root RULES t = (Inr [], t') \<and> ?I t' \<and>
      map_of (sv_rules t') = map_of (sv_rules t) ++ (map_option (\<lambda>r. r) \<circ> map_of (sv_rules s))"
  proof (rule load_table [OF e _ _ d assms(4,5)])
    fix n r j u
    assume i: "?I u" and x: "(n, r) \<in> set (sv_rules s)" and j: "Inr (toJson_Rule r) = Inr j"
    have reads: "json_reads (se_json env) (toJson_Rule r)" using assms(3) x by (auto simp: backup_documents_def)
    have "sv_route u = default_route" using i by simp
    from put_one_rule [OF entry(1,2) [OF x] reads entry(3) [OF x] this] show
      "\<exists>u'. client_put (respond env) (target_of RULES n) (json_toString (se_json env) j) u = (Inr status_no_content, u') \<and>
        ?I u' \<and> map_of (sv_rules u') = (map_of (sv_rules u))(n \<mapsto> r)"
      using i j by (simp add: AList.update_conv')
  next
    show "?I t" using assms(6) by simp
  qed
  then show ?thesis by (auto simp: option.map_ident comp_def)
qed

lemma restore_route:
  assumes "refs_ok s" and "synced env s" and "\<And>n v. map_of (sv_egresses s) n = Some v \<Longrightarrow> map_of (sv_egresses t) n = Some v"
    and "map_of (sv_rules t) = map_of (sv_rules s)"
  shows "check_route (sv_egresses t) (sv_rules t) (sv_route s) = Inr () \<and>
    make_router (se_router env) (sv_egresses t) (sv_rules t) (sv_route s) = Inr (sv_router s)"
proof
  have same: "map_contains (sv_egresses s) n \<Longrightarrow> map_of (sv_egresses t) n = map_of (sv_egresses s) n" for n
    using assms(3) by (auto simp: map_contains_def)
  have e: "map_contains (sv_egresses s) n \<Longrightarrow> map_contains (sv_egresses t) n" for n
    using same by (simp add: map_contains_def)
  have r: "map_contains (sv_rules t) n = map_contains (sv_rules s) n" for n using assms(4) by (simp add: map_contains_def)
  show "check_route (sv_egresses t) (sv_rules t) (sv_route s) = Inr ()"
    using assms(1) e by (auto simp: check_route_def refs_ok_def list_all_iff r split: option.splits)
  have "make_router (se_router env) (sv_egresses t) (sv_rules t) (sv_route s) =
      make_router (se_router env) (sv_egresses s) (sv_rules s) (sv_route s)"
    using assms(1,4) same by (intro make_router_cong) (auto simp: refs_ok_def)
  then show "make_router (se_router env) (sv_egresses t) (sv_rules t) (sv_route s) = Inr (sv_router s)"
    using assms(2) by (simp add: synced_def)
qed

section \<open>Properties\<close>

lemma boot_tables:
  assumes "server_new env = Inr s0"
  shows "sv_listeners s0 = []" and "sv_egresses s0 = [(''direct'', empty_egress DIRECT)]" and "sv_rules s0 = []"
    and "sv_route s0 = default_route"
  using assms by (auto simp: server_new_def default_route_def result_simps Let_def)


text \<open>A server with an ingress, a rule and a route that uses it, and a file with its listings.\<close>

definition sample_backup_doc :: json where
  "sample_backup_doc = JObject
     [(INGRESSES, JObject [(''i'', JObject [(ingress_TYPE, JString ''socks5''),
        (ingress_BIND, JArray [JObject [(endpoint_HOST, JString ''127.0.0.1''), (endpoint_PORT, JInt 1080)]])])]),
      (EGRESSES, JObject [(''direct'', JObject [(egress_TYPE, JString ''direct'')])]),
      (RULES, JObject [(''r'', JObject [(rule_DOMAIN_NAME, JArray [JString ''example.com''])])]),
      (ROUTE, JObject [(route_DEFAULT, JString ''direct''),
        (route_RULES, JArray [JArray [JString ''r'', JString ''direct'']])])]"

definition sample_backup_env :: server_env where
  "sample_backup_env = sample_client_env\<lparr>se_open := (\<lambda>_ _. None),
     se_json := \<lparr>jt_parse = map_of ((''backup'', sample_backup_doc) # sample_texts),
       jt_write = jt_write (se_json sample_client_env)\<rparr>\<rparr>"

definition sample_fresh :: server where
  "sample_fresh = projr (server_new sample_backup_env)"

definition sample_backed :: server where
  "sample_backed = snd (server_steps sample_backup_env [E_Request put_good_rule, E_Request put_socks, E_Request put_use_r] sample_fresh)"


end
