(* ===== verification/Pichi_Fingerprint.thy ===== *)
theory Pichi_Fingerprint
  imports Pichi_Layers
begin

text \<open>
  The build of \<^verbatim>\<open>src/stream/tls.cpp\<close> with \<^verbatim>\<open>TLS_FINGERPRINT\<close>, which makes the egress look like a browser: the settings that are given to BoringSSL, and the
  compression of certificates, where Brotli and the buffers of BoringSSL are parameters.
\<close>

section \<open>Compression of certificates\<close>

text \<open>
  The functions of Brotli return a code with the bytes they have written. The sources compare the code of the encoder, where \<^verbatim>\<open>BROTLI_TRUE\<close> is success, with a
  constant of the decoder; both are 1.
\<close>

record brotli =
  br_max :: "nat \<Rightarrow> nat"
  br_encode :: "nat \<Rightarrow> bytes \<Rightarrow> nat \<times> bytes"
  br_decode :: "nat \<Rightarrow> bytes \<Rightarrow> nat \<times> bytes"

abbreviation BROTLI_DECODER_RESULT_SUCCESS :: nat where "BROTLI_DECODER_RESULT_SUCCESS \<equiv> 1"

text \<open>A \<^verbatim>\<open>CBB\<close> is what has been written, and how much it can still reserve.\<close>

record cbb =
  cb_data :: bytes
  cb_room :: nat

definition cbb_did_write :: "bytes \<Rightarrow> cbb \<Rightarrow> cbb" where
  "cbb_did_write bs b = b\<lparr>cb_data := cb_data b @ bs, cb_room := cb_room b - length bs\<rparr>"

definition cert_compress :: "brotli \<Rightarrow> bytes \<Rightarrow> cbb \<Rightarrow> nat \<times> cbb" where
  "cert_compress br input buf =
     (let out_len = br_max br (length input) in
      if cb_room buf < out_len then (0, buf)
      else case br_encode br out_len input of
        (code, out) \<Rightarrow>
          if code \<noteq> BROTLI_DECODER_RESULT_SUCCESS then (0, cbb_did_write [] buf)
          else (1, cbb_did_write out buf))"

text \<open>What the pointer to the buffer points to: nothing, a buffer, or one that has been freed.\<close>

datatype crypto_buffer = Null | Buffer bytes | Freed

definition cert_decompress :: "brotli \<Rightarrow> bool \<Rightarrow> nat \<Rightarrow> bytes \<Rightarrow> nat \<times> crypto_buffer" where
  "cert_decompress br allocated uncompressed_len input =
     (if \<not> allocated then (0, Null)
      else case br_decode br uncompressed_len input of
        (code, out) \<Rightarrow>
          if code \<noteq> BROTLI_DECODER_RESULT_SUCCESS \<or> length out \<noteq> uncompressed_len then (0, Freed)
          else (1, Buffer out))"

section \<open>Settings\<close>

datatype sigalg = NID_sha256 | NID_sha384 | NID_sha512 | EVP_PKEY_EC | EVP_PKEY_RSA_PSS | EVP_PKEY_RSA

datatype cert_callback = No_callback | Compress | Decompress

record fingerprint =
  fp_permute_extensions :: bool
  fp_grease :: bool
  fp_ocsp_stapling :: bool
  fp_cipher_list :: string
  fp_signed_cert_timestamps :: bool
  fp_alpn_protos :: bytes
  fp_min_proto_version :: nat
  fp_sigalgs :: "sigalg list"
  fp_cert_compression :: "(nat \<times> cert_callback \<times> cert_callback) list"

abbreviation TLS1_2_VERSION :: nat where "TLS1_2_VERSION \<equiv> 0x0303"
abbreviation TLSEXT_cert_compression_brotli :: nat where "TLSEXT_cert_compression_brotli \<equiv> 2"

definition CIPHER_SUITES :: string where
  "CIPHER_SUITES =
     ''TLS_AES_128_GCM_SHA256:TLS_AES_256_GCM_SHA384:TLS_CHACHA20_POLY1305_SHA256:'' @
     ''ECDHE-ECDSA-AES128-GCM-SHA256:ECDHE-RSA-AES128-GCM-SHA256:ECDHE-ECDSA-AES256-GCM-SHA384:'' @
     ''ECDHE-RSA-AES256-GCM-SHA384:ECDHE-ECDSA-CHACHA20-POLY1305:ECDHE-RSA-CHACHA20-POLY1305:'' @
     ''ECDHE-RSA-AES128-SHA:ECDHE-RSA-AES256-SHA:AES128-GCM-SHA256:AES256-GCM-SHA384:'' @
     ''AES128-SHA:AES256-SHA''"

definition ALPN :: bytes where
  "ALPN = [0x02, 0x68, 0x32, 0x08, 0x68, 0x74, 0x74, 0x70, 0x2f, 0x31, 0x2e, 0x31]"

definition ALGORITHMS :: "sigalg list" where
  "ALGORITHMS =
     [NID_sha256, EVP_PKEY_EC, NID_sha256, EVP_PKEY_RSA_PSS, NID_sha256, EVP_PKEY_RSA,
      NID_sha384, EVP_PKEY_EC, NID_sha384, EVP_PKEY_RSA_PSS, NID_sha384, EVP_PKEY_RSA,
      NID_sha512, EVP_PKEY_RSA_PSS, NID_sha512, EVP_PKEY_RSA]"

definition setup_fingerprint_ctx :: "fingerprint \<Rightarrow> fingerprint" where
  "setup_fingerprint_ctx ctx =
     ctx\<lparr>fp_permute_extensions := True, fp_grease := True, fp_ocsp_stapling := True, fp_cipher_list := CIPHER_SUITES,
         fp_signed_cert_timestamps := True, fp_alpn_protos := ALPN, fp_min_proto_version := TLS1_2_VERSION,
         fp_sigalgs := ALGORITHMS,
         fp_cert_compression := fp_cert_compression ctx @ [(TLSEXT_cert_compression_brotli, No_callback, Decompress)]\<rparr>"

text \<open>The application settings of a stream, by protocol.\<close>

definition setup_fingerprint :: "(bytes \<times> bytes) list \<Rightarrow> (bytes \<times> bytes) list" where
  "setup_fingerprint settings = settings @ [(bytes_of ''h2'', [])]"

text \<open>The contexts of this build: a context of OpenSSL with its settings.\<close>

definition fingerprint_ingress ::
  "('n, 'x) ssl_lib \<Rightarrow> fingerprint \<Rightarrow> TlsIngressOption \<Rightarrow> (ssl_context \<times> fingerprint) result" where
  "fingerprint_ingress sl fp opt =
     rbind (tls_context_ingress sl opt) (\<lambda>ctx.
     Inr (ctx, fp\<lparr>fp_cert_compression := fp_cert_compression fp @ [(TLSEXT_cert_compression_brotli, Compress, No_callback)]\<rparr>))"

definition fingerprint_egress ::
  "('n, 'x) ssl_lib \<Rightarrow> fingerprint \<Rightarrow> TlsEgressOption \<Rightarrow> string \<Rightarrow> (ssl_context \<times> fingerprint) result" where
  "fingerprint_egress sl fp opt sn =
     (let fp' = setup_fingerprint_ctx fp in rbind (tls_context_egress sl opt sn) (\<lambda>ctx. Inr (ctx, fp')))"

section \<open>What the settings mean\<close>

text \<open>The protocols of a list in the format of ALPN: each with its length before it, none of them empty.\<close>

fun alpn_parse :: "nat \<Rightarrow> bytes \<Rightarrow> string list option" where
  "alpn_parse fuel [] = Some []"
| "alpn_parse 0 (n # bs) = None"
| "alpn_parse (Suc fuel) (n # bs) =
     (if unat n = 0 \<or> length bs < unat n then None
      else map_option ((#) (string_of (take (unat n) bs))) (alpn_parse fuel (drop (unat n) bs)))"

fun sigalg_pairs :: "sigalg list \<Rightarrow> (sigalg \<times> sigalg) list option" where
  "sigalg_pairs [] = Some []"
| "sigalg_pairs [x] = None"
| "sigalg_pairs (h # k # xs) =
     (if h \<in> {NID_sha256, NID_sha384, NID_sha512} \<and> k \<in> {EVP_PKEY_EC, EVP_PKEY_RSA_PSS, EVP_PKEY_RSA}
      then map_option ((#) (h, k)) (sigalg_pairs xs) else None)"

text \<open>
  The arrays of the egress are well-formed: the protocols offered are \<^verbatim>\<open>h2\<close> and \<^verbatim>\<open>http/1.1\<close>, the algorithms are pairs of a hash and a kind of
  key, without a repetition. Verification of the peer is what it is without the fingerprint.
\<close>

theorem fingerprint_wellformed:
  assumes "fingerprint_egress sl fp opt sn = Inr (ctx, fp')"
  shows "alpn_parse 12 (fp_alpn_protos fp') = Some [''h2'', ''http/1.1''] \<and>
    (\<exists>ps. sigalg_pairs (fp_sigalgs fp') = Some ps \<and> length ps = 8 \<and> distinct ps) \<and>
    tls_context_egress sl opt sn = Inr ctx"
proof -
  have "fp' = setup_fingerprint_ctx fp" "tls_context_egress sl opt sn = Inr ctx"
    using assms by (auto simp: fingerprint_egress_def Let_def result_simps)
  moreover have "alpn_parse 12 ALPN = Some [''h2'', ''http/1.1'']" by code_simp
  moreover have "case sigalg_pairs ALGORITHMS of None \<Rightarrow> False | Some ps \<Rightarrow> length ps = 8 \<and> distinct ps" by code_simp
  ultimately show ?thesis by (auto simp: setup_fingerprint_ctx_def split: option.splits)
qed

text \<open>
  A certificate that an ingress compresses is the one an egress decompresses, and the decompression never delivers a buffer of another length than the
  one announced, nor one that it has freed.
\<close>

definition brotli_laws :: "brotli \<Rightarrow> bool" where
  "brotli_laws br \<longleftrightarrow> (\<forall>n x y. br_encode br n x = (1, y) \<longrightarrow> br_decode br (length x) y = (1, x))"

theorem certificate_survives:
  assumes "brotli_laws br" and "cert_compress br cert buf = (1, buf')"
  shows "\<exists>out. cb_data buf' = cb_data buf @ out \<and> cert_decompress br True (length cert) out = (1, Buffer cert)"
proof -
  obtain out where "br_encode br (br_max br (length cert)) cert = (1, out)" "buf' = cbb_did_write out buf"
    using assms(2) by (auto simp: cert_compress_def Let_def split: if_splits prod.splits)
  then show ?thesis using assms(1) by (intro exI [of _ out]) (simp add: cbb_did_write_def brotli_laws_def cert_decompress_def)
qed

theorem decompressed_length:
  "cert_decompress br allocated n input = (1, b) \<Longrightarrow> \<exists>out. b = Buffer out \<and> length out = n"
  by (auto simp: cert_decompress_def split: if_splits prod.splits)

end
