(* ===== verification/Pichi_Iterator.thy ===== *)
theory Pichi_Iterator
  imports Pichi_Json
begin

text \<open>
  Helpers of the headers: the iterator that converts while it advances (\<^verbatim>\<open>include/pichi/vo/iterator.hpp\<close>), pairs in JSON (\<^verbatim>\<open>parsePair\<close> of
  \<^verbatim>\<open>include/pichi/vo/parse.hpp\<close>) and the literals with a width (\<^verbatim>\<open>include/pichi/common/literals.hpp\<close>).
\<close>

section \<open>Converting iterators\<close>

text \<open>
  The delegate is a position in the sequence it iterates over, the generator a function of the position that may throw. The holder has the
  value of the current position, and is empty at the end.
\<close>

record 'v iterator =
  it_delegate :: nat
  it_last :: nat
  it_holder :: "'v option"

definition iterator_new :: "(nat \<Rightarrow> 'v result) \<Rightarrow> nat \<Rightarrow> nat \<Rightarrow> 'v iterator result" where
  "iterator_new g d l =
     (if d \<noteq> l then rbind (g d) (\<lambda>v. Inr \<lparr>it_delegate = d, it_last = l, it_holder = Some v\<rparr>)
      else Inr \<lparr>it_delegate = d, it_last = l, it_holder = None\<rparr>)"

definition iterator_deref :: "'v iterator \<Rightarrow> 'v result" where
  "iterator_deref it = deref (it_holder it)"

definition iterator_incr :: "(nat \<Rightarrow> 'v result) \<Rightarrow> 'v iterator \<Rightarrow> 'v iterator result" where
  "iterator_incr g it =
     (let d = Suc (it_delegate it) in
      if d \<noteq> it_last it then rbind (g d) (\<lambda>v. Inr (it\<lparr>it_delegate := d, it_holder := Some v\<rparr>))
      else Inr (it\<lparr>it_delegate := d, it_holder := None\<rparr>))"

definition iterator_incr_post :: "(nat \<Rightarrow> 'v result) \<Rightarrow> 'v iterator \<Rightarrow> ('v iterator \<times> 'v iterator) result" where
  "iterator_incr_post g it = rbind (iterator_incr g it) (\<lambda>it'. Inr (it, it'))"

definition iterator_eq :: "'v iterator \<Rightarrow> 'v iterator \<Rightarrow> bool" where
  "iterator_eq l r \<longleftrightarrow> it_delegate l = it_delegate r"

text \<open>A loop from one iterator to another, of at most \<open>fuel\<close> rounds.\<close>

fun iterator_loop :: "nat \<Rightarrow> (nat \<Rightarrow> 'v result) \<Rightarrow> 'v iterator \<Rightarrow> 'v iterator \<Rightarrow> 'v list result" where
  "iterator_loop fuel g it fin =
     (if iterator_eq it fin then Inr []
      else case fuel of
        0 \<Rightarrow> Inl Diverges
      | Suc n \<Rightarrow>
          rbind (iterator_deref it) (\<lambda>v.
          rbind (iterator_incr g it) (\<lambda>it'.
          rbind (iterator_loop n g it' fin) (\<lambda>vs. Inr (v # vs)))))"

declare iterator_loop.simps [simp del]

definition iterator_collect :: "(nat \<Rightarrow> 'v result) \<Rightarrow> nat \<Rightarrow> nat \<Rightarrow> 'v list result" where
  "iterator_collect g d l =
     rbind (iterator_new g d l) (\<lambda>it. rbind (iterator_new g l l) (\<lambda>fin. iterator_loop (l - d) g it fin))"

text \<open>At a position, a loop is the loop of a new iterator there.\<close>

lemma iterator_incr_new: "iterator_incr g \<lparr>it_delegate = d, it_last = l, it_holder = h\<rparr> = iterator_new g (Suc d) l"
  by (simp add: iterator_incr_def iterator_new_def Let_def)

lemma iterator_loop_step:
  assumes "it_delegate fin \<noteq> d"
  shows "iterator_loop (Suc n) g \<lparr>it_delegate = d, it_last = l, it_holder = Some v\<rparr> fin =
    rbind (iterator_new g (Suc d) l) (\<lambda>it. rbind (iterator_loop n g it fin) (\<lambda>vs. Inr (v # vs)))"
  using assms by (subst iterator_loop.simps) (simp add: iterator_eq_def iterator_deref_def iterator_incr_new)

lemma iterator_collect_step:
  assumes "d < l"
  shows "iterator_collect g d l = rbind (g d) (\<lambda>v. rbind (iterator_collect g (Suc d) l) (\<lambda>vs. Inr (v # vs)))"
proof -
  have fuel: "l - d = Suc (l - Suc d)" using assms by simp
  have new: "iterator_new g l l = Inr \<lparr>it_delegate = l, it_last = l, it_holder = None\<rparr>" by (simp add: iterator_new_def)
  show ?thesis
  proof (cases "g d")
    case (Inr v)
    then have "iterator_new g d l = Inr \<lparr>it_delegate = d, it_last = l, it_holder = Some v\<rparr>"
      using assms by (simp add: iterator_new_def)
    then show ?thesis using Inr assms unfolding iterator_collect_def new fuel
      by (simp add: iterator_loop_step rbind_assoc)
  qed (use assms in \<open>simp add: iterator_collect_def iterator_new_def\<close>)
qed

text \<open>
  Iterating is converting every position once, in order, and stops with the first error. The loop ends, and never reads an empty holder.
\<close>

theorem iterator_converts: "d \<le> l \<Longrightarrow> iterator_collect g d l = mapM g [d..<l]"
proof (induction "l - d" arbitrary: d)
  case 0
  then show ?case by (simp add: iterator_collect_def iterator_new_def iterator_loop.simps iterator_eq_def)
next
  case (Suc n)
  then have "d < l" by simp
  then show ?case using Suc by (simp add: iterator_collect_step upt_conv_Cons)
qed

section \<open>Pairs\<close>

text \<open>The two elements are converted in some order; the model has the first one first.\<close>

definition parsePair :: "json \<Rightarrow> (json \<Rightarrow> 'a result) \<Rightarrow> ('a \<times> 'a) result" where
  "parsePair v parseItem =
     rthen (assertTrue (IsArray v) BAD_JSON ARY_TYPE_ERROR)
    (rthen (assertTrue (length (GetArray v) = 2) BAD_JSON PAIR_TYPE_ERROR)
    (rbind (parseItem (GetArray v ! 0)) (\<lambda>a. rbind (parseItem (GetArray v ! 1)) (\<lambda>b. Inr (a, b)))))"

theorem parsePair_iff:
  "parsePair v p = Inr (a, b) \<longleftrightarrow> (\<exists>x y. v = JArray [x, y] \<and> p x = Inr a \<and> p y = Inr b)"
  by (cases v) (auto simp: parsePair_def result_simps length_Suc_conv numeral_2_eq_2)

section \<open>Literals\<close>

text \<open>A literal that does not fit its width fails the assertion.\<close>

definition literal_sz :: "64 word \<Rightarrow> size_t result" where
  "literal_sz i = (if i \<le> - 1 then Inr i else Inl Terminated)"

definition literal_u8 :: "64 word \<Rightarrow> byte result" where
  "literal_u8 i = (if i \<le> 0xff then Inr (ucast i) else Inl Terminated)"

definition literal_u16 :: "64 word \<Rightarrow> u16 result" where
  "literal_u16 i = (if i \<le> 0xffff then Inr (ucast i) else Inl Terminated)"

theorem literals_keep_value:
  "literal_sz i = Inr i" "literal_u8 i = Inr b \<Longrightarrow> unat b = unat i" "literal_u16 i = Inr w \<Longrightarrow> unat w = unat i"
proof -
  show "literal_sz i = Inr i" by (simp add: literal_sz_def)
next
  assume "literal_u8 i = Inr b"
  then have b: "b = ucast i" "unat i \<le> 255" by (auto simp: literal_u8_def word_le_nat_alt split: if_splits)
  then show "unat b = unat i" by (simp add: unsigned_ucast_eq take_bit_nat_eq_self)
next
  assume "literal_u16 i = Inr w"
  then have w: "w = ucast i" "unat i \<le> 65535" by (auto simp: literal_u16_def word_le_nat_alt split: if_splits)
  then show "unat w = unat i" by (simp add: unsigned_ucast_eq take_bit_nat_eq_self)
qed

end
