(* ===== verification/Spec2Isabelle.thy ===== *)
theory Spec2Isabelle
  imports Pichi_Program Pichi_Backup Pichi_Fingerprint Pichi_Iterator
begin

text \<open>
  A verification development of pichi, a proxy that accepts connections with one protocol (an ingress), finds by
  rules where each belongs (the router), and forwards it with another protocol (an egress). Everything is configured
  at run time by an HTTP API.

  \<^bold>\<open>How the program is put together.\<close> \<^verbatim>\<open>server/main.cpp\<close> reads the command line, becomes a daemon and gives up its privileges; \<^verbatim>\<open>server/run.cpp\<close> starts the API
  server (\<^verbatim>\<open>src/actor/server.cpp\<close>) and a client that loads a configuration file through the API. \<^verbatim>\<open>src/pichi.cpp\<close> is the same server as a library. The server owns the tables of ingresses, egresses and rules and the route,
  whose entries are the value objects of \<^verbatim>\<open>src/vo\<close>, a router built from them (\<^verbatim>\<open>src/actor/router.cpp\<close>), and one listener per ingress
  (\<^verbatim>\<open>src/actor/listener.cpp\<close>). A listener starts a session (\<^verbatim>\<open>src/actor/session.cpp\<close>) for every connection. The session asks its ingress
  adapter for the endpoint the client wants, the router for an egress, connects the egress adapter
  (\<^verbatim>\<open>src/adapter/tcp\<close>), and relays bytes. The adapters run over streams (\<^verbatim>\<open>include/pichi/stream\<close>) and use services shared by all
  sessions (\<^verbatim>\<open>src/service\<close>): balancers, the sentry of salts, the pool of local connections, the GeoIP database.

  \<^bold>\<open>How the model is built.\<close> A struct or class is a record, an enumeration or a variant a datatype, a fixed-width integer a
  word, a table an association list with distinct keys. A function that may throw returns \<open>exn + 'a\<close>; a coroutine is a function of the
  state it reads and writes that returns its result with the new state, also when it throws. Undefined behaviour
  (an empty optional that is dereferenced, a dangling pointer) is the outcome \<open>UB\<close>, an exception that ends the process the outcome
  \<open>Terminated\<close>. Libraries outside the sources are parameters, records of functions: \<open>ip_lib\<close> (addresses), \<open>regex_lib\<close>,
  \<open>mmdb_lib\<close>, \<open>json_text\<close>, \<open>http_lib\<close> (Boost.Beast, Base64), \<open>crypto_lib\<close> (Botan), \<open>ssl_lib\<close>, \<open>ws_lib\<close>, \<open>brotli\<close>, \<open>tcp_lib\<close> (resolver, \<^verbatim>\<open>asio::async_connect\<close> and connections), \<open>pf_lib\<close>, \<open>os\<close> (system calls); what
  a theorem needs of one is a hypothesis (\<open>ip_laws\<close>, \<open>crypto_laws\<close>, \<open>json_reads\<close> and others), and its witness has an instance.

  \<^bold>\<open>The theories, from the bottom up.\<close>
  \<^item> \<open>Pichi_Base\<close>: the prelude. Enumerations, error codes and assertions (\<^verbatim>\<open>src/common\<close>), results and their sequencing, what a
    computation keeps, association lists, dotted names.
  \<^item> \<open>Pichi_Buffer\<close>, \<open>Pichi_Endpoint\<close>: byte order, endpoints, their wire format and their parsers (\<^verbatim>\<open>src/common/endpoint.cpp\<close>);
    the locale \<open>byte_reader\<close> is what a parser relies on.
  \<^item> \<open>Pichi_Json\<close>, \<open>Pichi_Options\<close>, \<open>Pichi_Credential\<close>, \<open>Pichi_Egress\<close>, \<open>Pichi_Ingress\<close>, \<open>Pichi_Route\<close>: the value objects with parsing, printing and
    comparison (\<^verbatim>\<open>src/vo\<close>). What is printed parses back, and a parser raises only errors the API reports to its client.
  \<^item> \<open>Pichi_Regex\<close>: a backtracking matcher for the fixed patterns of the sources; \<open>Pichi_Samples\<close>: values for the witnesses.
  \<^item> \<open>Pichi_Router\<close>: matchers, construction of a router, routing with its lazy resolution. The first matching rule decides, a rule means what its fields
    say, and a router can be built exactly from valid tables.
  \<^item> \<open>Pichi_Sentry\<close>, \<open>Pichi_Balancer\<close>: the services. Replays are seen, the pool of local connections answers for what has been
    posted to it, the balancers keep their discipline, at the width of their counters.
  \<^item> \<open>Pichi_Server\<close>, \<open>Pichi_Server_Inv\<close>, \<open>Pichi_Api\<close>: the API server with its listeners and what it posts to other strands; the invariant of every
    reachable state; requests one by one and in sequences.
  \<^item> \<open>Pichi_Stream\<close>: sockets as queues of chunks, so that a theorem about every state holds for every way the bytes can be cut; layers and the
    locales \<open>byte_stream\<close> and \<open>byte_channel\<close>, interpreted for sockets here, for TLS in \<open>Pichi_Layers\<close>.
  \<^item> \<open>Pichi_Socks5\<close>, \<open>Pichi_Trojan\<close>, \<open>Pichi_Uri\<close>, \<open>Pichi_Http\<close>, \<open>Pichi_Shadowsocks\<close>: the protocols. For each, that ingress and egress understand each
    other, that only authenticated clients are served, and where bytes are lost.
  \<^item> \<open>Pichi_Layers\<close>: TLS and WebSocket streams over another layer. \<open>Pichi_Adapter\<close>: the adapters without a protocol and the dual ingress.
    \<open>Pichi_Factory\<close>: the variants, the factories and the visits of their operations.
  \<^item> \<open>Pichi_Session\<close>: handshake and relay. The two bridges are program counters, \<open>relay_step\<close> interleaves them; the locales \<open>relay_end\<close>, \<open>bridge_ends\<close> and
    \<open>relayed\<close> carry the proof that nothing is lost or reordered, and are interpreted on the adapters over sockets.
  \<^item> \<open>Pichi_Connect\<close>: connecting a TCP socket to a name or an address: what a request names is what is connected to. \<open>Pichi_Transparent\<close>: the transparent ingress for pf; it reads
    what the one for iptables reads, except for clients with mapped addresses. \<open>Pichi_Fingerprint\<close>: the build with \<^verbatim>\<open>TLS_FINGERPRINT\<close>; its settings are well-formed and certificates survive
    compression. \<open>Pichi_Iterator\<close>: the converting iterator, pairs and literals of the headers.
  \<^item> \<open>Pichi_Client\<close>: the client of \<^verbatim>\<open>server/run.cpp\<close>, against the API as a parameter. \<open>Pichi_Backup\<close>: a file of what the API lists
    restores the server. \<open>Pichi_Serve\<close>: the loops that accept connections, and the guard of the API against connections
    through the proxy itself.
  \<^item> \<open>Pichi_Program\<close>: \<^verbatim>\<open>main\<close>, \<^verbatim>\<open>run\<close> and \<^verbatim>\<open>pichi_run_server\<close>. System calls are a trace of events that any operating system may answer; \<open>checked\<close> computations
    stop at the first failure. The server runs only after the group and the user were changed; errors of the running server do not reach the exit code.

  \<^bold>\<open>Bounds.\<close> Loops are total functions. A read of \<open>n\<close> bytes ends because every part delivers at least one; the header of an HTTP
  message is read up to \<open>HEADER_LIMIT\<close>, the loop has no value (\<open>Diverges\<close>) where a parser or layer breaks its promise to make progress;
  the cache of a Trojan ingress holds 512 bytes, so 513 reads suffice; \<open>layered_read\<close> and \<open>layered_write\<close> are \<^verbatim>\<open>read\<close> and \<^verbatim>\<open>write\<close> of \<^verbatim>\<open>helpers.hpp\<close> with the documented
  loops of \<^verbatim>\<open>asio::async_read\<close> and \<^verbatim>\<open>asio::async_write\<close>, the latter handing over 65536 bytes at a time; a bridge
  reads into 0xffff bytes. A relay has no bound in the code; \<open>relay_terminates\<close> bounds it by the bytes that are there to relay.

  \<^bold>\<open>Not modelled.\<close> The C++ concepts (\<^verbatim>\<open>stream/concepts.hpp\<close>), the pipes of the unit tests (\<^verbatim>\<open>src/stream/test.cpp\<close>) and the keys of protocols that no code
  implements say nothing about a run. Builds for systems without \<^verbatim>\<open>fork\<close> or users are left out. The event loop is modelled by the order in which
  coroutines end, which is arbitrary, and a strand by the order of what is posted to it. Log output is left out except where the
  client's log says what was not loaded. Two operations on one socket at the same time are modelled as one after the other, in every order; an
  operation that is cancelled is done completely or not at all, and a write on an open connection is complete. Timers are modelled by what they let happen, not by time.
\<close>

end
